(* ===== verification/Prelude.thy ===== *)
theory Prelude
  imports Main "HOL-Library.Word" "HOL-Library.AList"
begin

text \<open>
  Shared vocabulary of the development: machine integers, panics as values, Rust slices,
  little-endian integers, and the concurrent hash maps of the program (\<open>DashMap\<close>,
  \<open>HashMap\<close>) as association lists.  The interfaces that several components implement
  are the locales at the end: \<open>frame_codec\<close> (a header in front of a payload),
  \<open>keyed_store\<close> (a map keyed by identifiers) and \<open>ticket_counter\<close> (an atomic counter
  read by \<open>fetch_add\<close>).
\<close>

named_theorems slice_simps \<open>evaluation of the slice operations on concrete shapes\<close>
named_theorems le_simps \<open>little-endian encoding and decoding\<close>

type_synonym byte = "8 word"
type_synonym u16 = "16 word"
type_synonym u32 = "32 word"
type_synonym u64 = "64 word"
type_synonym bytes = "byte list"
type_synonym node_name = string
type_synonym instant = nat

section \<open>Panics as values\<close>

text \<open>
  Indexing a slice out of range, \<open>expect\<close> on an error, overflow in \<open>Duration\<close> arithmetic and a vector
  of more than \<open>isize::MAX\<close> bytes panic in Rust.  A function that can panic returns a sum whose left summand is
  the panic.
\<close>

datatype panic = Index_Panic | Expect_Panic string | Overflow_Panic | Capacity_Panic

type_synonym 'a outcome = "panic + 'a"

definition rbind :: "'e + 'a \<Rightarrow> ('a \<Rightarrow> 'e + 'b) \<Rightarrow> 'e + 'b" where
  "rbind m f = (case m of Inl e \<Rightarrow> Inl e | Inr x \<Rightarrow> f x)"

lemma rbind_simps [simp]:
  "rbind (Inl e) f = Inl e"
  "rbind (Inr x) f = f x"
  by (simp_all add: rbind_def)

lemma rbind_eq_Inr_iff: "rbind m f = Inr y \<longleftrightarrow> (\<exists>x. m = Inr x \<and> f x = Inr y)"
  by (cases m) auto

lemma rbind_eq_Inl_iff:
  "rbind m f = Inl e \<longleftrightarrow> m = Inl e \<or> (\<exists>x. m = Inr x \<and> f x = Inl e)"
  by (cases m) auto

lemma rbind_assoc: "rbind (rbind m f) g = rbind m (\<lambda>x. rbind (f x) g)"
  by (cases m) simp_all

lemma rbind_cong [fundef_cong]:
  "m = m' \<Longrightarrow> (\<And>x. m' = Inr x \<Longrightarrow> f x = g x) \<Longrightarrow> rbind m f = rbind m' g"
  by (cases m') auto

definition with_capacity :: "nat \<Rightarrow> nat \<Rightarrow> unit outcome" where
  \<comment> \<open>\<open>Vec::with_capacity(n)\<close> for elements of the given size on a 64-bit machine\<close>
  "with_capacity bytes n = (if n * bytes < 2 ^ 63 then Inr () else Inl Capacity_Panic)"

section \<open>Slices\<close>

definition rget :: "'a list \<Rightarrow> nat \<Rightarrow> 'a outcome" where
  "rget xs i = (if i < length xs then Inr (xs ! i) else Inl Index_Panic)"

definition slice :: "nat \<Rightarrow> nat \<Rightarrow> 'a list \<Rightarrow> 'a list outcome" where
  \<comment> \<open>\<open>&xs[i..j]\<close>\<close>
  "slice i j xs =
     (if i \<le> j \<and> j \<le> length xs then Inr (take (j - i) (drop i xs)) else Inl Index_Panic)"

definition slice_write :: "nat \<Rightarrow> 'a list \<Rightarrow> 'a list \<Rightarrow> 'a list outcome" where
  \<comment> \<open>\<open>xs[i..i + src.len()].copy_from_slice(src)\<close>\<close>
  "slice_write i src xs =
     (if i + length src \<le> length xs
      then Inr (take i xs @ src @ drop (i + length src) xs) else Inl Index_Panic)"

definition resize :: "nat \<Rightarrow> 'a \<Rightarrow> 'a list \<Rightarrow> 'a list" where
  \<comment> \<open>\<open>Vec::resize\<close>: truncates or pads at the end\<close>
  "resize n x xs = take n xs @ replicate (n - length xs) x"

lemma rget_Inr_iff: "rget xs i = Inr x \<longleftrightarrow> i < length xs \<and> xs ! i = x"
  by (auto simp: rget_def)

lemma slice_Inr_iff:
  "slice i j xs = Inr ys \<longleftrightarrow> i \<le> j \<and> j \<le> length xs \<and> ys = take (j - i) (drop i xs)"
  by (auto simp: slice_def)

lemma slice_append [slice_simps]:
  "length xs = i \<Longrightarrow> length ys = j - i \<Longrightarrow> i \<le> j \<Longrightarrow> slice i j (xs @ ys @ zs) = Inr ys"
  by (auto simp: slice_def)

lemma slice_append_tail [slice_simps]:
  "length xs = i \<Longrightarrow> j = i + length ys \<Longrightarrow> slice i j (xs @ ys) = Inr ys"
  by (auto simp: slice_def)

lemma slice_take:
  "j \<le> n \<Longrightarrow> n \<le> length xs \<Longrightarrow> slice i j (take n xs) = slice i j xs"
  by (auto simp: slice_def drop_take min_def)

lemma length_slice_write: "slice_write i src xs = Inr ys \<Longrightarrow> length ys = length xs"
  by (auto simp: slice_write_def split: if_splits)

lemma resize_id [simp]: "resize (length xs) x xs = xs"
  by (simp add: resize_def)

lemma length_resize [simp]: "length (resize n x xs) = n"
  by (simp add: resize_def)

lemma resize_pad: "length xs \<le> n \<Longrightarrow> resize n x xs = xs @ replicate (n - length xs) x"
  by (simp add: resize_def)

lemma drop_split: "drop a xs = take b (drop a xs) @ drop (a + b) xs"
  by (metis append_take_drop_id drop_drop add.commute)

section \<open>Little-endian integers\<close>

primrec le_bytes :: "nat \<Rightarrow> nat \<Rightarrow> bytes" where
  "le_bytes 0 k = []"
| "le_bytes (Suc n) k = word_of_nat k # le_bytes n (k div 256)"

primrec le_val :: "bytes \<Rightarrow> nat" where
  "le_val [] = 0"
| "le_val (b # bs) = unat b + 256 * le_val bs"

definition u16_to_le :: "u16 \<Rightarrow> bytes" where "u16_to_le w = le_bytes 2 (unat w)"
definition u32_to_le :: "u32 \<Rightarrow> bytes" where "u32_to_le w = le_bytes 4 (unat w)"
definition u64_to_le :: "u64 \<Rightarrow> bytes" where "u64_to_le w = le_bytes 8 (unat w)"
definition u16_from_le :: "bytes \<Rightarrow> u16" where "u16_from_le bs = word_of_nat (le_val bs)"
definition u32_from_le :: "bytes \<Rightarrow> u32" where "u32_from_le bs = word_of_nat (le_val bs)"
definition u64_from_le :: "bytes \<Rightarrow> u64" where "u64_from_le bs = word_of_nat (le_val bs)"

lemma le_bytes_numeral [simp]:
  "le_bytes (numeral n) k = word_of_nat k # le_bytes (pred_numeral n) (k div 256)"
  by (simp add: numeral_eq_Suc [of n])

lemma length_le_bytes [simp]: "length (le_bytes n k) = n"
  by (induction n arbitrary: k) auto

lemma le_val_less: "le_val bs < 256 ^ length bs"
proof (induction bs)
  case Nil
  then show ?case by simp
next
  case (Cons b bs)
  have "unat b < 256" using unsigned_less [of b] by simp
  moreover have "Suc (le_val bs) \<le> 256 ^ length bs" using Cons.IH by simp
  then have "256 * Suc (le_val bs) \<le> 256 * 256 ^ length bs" by (rule mult_le_mono2)
  ultimately show ?case by simp
qed

lemma le_val_le_bytes: "le_val (le_bytes n k) = k mod 256 ^ n"
proof (induction n arbitrary: k)
  case 0
  then show ?case by simp
next
  case (Suc n)
  then show ?case by (simp add: unat_of_nat mod_mult2_eq)
qed

lemma le_bytes_le_val: "le_bytes (length bs) (le_val bs) = bs"
proof (induction bs)
  case Nil
  then show ?case by simp
next
  case (Cons b bs)
  have b: "unat b < 256" using unsigned_less [of b] by simp
  have "(word_of_nat (unat b + 256 * le_val bs) :: byte) = b"
    by (rule word_unat_eq_iff [THEN iffD2]) (use b in \<open>simp add: unat_of_nat del: of_nat_add\<close>)
  moreover have "(unat b + 256 * le_val bs) div 256 = le_val bs" using b by simp
  ultimately show ?case using Cons.IH by (simp del: of_nat_add of_nat_mult)
qed

lemma length_to_le [simp]:
  "length (u16_to_le w) = 2" "length (u32_to_le x) = 4" "length (u64_to_le y) = 8"
  by (simp_all add: u16_to_le_def u32_to_le_def u64_to_le_def del: le_bytes_numeral)

lemma from_to_le [simp, le_simps]:
  "u16_from_le (u16_to_le w) = w"
  "u32_from_le (u32_to_le x) = x"
  "u64_from_le (u64_to_le y) = y"
proof -
  have "unat w < 256 ^ 2" "unat x < 256 ^ 4" "unat y < 256 ^ 8"
    using unsigned_less [of w] unsigned_less [of x] unsigned_less [of y] by simp_all
  then show
    "u16_from_le (u16_to_le w) = w"
    "u32_from_le (u32_to_le x) = x"
    "u64_from_le (u64_to_le y) = y"
    by (simp_all add: u16_from_le_def u16_to_le_def u32_from_le_def u32_to_le_def
        u64_from_le_def u64_to_le_def le_val_le_bytes del: le_bytes_numeral)
qed

lemma to_from_le:
  "length bs = 2 \<Longrightarrow> u16_to_le (u16_from_le bs) = bs"
  "length bs = 4 \<Longrightarrow> u32_to_le (u32_from_le bs) = bs"
  "length bs = 8 \<Longrightarrow> u64_to_le (u64_from_le bs) = bs"
  using le_val_less [of bs] le_bytes_le_val [of bs]
  by (simp_all add: u16_from_le_def u16_to_le_def u32_from_le_def u32_to_le_def
      u64_from_le_def u64_to_le_def unat_of_nat del: le_bytes_numeral)

lemma inj_u64_to_le: "u64_to_le x = u64_to_le y \<longleftrightarrow> x = y"
  by (metis from_to_le(3))

section \<open>Concurrent maps\<close>

text \<open>
  \<open>DashMap\<close> and \<open>HashMap\<close> promise no iteration order.  Here a map is an association
  list with distinct keys; a fact proved for every such list holds for every iteration order.
\<close>

type_synonym ('k, 'v) dmap = "('k \<times> 'v) list"

definition dm_wf :: "('k, 'v) dmap \<Rightarrow> bool" where
  "dm_wf m \<longleftrightarrow> distinct (map fst m)"

definition dm_get :: "('k, 'v) dmap \<Rightarrow> 'k \<Rightarrow> 'v option" where
  "dm_get m k = map_of m k"

definition dm_insert :: "'k \<Rightarrow> 'v \<Rightarrow> ('k, 'v) dmap \<Rightarrow> ('k, 'v) dmap" where
  "dm_insert k v m = AList.update k v m"

definition dm_remove :: "'k \<Rightarrow> ('k, 'v) dmap \<Rightarrow> ('k, 'v) dmap" where
  "dm_remove k m = filter (\<lambda>e. fst e \<noteq> k) m"

definition dm_retain :: "('k \<Rightarrow> 'v \<Rightarrow> bool) \<Rightarrow> ('k, 'v) dmap \<Rightarrow> ('k, 'v) dmap" where
  "dm_retain P m = filter (\<lambda>e. P (fst e) (snd e)) m"

locale keyed_store =
  fixes store_empty :: "'m"
    and store_get :: "'m \<Rightarrow> 'k \<Rightarrow> 'v option"
    and store_insert :: "'k \<Rightarrow> 'v \<Rightarrow> 'm \<Rightarrow> 'm"
    and store_remove :: "'k \<Rightarrow> 'm \<Rightarrow> 'm"
    and store_wf :: "'m \<Rightarrow> bool"
  assumes wf_empty: "store_wf store_empty"
    and wf_insert: "store_wf m \<Longrightarrow> store_wf (store_insert k v m)"
    and wf_remove: "store_wf m \<Longrightarrow> store_wf (store_remove k m)"
    and get_empty: "store_get store_empty k = None"
    and get_insert: "store_get (store_insert k v m) j = (if j = k then Some v else store_get m j)"
    and get_remove: "store_get (store_remove k m) j = (if j = k then None else store_get m j)"
begin

lemma get_insert_same: "store_get (store_insert k v m) k = Some v"
  by (simp add: get_insert)

lemma get_insert_other: "j \<noteq> k \<Longrightarrow> store_get (store_insert k v m) j = store_get m j"
  by (simp add: get_insert)

lemma get_insert_remove:
  "store_get m k = None \<Longrightarrow> store_get (store_remove k (store_insert k v m)) = store_get m"
  by (auto simp: get_insert get_remove fun_eq_iff)

lemma get_insert_insert: "store_get (store_insert k v (store_insert k u m)) = store_get (store_insert k v m)"
  by (auto simp: get_insert fun_eq_iff)

lemma get_insert_swap:
  "j \<noteq> k \<Longrightarrow>
   store_get (store_insert j u (store_insert k v m)) = store_get (store_insert k v (store_insert j u m))"
  by (auto simp: get_insert fun_eq_iff)

end

locale sweep_store = keyed_store store_empty store_get store_insert store_remove store_wf
  for store_empty :: "'m"
    and store_get :: "'m \<Rightarrow> 'k \<Rightarrow> 'v option"
    and store_insert :: "'k \<Rightarrow> 'v \<Rightarrow> 'm \<Rightarrow> 'm"
    and store_remove :: "'k \<Rightarrow> 'm \<Rightarrow> 'm"
    and store_wf :: "'m \<Rightarrow> bool" +
  fixes store_retain :: "('k \<Rightarrow> 'v \<Rightarrow> bool) \<Rightarrow> 'm \<Rightarrow> 'm"
  assumes wf_retain: "store_wf m \<Longrightarrow> store_wf (store_retain P m)"
    and get_retain: "store_wf m \<Longrightarrow> store_get (store_retain P m) k =
      (case store_get m k of None \<Rightarrow> None | Some v \<Rightarrow> if P k v then Some v else None)"
begin

lemma retain_keeps:
  "store_wf m \<Longrightarrow> store_get m k = Some v \<Longrightarrow> P k v \<Longrightarrow> store_get (store_retain P m) k = Some v"
  by (simp add: get_retain)

lemma retain_drops:
  "store_wf m \<Longrightarrow> store_get m k = Some v \<Longrightarrow> \<not> P k v \<Longrightarrow> store_get (store_retain P m) k = None"
  by (simp add: get_retain)

lemma retain_sound:
  "store_wf m \<Longrightarrow> store_get (store_retain P m) k = Some v \<Longrightarrow> store_get m k = Some v \<and> P k v"
  by (auto simp: get_retain split: option.splits if_splits)

end

lemma map_of_filter_fst: "map_of (filter (\<lambda>e. fst e \<noteq> k) m) j = (if j = k then None else map_of m j)"
  by (induction m) auto

lemma map_of_filter_retain:
  "distinct (map fst m) \<Longrightarrow> map_of (filter (\<lambda>e. P (fst e) (snd e)) m) k =
    (case map_of m k of None \<Rightarrow> None | Some v \<Rightarrow> if P k v then Some v else None)"
proof (induction m)
  case Nil
  then show ?case by simp
next
  case (Cons e m)
  have "fst e \<notin> set (map fst m)" using Cons.prems by simp
  then have "map_of m (fst e) = None" by (simp add: map_of_eq_None_iff)
  then show ?case using Cons by (auto split: option.splits)
qed

lemma distinct_fst_filter: "distinct (map fst m) \<Longrightarrow> distinct (map fst (filter P m))"
  by (rule distinct_map_filter)

interpretation dm: sweep_store "[]" dm_get dm_insert dm_remove dm_wf dm_retain
  by unfold_locales
    (simp_all add: dm_wf_def dm_get_def dm_insert_def dm_remove_def dm_retain_def distinct_update
      update_conv' distinct_fst_filter map_of_filter_fst map_of_filter_retain fun_upd_def)

lemmas dm_get_simps [simp] = dm.get_empty dm.get_insert dm.get_remove
lemmas dm_wf_intros [intro, simp] = dm.wf_empty dm.wf_insert dm.wf_remove dm.wf_retain

lemma dm_get_SomeD: "dm_get m k = Some v \<Longrightarrow> (k, v) \<in> set m"
  by (simp add: dm_get_def map_of_SomeD)

lemma dm_get_in_set: "dm_wf m \<Longrightarrow> dm_get m k = Some v \<longleftrightarrow> (k, v) \<in> set m"
  by (simp add: dm_get_def dm_wf_def map_of_eq_Some_iff)

lemma dm_insert_keys: "fst ` set (dm_insert k v m) = insert k (fst ` set m)"
  by (simp add: dm_insert_def dom_update)

lemma length_dm_insert:
  "length (dm_insert k v m) = (if dm_get m k = None then Suc (length m) else length m)"
  unfolding dm_insert_def dm_get_def by (induction m) auto

section \<open>Frame codecs\<close>

text \<open>
  A header in front of a payload.  The wire header, the shard header and the relay header all
  promise the same two laws: decoding undoes encoding, and whatever decodes was so encoded.
\<close>

locale frame_codec =
  fixes fr_ok :: "'h \<Rightarrow> bool"
    and fr_size :: "'h \<Rightarrow> nat"
    and fr_enc :: "'h \<Rightarrow> bytes \<Rightarrow> bytes"
    and fr_dec :: "bytes \<Rightarrow> ('h \<times> bytes) option"
  assumes dec_enc: "fr_ok h \<Longrightarrow> fr_dec (fr_enc h p) = Some (h, p)"
    and enc_length: "fr_ok h \<Longrightarrow> length (fr_enc h p) = fr_size h + length p"
    and enc_dec: "fr_dec bs = Some (h, p) \<Longrightarrow> fr_ok h \<and> fr_enc h p = bs"
begin

lemma enc_inject:
  "fr_ok h \<Longrightarrow> fr_ok k \<Longrightarrow> fr_enc h p = fr_enc k q \<longleftrightarrow> h = k \<and> p = q"
  by (metis dec_enc option.inject prod.inject)

lemma dec_inject: "fr_dec bs = Some x \<Longrightarrow> fr_dec cs = Some x \<Longrightarrow> bs = cs"
  by (cases x) (auto dest!: enc_dec)

lemma dec_length: "fr_dec bs = Some (h, p) \<Longrightarrow> length bs = fr_size h + length p"
  using enc_dec enc_length by blast

lemma dec_Some_iff: "fr_dec bs = Some (h, p) \<longleftrightarrow> fr_ok h \<and> fr_enc h p = bs"
  using enc_dec dec_enc by blast

lemma dec_short: "(\<And>h. length bs < fr_size h) \<Longrightarrow> fr_dec bs = None"
  using dec_length by (cases "fr_dec bs") fastforce+

end

section \<open>Ticket counters\<close>

text \<open>
  \<open>AtomicU32::fetch_add(1)\<close> and \<open>AtomicU64::fetch_add(1)\<close>: the old value is returned and
  the counter wraps around.  The tunnel's sequence number, the probe identifiers and the flow
  identifiers of both edges are drawn this way.
\<close>

definition fetch_add :: "'w::len word \<Rightarrow> 'w word \<times> 'w word" where
  "fetch_add c = (c, c + 1)"

primrec tickets :: "('s \<Rightarrow> 'w::len word \<times> 's) \<Rightarrow> nat \<Rightarrow> 's \<Rightarrow> 'w word list" where
  "tickets draw 0 s = []"
| "tickets draw (Suc n) s = fst (draw s) # tickets draw n (snd (draw s))"

locale ticket_counter =
  fixes draw :: "'s \<Rightarrow> 'w::len word \<times> 's"
    and counter :: "'s \<Rightarrow> 'w word"
  assumes draw_value: "fst (draw s) = counter s"
    and draw_step: "counter (snd (draw s)) = counter s + 1"
begin

lemma tickets_eq: "tickets draw n s = map (\<lambda>i. counter s + word_of_nat i) [0..<n]"
proof (induction n arbitrary: s)
  case 0
  then show ?case by simp
next
  case (Suc n)
  have "[0..<Suc n] = 0 # map Suc [0..<n]" by (simp add: map_Suc_upt upt_conv_Cons)
  then show ?case by (simp add: Suc.IH draw_value draw_step add.assoc)
qed

lemma tickets_distinct:
  assumes "n \<le> 2 ^ LENGTH('w)"
  shows "distinct (tickets draw n s)"
proof -
  have "inj_on (\<lambda>i. counter s + (word_of_nat i :: 'w word)) {0..<n}"
  proof (rule inj_onI)
    fix i j
    assume ij: "i \<in> {0..<n}" "j \<in> {0..<n}"
      and "counter s + (word_of_nat i :: 'w word) = counter s + word_of_nat j"
    then have "(word_of_nat i :: 'w word) = word_of_nat j" by simp
    moreover have "i < 2 ^ LENGTH('w)" "j < 2 ^ LENGTH('w)" using ij assms by simp_all
    ultimately show "i = j" by (metis unat_of_nat mod_less)
  qed
  then show ?thesis by (simp add: tickets_eq distinct_map)
qed

end

end
