(* ===== verification/Float64.thy ===== *)
theory Float64
  imports Complex_Main "HOL-Library.Log_Nat" Prelude
begin

text \<open>
  The \<open>f64\<close> arithmetic the program uses, in the loss tracker and in the EWMA of the latency
  matrix: conversions from integers, division, multiplication, addition, comparison and the
  saturating cast back to \<open>u64\<close>.  A finite \<open>f64\<close> is the rational number it stands for, and
  every operation rounds its exact result to 53 significant bits, ties to even.  The program's
  values are zero or between \<open>2^-64\<close> and \<open>2^129\<close> in magnitude, so subnormal numbers and
  overflow do not occur and are not modelled.
\<close>

section \<open>Rounding\<close>

definition rne :: "rat \<Rightarrow> int" where
  \<comment> \<open>the nearest integer, ties to the even one\<close>
  "rne y = (let f = \<lfloor>y\<rfloor>; d = y - of_int f in
     if d < 1 / 2 then f else if 1 / 2 < d then f + 1 else if even f then f else f + 1)"

definition binade :: "rat \<Rightarrow> int" where
  \<comment> \<open>the exponent \<open>e\<close> with \<open>2^e \<le> x < 2^(e+1)\<close>, for positive \<open>x\<close>\<close>
  "binade x = (let (p, q) = quotient_of x;
                   k = int (floorlog 2 (nat p)) - int (floorlog 2 (nat q))
               in if 2 powi k \<le> x then k else k - 1)"

definition fl_pos :: "rat \<Rightarrow> rat" where
  "fl_pos x = (let u = 2 powi (binade x - 52) in of_int (rne (x / u)) * u)"

definition fl :: "rat \<Rightarrow> rat" where
  "fl x = (if x = 0 then 0 else if x < 0 then - fl_pos (- x) else fl_pos x)"

lemma rne_of_int [simp]: "rne (of_int n) = n"
  by (simp add: rne_def)

lemma rne_error: "\<bar>of_int (rne y) - y\<bar> \<le> 1 / 2"
proof -
  have "of_int \<lfloor>y\<rfloor> \<le> y" "y < of_int \<lfloor>y\<rfloor> + 1"
    by (linarith, linarith)
  then show ?thesis by (auto simp: rne_def Let_def abs_le_iff)
qed

lemma powi_2_less_iff: "(2::rat) powi i < 2 powi j \<longleftrightarrow> i < j"
proof
  show "i < j" if "(2::rat) powi i < 2 powi j"
  proof (rule ccontr)
    assume "\<not> i < j"
    then have "(2::rat) powi j \<le> 2 powi i" by (intro power_int_increasing) simp_all
    with that show False by simp
  qed
  show "(2::rat) powi i < 2 powi j" if "i < j"
    using that by (intro power_int_strict_increasing) simp_all
qed

lemma floorlog_powi:
  assumes "0 < p"
  shows "2 powi (int (floorlog 2 (nat p)) - 1) \<le> (of_int p :: rat)"
    and "(of_int p :: rat) < 2 powi int (floorlog 2 (nat p))"
proof -
  obtain n where n: "p = int n" "0 < n" using assms by (metis zero_less_imp_eq_int)
  define l where "l = floorlog 2 n"
  have l: "2 ^ (l - 1) \<le> n" "n < 2 ^ l"
    using floorlog_bounds [of n 2] n by (simp_all add: l_def)
  then have "0 < l" using n by (cases l) simp_all
  then have "(2::rat) powi (int l - 1) = of_nat (2 ^ (l - 1))" by (cases l) simp_all
  then show "2 powi (int (floorlog 2 (nat p)) - 1) \<le> (of_int p :: rat)"
    using l(1) by (simp add: n(1) l_def [symmetric] del: of_nat_power)
  have "(of_nat n :: rat) < of_nat (2 ^ l)" using l(2) by (simp only: of_nat_less_iff)
  then show "(of_int p :: rat) < 2 powi int (floorlog 2 (nat p))"
    by (simp add: n(1) l_def [symmetric])
qed

lemma binade_bounds:
  assumes "0 < x"
  shows "2 powi binade x \<le> x" and "x < 2 powi (binade x + 1)"
proof -
  obtain p q where pq: "quotient_of x = (p, q)" by fastforce
  have q: "0 < q" using quotient_of_denom_pos [OF pq] .
  have x: "x = of_int p / of_int q" using quotient_of_div [OF pq] .
  have p: "0 < p" using assms x q by (simp add: zero_less_divide_iff)
  define a where "a = floorlog 2 (nat p)"
  define b where "b = floorlog 2 (nat q)"
  let ?k = "int a - int b"
  have "2 powi (int a - 1) \<le> (of_int p :: rat)" "(of_int p :: rat) < 2 powi int a"
    and "2 powi (int b - 1) \<le> (of_int q :: rat)" "(of_int q :: rat) < 2 powi int b"
    using floorlog_powi [OF p] floorlog_powi [OF q] unfolding a_def b_def by blast+
  then have lo: "2 powi (int a - 1) / 2 powi int b \<le> x"
    and hi: "x < 2 powi int a / 2 powi (int b - 1)"
    unfolding x using p q
    by (auto intro!: frac_le frac_less simp: zero_less_power_int)
  have lo': "2 powi (?k - 1) \<le> x"
    using lo by (simp add: power_int_diff power_int_add field_simps)
  have hi': "x < 2 powi (?k + 1)"
    using hi by (simp add: power_int_diff power_int_add field_simps)
  have bin: "binade x = (if 2 powi ?k \<le> x then ?k else ?k - 1)"
    by (simp add: binade_def pq a_def b_def)
  show "2 powi binade x \<le> x" using lo' by (simp add: bin)
  show "x < 2 powi (binade x + 1)" using hi' by (simp add: bin)
qed

lemma binade_unique:
  assumes "2 powi e \<le> x" and "x < 2 powi (e + 1)"
  shows "binade x = e"
proof -
  have "0 < x" using assms(1) by (meson less_le_trans zero_less_power_int zero_less_numeral)
  note b = binade_bounds [OF this]
  have "(2::rat) powi e < 2 powi (binade x + 1)" "(2::rat) powi binade x < 2 powi (e + 1)"
    using assms b by (linarith, linarith)
  then have "e < binade x + 1" "binade x < e + 1"
    by (simp_all add: powi_2_less_iff)
  then show ?thesis by linarith
qed

lemma fl_error:
  assumes "0 \<le> x"
  shows "\<bar>fl x - x\<bar> \<le> x / 2 ^ 53"
proof (cases "x = 0")
  case True
  then show ?thesis by (simp add: fl_def)
next
  case False
  with assms have pos: "0 < x" by simp
  define u :: rat where "u = 2 powi (binade x - 52)"
  have u: "0 < u" by (simp add: u_def zero_less_power_int)
  have "u * 2 ^ 52 = 2 powi binade x"
    unfolding u_def by (simp add: power_int_diff)
  then have ux: "u * 2 ^ 52 \<le> x" using binade_bounds(1) [OF pos] by simp
  have "fl x - x = (of_int (rne (x / u)) - x / u) * u"
    using pos u by (simp add: fl_def fl_pos_def Let_def u_def [symmetric] left_diff_distrib)
  then have "\<bar>fl x - x\<bar> = \<bar>of_int (rne (x / u)) - x / u\<bar> * u"
    using u by (simp add: abs_mult)
  also have "\<dots> \<le> 1 / 2 * u"
    using rne_error u by (intro mult_right_mono) simp_all
  also have "\<dots> \<le> x / 2 ^ 53"
    using ux by (simp add: field_simps)
  finally show ?thesis .
qed

lemma fl_exact:
  assumes "x = of_int m * 2 powi e" and "0 < m" and "m < 2 ^ 53"
  shows "fl x = x"
proof -
  have pos: "0 < x" using assms by (simp add: zero_less_power_int)
  define u :: rat where "u = 2 powi (binade x - 52)"
  have u: "u \<noteq> 0" by (simp add: u_def)
  have "(of_int m :: rat) < of_int (2 ^ 53)" using assms(3) by (simp only: of_int_less_iff)
  then have "x < 2 ^ 53 * 2 powi e"
    unfolding assms(1) by (intro mult_strict_right_mono) (simp_all add: zero_less_power_int)
  then have "x < 2 powi (53 + e)" by (simp add: power_int_add)
  with binade_bounds(1) [OF pos] have "(2::rat) powi binade x < 2 powi (53 + e)" by linarith
  then have "binade x < 53 + e" by (simp add: powi_2_less_iff)
  then have d: "0 \<le> e - (binade x - 52)" by simp
  have "x / u = of_int m * 2 powi (e - (binade x - 52))"
    unfolding assms(1) u_def by (simp add: power_int_diff)
  also have "\<dots> = of_int (m * 2 ^ nat (e - (binade x - 52)))"
    using d by (simp add: power_int_def)
  finally have q: "x / u = of_int (m * 2 ^ nat (e - (binade x - 52)))" .
  then have "of_int (rne (x / u)) = x / u" by (simp only: rne_of_int)
  then have "of_int (rne (x / u)) * u = x" using u by simp
  with pos show ?thesis by (simp add: fl_def fl_pos_def Let_def u_def)
qed

lemma fl_0 [simp]: "fl 0 = 0"
  by (simp add: fl_def)

lemma fl_eighths:
  assumes "n < 2 ^ 53"
  shows "fl (of_nat n / 8) = of_nat n / 8"
proof (cases "n = 0")
  case True
  then show ?thesis by simp
next
  case False
  show ?thesis
  proof (rule fl_exact [of _ "int n" "-3"])
    show "(of_nat n :: rat) / 8 = of_int (int n) * 2 powi (- 3)" by (simp add: power_int_minus)
    show "0 < int n" "int n < 2 ^ 53" using False assms by simp_all
  qed
qed

lemma fl_of_nat: "n < 2 ^ 53 \<Longrightarrow> fl (of_nat n) = of_nat n"
  using fl_exact [of "of_nat n" "int n" 0] by (cases "n = 0") simp_all

section \<open>Operations\<close>

datatype f64 = Fin rat | Inf | NaN

definition f64_of_nat :: "nat \<Rightarrow> f64" where
  "f64_of_nat n = Fin (fl (of_nat n))"

definition f64_lit :: "rat \<Rightarrow> f64" where
  \<comment> \<open>a decimal literal is rounded once\<close>
  "f64_lit x = Fin (fl x)"

fun f64_div :: "f64 \<Rightarrow> f64 \<Rightarrow> f64" where
  "f64_div (Fin a) (Fin b) =
     (if b = 0 then (if a = 0 then NaN else Inf) else Fin (fl (a / b)))"
| "f64_div (Fin a) Inf = Fin 0"
| "f64_div Inf (Fin b) = Inf"
| "f64_div _ _ = NaN"

fun f64_lt :: "f64 \<Rightarrow> f64 \<Rightarrow> bool" where
  "f64_lt (Fin a) (Fin b) = (a < b)"
| "f64_lt (Fin a) Inf = True"
| "f64_lt _ _ = False"

fun f64_add :: "f64 \<Rightarrow> f64 \<Rightarrow> f64" where
  "f64_add (Fin a) (Fin b) = Fin (fl (a + b))"
| "f64_add NaN _ = NaN"
| "f64_add _ NaN = NaN"
| "f64_add _ _ = Inf"

fun f64_sub :: "f64 \<Rightarrow> f64 \<Rightarrow> f64" where
  "f64_sub (Fin a) (Fin b) = Fin (fl (a - b))"
| "f64_sub Inf (Fin b) = Inf"
| "f64_sub _ _ = NaN"

fun f64_mul :: "f64 \<Rightarrow> f64 \<Rightarrow> f64" where
  "f64_mul (Fin a) (Fin b) = Fin (fl (a * b))"
| "f64_mul _ _ = NaN"

fun f64_abs :: "f64 \<Rightarrow> f64" where
  "f64_abs (Fin a) = Fin \<bar>a\<bar>"
| "f64_abs x = x"

fun f64_to_u64 :: "f64 \<Rightarrow> nat" where
  \<comment> \<open>\<open>as u64\<close>: truncates, saturates, and sends NaN to 0\<close>
  "f64_to_u64 (Fin a) = min (nat \<lfloor>a\<rfloor>) (2 ^ 64 - 1)"
| "f64_to_u64 Inf = 2 ^ 64 - 1"
| "f64_to_u64 NaN = 0"

section \<open>Ratios of small integers against a threshold\<close>

text \<open>
  Two ratios of integers that differ, with denominators up to \<open>2^40\<close> and 1000, differ by more
  than both roundings, so comparing the rounded ratios decides the same as comparing exactly.
\<close>

lemma fl_ratio_less_iff:
  assumes n: "0 < n" "n \<le> 2 ^ 40" and c: "c \<le> n" and t: "0 < b" "b \<le> 1000" "a \<le> b"
  shows "fl (of_nat c / of_nat n) < fl (of_nat a / of_nat b) \<longleftrightarrow> c * b < a * n"
proof -
  define x y :: rat where "x = of_nat c / of_nat n" and "y = of_nat a / of_nat b"
  have pos: "(0::rat) < of_nat n" "(0::rat) < of_nat b" using n t by simp_all
  have nb: "(of_nat n * of_nat b :: rat) \<le> 2 ^ 40 * 1000"
  proof -
    have "n * b \<le> 2 ^ 40 * 1000" using n t by (intro mult_le_mono) simp_all
    then have "(of_nat (n * b) :: rat) \<le> of_nat (2 ^ 40 * 1000)" by (simp only: of_nat_le_iff)
    then show ?thesis by simp
  qed
  have xy: "0 \<le> x" "0 \<le> y" "x \<le> 1" "y \<le> 1"
    using n c t by (simp_all add: x_def y_def)
  have e: "\<bar>fl x - x\<bar> \<le> 1 / 2 ^ 53" "\<bar>fl y - y\<bar> \<le> 1 / 2 ^ 53"
    using fl_error [OF xy(1)] fl_error [OF xy(2)] xy by (auto simp: field_simps)
  have gap: "2 / 2 ^ 53 < u - v"
    if "u - v = of_nat d / (of_nat n * of_nat b)" "0 < d" for u v :: rat and d :: nat
  proof -
    have "2 / 2 ^ 53 < 1 / (2 ^ 40 * 1000 :: rat)" by simp
    also have "\<dots> \<le> of_nat d / (of_nat n * of_nat b)"
      using nb pos that(2) by (intro frac_le) simp_all
    finally show ?thesis using that(1) by simp
  qed
  show ?thesis
  proof (cases "c * b" "a * n" rule: linorder_cases)
    case less
    have "y - x = of_nat (a * n - c * b) / (of_nat n * of_nat b)"
      using less pos by (simp add: x_def y_def field_simps of_nat_diff)
    then have "2 / 2 ^ 53 < y - x" by (rule gap) (use less in simp)
    with e have "fl x < fl y" by (simp add: abs_if split: if_splits)
    with less show ?thesis by (simp add: x_def y_def)
  next
    case equal
    then have "(of_nat (c * b) :: rat) = of_nat (a * n)" by simp
    then have "x = y" using pos by (simp add: x_def y_def field_simps)
    with equal show ?thesis by (simp add: x_def y_def)
  next
    case greater
    have "x - y = of_nat (c * b - a * n) / (of_nat n * of_nat b)"
      using greater pos by (simp add: x_def y_def field_simps of_nat_diff)
    then have "2 / 2 ^ 53 < x - y" by (rule gap) (use greater in simp)
    with e have "fl y < fl x" by (simp add: abs_if split: if_splits)
    with greater show ?thesis by (simp add: x_def y_def)
  qed
qed

end
