(* ===== verification/Wire.thy ===== *)
theory Wire
  imports Prelude
begin

text \<open>
  The wire protocol of \<open>src/relay/wire.rs\<close>: the constants of a tunnel frame and the encoding
  and decoding of its 11-byte header.  Both functions index the buffer, so a buffer shorter
  than a header is a panic; the lemmas show that this is the only panic.
\<close>

section \<open>Constants\<close>

definition PACKET_DATA :: byte where "PACKET_DATA = 0x01"
definition PACKET_PARITY :: byte where "PACKET_PARITY = 0x02"
definition PACKET_PING :: byte where "PACKET_PING = 0x03"
definition PACKET_PONG :: byte where "PACKET_PONG = 0x04"
definition PACKET_CONTROL :: byte where "PACKET_CONTROL = 0x05"

definition HEADER_SIZE :: nat where "HEADER_SIZE = 11"
definition AUTH_TAG_SIZE :: nat where "AUTH_TAG_SIZE = 16"
definition MAX_PAYLOAD :: nat where "MAX_PAYLOAD = 1400"
definition MAX_PACKET :: nat where "MAX_PACKET = HEADER_SIZE + MAX_PAYLOAD + AUTH_TAG_SIZE"

lemmas wire_sizes = HEADER_SIZE_def AUTH_TAG_SIZE_def MAX_PAYLOAD_def MAX_PACKET_def
lemmas packet_types = PACKET_DATA_def PACKET_PARITY_def PACKET_PING_def PACKET_PONG_def
  PACKET_CONTROL_def

lemma MAX_PACKET_eq: "MAX_PACKET = 1427"
  by (simp add: wire_sizes)

lemma packet_types_distinct: "distinct [PACKET_DATA, PACKET_PARITY, PACKET_PING, PACKET_PONG, PACKET_CONTROL]"
  by (simp add: packet_types)

section \<open>Header\<close>

definition encode_header :: "bytes \<Rightarrow> byte \<Rightarrow> u64 \<Rightarrow> u16 \<Rightarrow> bytes outcome" where
  "encode_header buf packet_type seq payload_len =
     rbind (slice_write 0 [packet_type] buf) (\<lambda>buf.
     rbind (slice_write 1 (u64_to_le seq) buf) (\<lambda>buf.
     slice_write 9 (u16_to_le payload_len) buf))"

definition decode_header :: "bytes \<Rightarrow> (byte \<times> u64 \<times> u16) outcome" where
  "decode_header buf =
     rbind (rget buf 0) (\<lambda>packet_type.
     rbind (slice 1 9 buf) (\<lambda>seq_bytes.
     rbind (slice 9 11 buf) (\<lambda>len_bytes.
     Inr (packet_type, u64_from_le seq_bytes, u16_from_le len_bytes))))"

text \<open>The header as bytes: what a successful encoding writes over the first 11 bytes.\<close>

definition header_bytes :: "byte \<Rightarrow> u64 \<Rightarrow> u16 \<Rightarrow> bytes" where
  "header_bytes t s l = t # u64_to_le s @ u16_to_le l"

lemma length_header_bytes [simp]: "length (header_bytes t s l) = 11"
  by (simp add: header_bytes_def)

lemma encode_header_ok:
  assumes "11 \<le> length buf"
  shows "encode_header buf t s l = Inr (header_bytes t s l @ drop 11 buf)"
  using assms
  by (auto simp: encode_header_def slice_write_def header_bytes_def)

lemma encode_header_panic:
  assumes "length buf < 11"
  shows "encode_header buf t s l = Inl Index_Panic"
  using assms
  by (auto simp: encode_header_def slice_write_def rbind_def)

lemma decode_header_bytes: "decode_header (header_bytes t s l @ rest) = Inr (t, s, l)"
  by (simp add: decode_header_def header_bytes_def rget_def slice_def)

lemma decode_header_panic: "length buf < 11 \<Longrightarrow> decode_header buf = Inl Index_Panic"
  by (cases "buf = []") (auto simp: decode_header_def rget_def slice_def rbind_def)

lemma header_bytes_exist:
  assumes "11 \<le> length buf"
  obtains t s l where "buf = header_bytes t s l @ drop 11 buf"
proof -
  let ?t = "buf ! 0" and ?s = "take 8 (drop 1 buf)" and ?l = "take 2 (drop 9 buf)"
  have "buf = take 1 buf @ ?s @ ?l @ drop 11 buf"
    using drop_split [of 0 buf 1] drop_split [of 1 buf 8] drop_split [of 9 buf 2] by simp
  moreover have "take 1 buf = [?t]" using assms by (cases buf) auto
  moreover have "u64_to_le (u64_from_le ?s) = ?s" "u16_to_le (u16_from_le ?l) = ?l"
    using assms by (simp_all add: to_from_le)
  ultimately have "buf = header_bytes ?t (u64_from_le ?s) (u16_from_le ?l) @ drop 11 buf"
    by (simp add: header_bytes_def)
  then show thesis by (rule that)
qed

lemma decode_header_total:
  assumes "11 \<le> length buf"
  obtains t s l where "decode_header buf = Inr (t, s, l)" and "take 11 buf = header_bytes t s l"
proof -
  obtain t s l where eq: "buf = header_bytes t s l @ drop 11 buf"
    using assms by (rule header_bytes_exist)
  have "decode_header buf = Inr (t, s, l)" by (subst eq) (rule decode_header_bytes)
  moreover have "take 11 buf = header_bytes t s l" by (subst eq) simp
  ultimately show thesis by (rule that)
qed

section \<open>The header as a frame codec\<close>

definition wire_enc :: "byte \<times> u64 \<times> u16 \<Rightarrow> bytes \<Rightarrow> bytes" where
  "wire_enc h p = (case h of (t, s, l) \<Rightarrow> header_bytes t s l @ p)"

definition wire_dec :: "bytes \<Rightarrow> ((byte \<times> u64 \<times> u16) \<times> bytes) option" where
  "wire_dec buf = (if length buf < HEADER_SIZE then None
     else case decode_header buf of Inl _ \<Rightarrow> None | Inr h \<Rightarrow> Some (h, drop HEADER_SIZE buf))"

interpretation wire_codec: frame_codec "\<lambda>_. True" "\<lambda>_. HEADER_SIZE" wire_enc wire_dec
proof
  fix h :: "byte \<times> u64 \<times> u16" and p :: bytes
  show "wire_dec (wire_enc h p) = Some (h, p)"
    by (cases h) (simp add: wire_dec_def wire_enc_def decode_header_bytes wire_sizes)
  show "length (wire_enc h p) = HEADER_SIZE + length p"
    by (cases h) (simp add: wire_enc_def wire_sizes)
next
  fix bs :: bytes and h p
  assume dec: "wire_dec bs = Some (h, p)"
  then have len: "11 \<le> length bs" by (simp add: wire_dec_def wire_sizes split: if_splits)
  obtain t s l where "decode_header bs = Inr (t, s, l)" "take 11 bs = header_bytes t s l"
    using len by (rule decode_header_total)
  with dec len show "True \<and> wire_enc h p = bs"
    by (auto simp: wire_dec_def wire_enc_def wire_sizes)
      (metis append_take_drop_id)
qed

end
