(* ===== verification/Fec.thy ===== *)
theory Fec
  imports Float64 Wire
begin

text \<open>
  Adaptive forward error correction, \<open>src/relay/fec.rs\<close>: the choice of a shard configuration
  from a loss rate, the Reed-Solomon encoder, and the sliding-window loss tracker.  Reed-Solomon
  itself is the crate \<open>reed_solomon_erasure\<close>; it is a record of its three operations, with the
  crate's documented behaviour for one shard configuration in \<open>rs_lawful\<close>.
\<close>

section \<open>Configuration\<close>

record fec_config =
  data_shards :: nat
  parity_shards :: nat

abbreviation shards_cfg :: "nat \<Rightarrow> nat \<Rightarrow> fec_config" where
  "shards_cfg d p \<equiv> \<lparr>data_shards = d, parity_shards = p\<rparr>"

definition for_loss_rate :: "f64 \<Rightarrow> fec_config" where
  "for_loss_rate loss =
     (if f64_lt loss (f64_lit (5 / 1000)) then shards_cfg 20 1
      else if f64_lt loss (f64_lit (1 / 100)) then shards_cfg 10 2
      else if f64_lt loss (f64_lit (3 / 100)) then shards_cfg 10 4
      else if f64_lt loss (f64_lit (5 / 100)) then shards_cfg 8 4
      else shards_cfg 6 4)"

definition total_shards :: "fec_config \<Rightarrow> nat" where
  "total_shards cfg = data_shards cfg + parity_shards cfg"

definition overhead :: "fec_config \<Rightarrow> f64" where
  "overhead cfg = f64_div (f64_of_nat (parity_shards cfg)) (f64_of_nat (data_shards cfg))"

text \<open>The table of the README over exact integers: \<open>c\<close> of \<open>n\<close> packets lost.\<close>

definition exact_tier :: "nat \<Rightarrow> nat \<Rightarrow> fec_config" where
  "exact_tier c n =
     (if 1000 * c < 5 * n then shards_cfg 20 1
      else if 100 * c < n then shards_cfg 10 2
      else if 100 * c < 3 * n then shards_cfg 10 4
      else if 100 * c < 5 * n then shards_cfg 8 4
      else shards_cfg 6 4)"

lemma ratio_lt_lit:
  assumes "0 < n" "n \<le> 2 ^ 40" "c \<le> n" "0 < b" "b \<le> 1000" "a \<le> b"
  shows "f64_lt (f64_div (f64_of_nat c) (f64_of_nat n)) (f64_lit (of_nat a / of_nat b)) \<longleftrightarrow> c * b < a * n"
proof -
  have "c < 2 ^ 53" "n < 2 ^ 53" using assms by simp_all
  then show ?thesis
    using assms fl_ratio_less_iff [OF assms] by (simp add: f64_of_nat_def f64_lit_def fl_of_nat)
qed

lemma for_loss_rate_exact:
  assumes "0 < n" "n \<le> 2 ^ 40" "c \<le> n"
  shows "for_loss_rate (f64_div (f64_of_nat c) (f64_of_nat n)) = exact_tier c n"
  using ratio_lt_lit [OF assms, of 1000 5] ratio_lt_lit [OF assms, of 100 1]
    ratio_lt_lit [OF assms, of 100 3] ratio_lt_lit [OF assms, of 100 5]
  by (simp add: for_loss_rate_def exact_tier_def mult.commute)

lemma for_loss_rate_NaN: "for_loss_rate NaN = shards_cfg 6 4"
  by (simp add: for_loss_rate_def f64_lit_def)

section \<open>Reed-Solomon\<close>

record rs_lib =
  rs_new :: "nat \<Rightarrow> nat \<Rightarrow> bool"
  rs_encode :: "nat \<Rightarrow> nat \<Rightarrow> bytes list \<Rightarrow> bytes list option"
  rs_reconstruct :: "nat \<Rightarrow> nat \<Rightarrow> bytes option list \<Rightarrow> bytes option list option"

definition present :: "'a option list \<Rightarrow> nat" where
  "present os = length (filter (\<lambda>x. x \<noteq> None) os)"

definition erasure_of :: "'a option list \<Rightarrow> 'a list \<Rightarrow> bool" where
  \<comment> \<open>\<open>os\<close> is \<open>xs\<close> with some positions lost\<close>
  "erasure_of os xs \<longleftrightarrow> length os = length xs \<and> (\<forall>i<length os. os ! i = None \<or> os ! i = Some (xs ! i))"

text \<open>
  The crate's documentation: a code needs at least one data and one parity shard and at most 256
  in all; \<open>encode\<close> takes data and parity buffers of one positive size and overwrites the parity
  buffers; \<open>reconstruct\<close> restores every shard when at least the number of data shards is present
  and reports too few shards otherwise.
\<close>

definition rs_valid :: "rs_lib \<Rightarrow> bool" where
  "rs_valid rs \<longleftrightarrow> (\<forall>d p. rs_new rs d p \<longleftrightarrow> 0 < d \<and> 0 < p \<and> d + p \<le> 256)"

definition rs_lawful :: "rs_lib \<Rightarrow> nat \<Rightarrow> nat \<Rightarrow> bool" where
  "rs_lawful rs d p \<longleftrightarrow>
     rs_new rs d p \<and> 0 < d \<and> 0 < p \<and> d + p \<le> 256 \<and>
     (\<forall>n xs. 0 < n \<longrightarrow> length xs = d + p \<longrightarrow> (\<forall>x \<in> set xs. length x = n) \<longrightarrow>
        (\<exists>ys. rs_encode rs d p xs = Some ys \<and> length ys = d + p \<and> take d ys = take d xs \<and>
              (\<forall>y \<in> set ys. length y = n) \<and>
              (\<forall>os. erasure_of os ys \<longrightarrow> d \<le> present os \<longrightarrow>
                 rs_reconstruct rs d p os = Some (map Some ys)))) \<and>
     (\<forall>os. length os = d + p \<longrightarrow> present os < d \<longrightarrow> rs_reconstruct rs d p os = None)"

datatype fec_error = Too_Many_Lost

fun fec_error_display :: "fec_error \<Rightarrow> string" where
  "fec_error_display Too_Many_Lost = ''too many shards lost to reconstruct''"

record fec_encoder =
  enc_config :: fec_config

definition fec_encoder_new :: "rs_lib \<Rightarrow> fec_config \<Rightarrow> fec_encoder outcome" where
  "fec_encoder_new rs cfg =
     (if rs_new rs (data_shards cfg) (parity_shards cfg) then Inr \<lparr>enc_config = cfg\<rparr>
      else Inl (Expect_Panic ''invalid FEC config''))"

definition fec_encode :: "rs_lib \<Rightarrow> fec_encoder \<Rightarrow> bytes list \<Rightarrow> bytes list outcome" where
  "fec_encode rs enc shards =
     (let cfg = enc_config enc in
      rbind (rget shards 0) (\<lambda>s0.
        case rs_encode rs (data_shards cfg) (parity_shards cfg)
               (shards @ replicate (total_shards cfg - length shards) (replicate (length s0) 0)) of
          None \<Rightarrow> Inl (Expect_Panic ''FEC encode failed'')
        | Some out \<Rightarrow> Inr out))"

definition fec_reconstruct ::
    "rs_lib \<Rightarrow> fec_encoder \<Rightarrow> bytes option list \<Rightarrow> fec_error + bytes option list" where
  "fec_reconstruct rs enc shards =
     (case rs_reconstruct rs (data_shards (enc_config enc)) (parity_shards (enc_config enc)) shards of
        None \<Rightarrow> Inl Too_Many_Lost | Some out \<Rightarrow> Inr out)"

lemma fec_encode_ok:
  assumes law: "rs_lawful rs d p" and enc: "enc_config enc = shards_cfg d p"
    and xs: "length xs = d" "\<forall>x \<in> set xs. length x = n" "0 < n"
  obtains ys where "fec_encode rs enc xs = Inr ys" and "length ys = d + p" and "take d ys = xs"
    and "\<forall>y \<in> set ys. length y = n"
    and "\<And>os. erasure_of os ys \<Longrightarrow> d \<le> present os \<Longrightarrow> fec_reconstruct rs enc os = Inr (map Some ys)"
proof -
  have d: "0 < d" using law by (simp add: rs_lawful_def)
  have s0: "rget xs 0 = Inr (xs ! 0)" "length (xs ! 0) = n"
    using d xs by (auto simp: rget_def)
  let ?in = "xs @ replicate p (replicate n 0)"
  have "length ?in = d + p" "\<forall>x \<in> set ?in. length x = n" using xs by auto
  then obtain ys where ys: "rs_encode rs d p ?in = Some ys" "length ys = d + p"
    "take d ys = take d ?in" "\<forall>y \<in> set ys. length y = n"
    "\<And>os. erasure_of os ys \<Longrightarrow> d \<le> present os \<Longrightarrow> rs_reconstruct rs d p os = Some (map Some ys)"
    using law xs(3) unfolding rs_lawful_def by blast
  show thesis
    by (rule that [of ys]) (use ys xs s0 enc in
      \<open>auto simp: fec_encode_def fec_reconstruct_def total_shards_def\<close>)
qed

lemma fec_reconstruct_too_few:
  assumes "rs_lawful rs d p" "enc_config enc = shards_cfg d p" "length os = d + p" "present os < d"
  shows "fec_reconstruct rs enc os = Inl Too_Many_Lost"
  using assms by (simp add: rs_lawful_def fec_reconstruct_def)

section \<open>Loss tracker\<close>

record loss_tracker =
  lt_window :: "bool list"
  lt_pos :: nat
  lt_count :: nat

definition loss_tracker_new :: "nat \<Rightarrow> loss_tracker" where
  "loss_tracker_new n = \<lparr>lt_window = replicate n True, lt_pos = 0, lt_count = 0\<rparr>"

definition lt_record :: "bool \<Rightarrow> loss_tracker \<Rightarrow> loss_tracker outcome" where
  "lt_record received t =
     rbind (rget (lt_window t) (lt_pos t)) (\<lambda>old.
       let c1 = (if \<not> old then lt_count t - 1 else lt_count t);
           c2 = (if \<not> received then c1 + 1 else c1)
       in Inr (t\<lparr>lt_count := c2,
                 lt_window := (lt_window t)[lt_pos t := received],
                 lt_pos := (lt_pos t + 1) mod length (lt_window t)\<rparr>))"

definition loss_rate :: "loss_tracker \<Rightarrow> f64" where
  "loss_rate t = f64_div (f64_of_nat (lt_count t)) (f64_of_nat (length (lt_window t)))"

definition recommended_config :: "loss_tracker \<Rightarrow> fec_config" where
  "recommended_config t = for_loss_rate (loss_rate t)"

fun lt_record_all :: "bool list \<Rightarrow> loss_tracker \<Rightarrow> loss_tracker outcome" where
  "lt_record_all [] t = Inr t"
| "lt_record_all (r # rs) t = rbind (lt_record r t) (lt_record_all rs)"

definition losses :: "bool list \<Rightarrow> nat" where
  "losses xs = length (filter Not xs)"

text \<open>
  \<open>lt_view h t\<close>: read from the write position round the ring, the window holds the history
  \<open>h\<close>, oldest first, and the counter is its number of losses.
\<close>

definition lt_view :: "bool list \<Rightarrow> loss_tracker \<Rightarrow> bool" where
  "lt_view h t \<longleftrightarrow> h \<noteq> [] \<and> lt_pos t < length (lt_window t) \<and>
     drop (lt_pos t) (lt_window t) @ take (lt_pos t) (lt_window t) = h \<and> lt_count t = losses h"

lemma losses_simps [simp]:
  "losses [] = 0" "losses (x # xs) = (if x then losses xs else Suc (losses xs))"
  "losses (xs @ ys) = losses xs + losses ys" "losses (replicate n True) = 0"
  by (simp_all add: losses_def)

lemma losses_le_length: "losses xs \<le> length xs"
  by (simp add: losses_def)

lemma lt_view_new: "0 < n \<Longrightarrow> lt_view (replicate n True) (loss_tracker_new n)"
  by (simp add: lt_view_def loss_tracker_new_def)

lemma lt_view_length: "lt_view h t \<Longrightarrow> length (lt_window t) = length h"
  by (auto simp: lt_view_def)

lemma lt_view_count: "lt_view h t \<Longrightarrow> lt_count t = losses h"
  by (simp add: lt_view_def)

lemma lt_record_view:
  assumes "lt_view h t"
  obtains t' where "lt_record r t = Inr t'" and "lt_view (tl h @ [r]) t'"
proof -
  obtain w q c where t: "t = \<lparr>lt_window = w, lt_pos = q, lt_count = c\<rparr>" by (cases t)
  from assms have q: "q < length w" and h: "drop q w @ take q w = h" and c: "c = losses h"
    by (simp_all add: lt_view_def t)
  define w' where "w' = w[q := r]"
  have w': "w' = take q w @ r # drop (Suc q) w"
    unfolding w'_def using q by (simp add: upd_conv_take_nth_drop)
  have dq: "drop q w = w ! q # drop (Suc q) w" using q by (simp add: Cons_nth_drop_Suc)
  have tl: "tl h @ [r] = drop (Suc q) w @ take q w @ [r]" by (simp add: h [symmetric] dq)
  define c' where "c' = (if \<not> r then (if \<not> w ! q then c - 1 else c) + 1
                         else (if \<not> w ! q then c - 1 else c))"
  have c': "c' = losses (tl h @ [r])"
    unfolding c'_def c tl by (simp add: h [symmetric] dq)
  define q' where "q' = (q + 1) mod length w"
  have q': "q' < length w" unfolding q'_def using q by (intro mod_less_divisor) auto
  have ring: "drop q' w' @ take q' w' = tl h @ [r]"
  proof (cases "Suc q < length w")
    case True
    then show ?thesis using q by (simp add: q'_def w' tl)
  next
    case False
    with q have "Suc q = length w" by simp
    then show ?thesis by (simp add: q'_def w' tl)
  qed
  have "lt_record r t = Inr \<lparr>lt_window = w', lt_pos = q', lt_count = c'\<rparr>"
    using q by (simp add: lt_record_def t rget_def Let_def w'_def q'_def c'_def)
  moreover have "lt_view (tl h @ [r]) \<lparr>lt_window = w', lt_pos = q', lt_count = c'\<rparr>"
    using q' ring c' by (simp add: lt_view_def w'_def)
  ultimately show thesis by (rule that)
qed

lemma lt_record_all_view:
  "lt_view h t \<Longrightarrow> \<exists>t'. lt_record_all rs t = Inr t' \<and> lt_view (drop (length rs) (h @ rs)) t'"
proof (induction rs arbitrary: h t)
  case Nil
  then show ?case by simp
next
  case (Cons r rs)
  obtain t1 where t1: "lt_record r t = Inr t1" "lt_view (tl h @ [r]) t1"
    using lt_record_view [OF Cons.prems] .
  obtain x h' where "h = x # h'" using Cons.prems by (cases h) (auto simp: lt_view_def)
  with Cons.IH [OF t1(2)] t1(1) show ?case by simp
qed

lemma lt_loss_rate_view:
  "lt_view h t \<Longrightarrow> loss_rate t = f64_div (f64_of_nat (losses h)) (f64_of_nat (length h))"
  by (simp only: loss_rate_def lt_view_length lt_view_count)

lemma lt_record_empty_window: "lt_record r (loss_tracker_new 0) = Inl Index_Panic"
  by (simp add: lt_record_def loss_tracker_new_def rget_def)

end
