(* ===== verification/Fec_Codec.thy ===== *)
theory Fec_Codec
  imports Fec
begin

text \<open>
  The block codec of \<open>src/relay/fec_codec.rs\<close>: the shard header, the sender that collects
  relay payloads into blocks of data shards and adds parity, and the receiver that collects
  shards by block identifier and rebuilds the payloads of a block.  The proofs about blocks are
  in \<open>Fec_Block\<close>.
\<close>

section \<open>Shard header\<close>

definition SHARD_HEADER_SIZE :: nat where "SHARD_HEADER_SIZE = 7"

definition encode_shard_header ::
    "bytes \<Rightarrow> u16 \<Rightarrow> byte \<Rightarrow> byte \<Rightarrow> byte \<Rightarrow> u16 \<Rightarrow> bytes outcome" where
  "encode_shard_header buf block_id shard_idx n_data n_parity original_len =
     rbind (slice_write 0 (u16_to_le block_id) buf) (\<lambda>buf.
     rbind (slice_write 2 [shard_idx] buf) (\<lambda>buf.
     rbind (slice_write 3 [n_data] buf) (\<lambda>buf.
     rbind (slice_write 4 [n_parity] buf) (\<lambda>buf.
     slice_write 5 (u16_to_le original_len) buf))))"

definition decode_shard_header :: "bytes \<Rightarrow> (u16 \<times> byte \<times> byte \<times> byte \<times> u16) option" where
  "decode_shard_header buf =
     (if length buf < SHARD_HEADER_SIZE then None
      else Some (u16_from_le [buf ! 0, buf ! 1], buf ! 2, buf ! 3, buf ! 4,
                 u16_from_le [buf ! 5, buf ! 6]))"

definition shard_header_bytes :: "u16 \<Rightarrow> byte \<Rightarrow> byte \<Rightarrow> byte \<Rightarrow> u16 \<Rightarrow> bytes" where
  "shard_header_bytes b i d p l = u16_to_le b @ [i, d, p] @ u16_to_le l"

lemma length_shard_header_bytes [simp]: "length (shard_header_bytes b i d p l) = 7"
  by (simp add: shard_header_bytes_def)

lemma encode_shard_header_ok:
  assumes "7 \<le> length buf"
  shows "encode_shard_header buf b i d p l = Inr (shard_header_bytes b i d p l @ drop 7 buf)"
  using assms by (auto simp: encode_shard_header_def slice_write_def shard_header_bytes_def)

lemma u16_to_le_two: "u16_to_le w = [u16_to_le w ! 0, u16_to_le w ! 1]"
  by (simp add: u16_to_le_def)

lemma decode_shard_header_bytes:
  "decode_shard_header (shard_header_bytes b i d p l @ rest) = Some (b, i, d, p, l)"
proof -
  obtain b0 b1 l0 l1 where bl: "u16_to_le b = [b0, b1]" "u16_to_le l = [l0, l1]"
    using u16_to_le_two by blast
  then have "u16_from_le [b0, b1] = b" "u16_from_le [l0, l1] = l" by (metis from_to_le(1))+
  then show ?thesis
    by (simp add: decode_shard_header_def shard_header_bytes_def SHARD_HEADER_SIZE_def bl)
qed

type_synonym shard_header = "u16 \<times> byte \<times> byte \<times> byte \<times> u16"

definition shard_enc :: "shard_header \<Rightarrow> bytes \<Rightarrow> bytes" where
  "shard_enc h s = (case h of (b, i, d, p, l) \<Rightarrow> shard_header_bytes b i d p l @ s)"

definition shard_dec :: "bytes \<Rightarrow> (shard_header \<times> bytes) option" where
  "shard_dec buf = map_option (\<lambda>h. (h, drop SHARD_HEADER_SIZE buf)) (decode_shard_header buf)"

interpretation shard_codec: frame_codec "\<lambda>_. True" "\<lambda>_. SHARD_HEADER_SIZE" shard_enc shard_dec
proof
  fix h :: shard_header and s :: bytes
  show "shard_dec (shard_enc h s) = Some (h, s)"
    by (cases h) (simp add: shard_dec_def shard_enc_def decode_shard_header_bytes SHARD_HEADER_SIZE_def)
  show "length (shard_enc h s) = SHARD_HEADER_SIZE + length s"
    by (cases h) (simp add: shard_enc_def SHARD_HEADER_SIZE_def)
next
  fix bs :: bytes and h s
  assume dec: "shard_dec bs = Some (h, s)"
  then have "7 \<le> length bs"
    by (auto simp: shard_dec_def decode_shard_header_def SHARD_HEADER_SIZE_def split: if_splits)
  then obtain x0 x1 x2 x3 x4 x5 x6 ys where bs: "bs = x0 # x1 # x2 # x3 # x4 # x5 # x6 # ys"
    by (auto simp: Suc_le_length_iff numeral_eq_Suc)
  have "u16_to_le (u16_from_le [x0, x1]) = [x0, x1]" "u16_to_le (u16_from_le [x5, x6]) = [x5, x6]"
    by (simp_all add: to_from_le)
  with dec show "True \<and> shard_enc h s = bs"
    by (auto simp: bs shard_dec_def shard_enc_def decode_shard_header_def SHARD_HEADER_SIZE_def
        shard_header_bytes_def)
qed

section \<open>Sender\<close>

record fec_sender =
  snd_config :: fec_config
  snd_block_id :: u16
  snd_buffer :: "bytes list"
  snd_payload_lens :: "u16 list"

definition empty_sender :: "fec_config \<Rightarrow> fec_sender" where
  "empty_sender cfg =
     \<lparr>snd_config = cfg, snd_block_id = 0, snd_buffer = [], snd_payload_lens = []\<rparr>"

definition fec_sender_new :: "fec_config \<Rightarrow> fec_sender outcome" where
  \<comment> \<open>\<open>Vec<u8>\<close> takes 24 bytes, \<open>u16\<close> two\<close>
  "fec_sender_new cfg =
     rbind (with_capacity 24 (data_shards cfg)) (\<lambda>_.
     rbind (with_capacity 2 (data_shards cfg)) (\<lambda>_.
     Inr (empty_sender cfg)))"

definition sender_fits :: "fec_config \<Rightarrow> bool" where
  "sender_fits cfg \<longleftrightarrow> data_shards cfg * 24 < 2 ^ 63"

lemma fec_sender_new_eq: "fec_sender_new cfg = (if sender_fits cfg then Inr (empty_sender cfg) else Inl Capacity_Panic)"
  by (simp add: fec_sender_new_def with_capacity_def sender_fits_def)

lemma sender_fits_small [simp]: "d \<le> 256 \<Longrightarrow> sender_fits (shards_cfg d p)"
  by (simp add: sender_fits_def)

definition prefix_len :: "bytes \<Rightarrow> bytes" where
  "prefix_len p = u16_to_le (word_of_nat (length p)) @ p"

definition max_shard_len :: "bytes list \<Rightarrow> nat" where
  "max_shard_len shards = (if shards = [] then 2 else Max (set (map length shards)))"

definition pad_block :: "nat \<Rightarrow> bytes list \<Rightarrow> bytes list" where
  \<comment> \<open>the data shards of a block: prefixed, padded to one size, filled up to \<open>d\<close> shards\<close>
  "pad_block d payloads =
     (let shards = map prefix_len payloads;
          m = max_shard_len shards;
          padded = map (resize m 0) shards
      in padded @ replicate (d - length padded) (replicate m 0))"

definition frame_shard :: "fec_config \<Rightarrow> u16 \<Rightarrow> nat \<Rightarrow> bytes \<Rightarrow> (byte \<times> bytes) outcome" where
  "frame_shard cfg block_id i shard =
     (let ptype = (if i < data_shards cfg then PACKET_DATA else PACKET_PARITY);
          original_len = (if i < data_shards cfg \<and> 2 \<le> length shard
                          then u16_from_le [shard ! 0, shard ! 1] else 0)
      in rbind (encode_shard_header (replicate (SHARD_HEADER_SIZE + length shard) 0) block_id
                  (word_of_nat i) (word_of_nat (data_shards cfg))
                  (word_of_nat (parity_shards cfg)) original_len) (\<lambda>framed.
         rbind (slice_write SHARD_HEADER_SIZE shard framed) (\<lambda>framed.
         Inr (ptype, framed))))"

fun frame_shards :: "fec_config \<Rightarrow> u16 \<Rightarrow> nat \<Rightarrow> bytes list \<Rightarrow> (byte \<times> bytes) list outcome" where
  "frame_shards cfg block_id i [] = Inr []"
| "frame_shards cfg block_id i (s # ss) =
     rbind (frame_shard cfg block_id i s) (\<lambda>f.
     rbind (frame_shards cfg block_id (Suc i) ss) (\<lambda>fs. Inr (f # fs)))"

definition flush :: "rs_lib \<Rightarrow> fec_sender \<Rightarrow> ((byte \<times> bytes) list \<times> fec_sender) outcome" where
  "flush rs s =
     (let cfg = snd_config s;
          block_id = snd_block_id s;
          s' = s\<lparr>snd_block_id := block_id + 1, snd_buffer := [], snd_payload_lens := []\<rparr>;
          shards = pad_block (data_shards cfg) (snd_buffer s)
      in rbind (fec_encoder_new rs cfg) (\<lambda>enc.
         rbind (fec_encode rs enc shards) (\<lambda>shards.
         rbind (frame_shards cfg block_id 0 shards) (\<lambda>out.
         Inr (out, s')))))"

definition submit ::
    "rs_lib \<Rightarrow> bytes \<Rightarrow> fec_sender \<Rightarrow> ((byte \<times> bytes) list option \<times> fec_sender) outcome" where
  "submit rs payload s =
     (let s1 = s\<lparr>snd_payload_lens := snd_payload_lens s @ [word_of_nat (length payload)],
                 snd_buffer := snd_buffer s @ [payload]\<rparr>
      in if data_shards (snd_config s1) \<le> length (snd_buffer s1)
         then rbind (flush rs s1) (\<lambda>(out, s2). Inr (Some out, s2))
         else Inr (None, s1))"

definition flush_partial ::
    "rs_lib \<Rightarrow> fec_sender \<Rightarrow> ((byte \<times> bytes) list option \<times> fec_sender) outcome" where
  "flush_partial rs s =
     (if snd_buffer s = [] then Inr (None, s)
      else rbind (flush rs s) (\<lambda>(out, s'). Inr (Some out, s')))"

definition buffered_count :: "fec_sender \<Rightarrow> nat" where
  "buffered_count s = length (snd_buffer s)"

section \<open>Receiver\<close>

record pending_block =
  pb_data :: nat
  pb_parity :: nat
  pb_shards :: "bytes option list"
  pb_received :: nat
  pb_created :: instant

definition pending_new :: "instant \<Rightarrow> byte \<Rightarrow> byte \<Rightarrow> pending_block" where
  "pending_new now d p =
     \<lparr>pb_data = unat d, pb_parity = unat p, pb_shards = replicate (unat d + unat p) None,
      pb_received = 0, pb_created = now\<rparr>"

definition pending_insert :: "byte \<Rightarrow> bytes \<Rightarrow> pending_block \<Rightarrow> (bool \<times> pending_block) outcome" where
  "pending_insert shard_idx shard_data b =
     (let idx = unat shard_idx; total = pb_data b + pb_parity b
      in if total \<le> idx then Inr (pb_data b \<le> pb_received b, b)
         else rbind (rget (pb_shards b) idx) (\<lambda>cur.
           if cur \<noteq> None then Inr (pb_data b \<le> pb_received b, b)
           else let b' = b\<lparr>pb_shards := (pb_shards b)[idx := Some shard_data],
                           pb_received := pb_received b + 1\<rparr>
                in Inr (pb_data b' \<le> pb_received b', b')))"

definition shard_payload :: "bytes option \<Rightarrow> bytes list" where
  \<comment> \<open>the payload embedded in a data shard; none for padding and corrupted lengths\<close>
  "shard_payload os =
     (case os of
        None \<Rightarrow> []
      | Some shard \<Rightarrow>
          if length shard < 2 then []
          else let len = unat (u16_from_le [shard ! 0, shard ! 1])
               in if len = 0 then [] else if length shard < 2 + len then []
                  else [take len (drop 2 shard)])"

definition pending_reconstruct :: "rs_lib \<Rightarrow> pending_block \<Rightarrow> bytes list option outcome" where
  "pending_reconstruct rs b =
     (if pb_received b < pb_data b then Inr None
      else rbind (fec_encoder_new rs (shards_cfg (pb_data b) (pb_parity b))) (\<lambda>enc.
        case fec_reconstruct rs enc (pb_shards b) of
          Inl _ \<Rightarrow> Inr None
        | Inr shards \<Rightarrow> Inr (Some (concat (map shard_payload (take (pb_data b) shards))))))"

record fec_receiver =
  rcv_blocks :: "(u16, pending_block) dmap"

definition fec_receiver_new :: fec_receiver where
  "fec_receiver_new = \<lparr>rcv_blocks = []\<rparr>"

definition receive_shard ::
    "rs_lib \<Rightarrow> instant \<Rightarrow> bytes \<Rightarrow> fec_receiver \<Rightarrow> (bytes list option \<times> fec_receiver) outcome" where
  "receive_shard rs now payload r =
     (case decode_shard_header payload of
        None \<Rightarrow> Inr (None, r)
      | Some (block_id, shard_idx, n_data, n_parity, _) \<Rightarrow>
          rbind (slice SHARD_HEADER_SIZE (length payload) payload) (\<lambda>shard_data.
          let block = (case dm_get (rcv_blocks r) block_id of
                         None \<Rightarrow> pending_new now n_data n_parity | Some b \<Rightarrow> b)
          in rbind (pending_insert shard_idx shard_data block) (\<lambda>(can_reconstruct, block).
             let blocks = dm_insert block_id block (rcv_blocks r)
             in if can_reconstruct
                then rbind (pending_reconstruct rs block) (\<lambda>res.
                     Inr (res, r\<lparr>rcv_blocks := dm_remove block_id blocks\<rparr>))
                else Inr (None, r\<lparr>rcv_blocks := blocks\<rparr>))))"

definition expire_old :: "instant \<Rightarrow> nat \<Rightarrow> fec_receiver \<Rightarrow> fec_receiver" where
  \<comment> \<open>instants are in nanoseconds; \<open>duration_since\<close> saturates at zero\<close>
  "expire_old now max_age_ms r =
     r\<lparr>rcv_blocks := dm_retain (\<lambda>_ b. (now - pb_created b) div 1000000 < max_age_ms) (rcv_blocks r)\<rparr>"

fun receive_all ::
    "rs_lib \<Rightarrow> (instant \<times> bytes) list \<Rightarrow> fec_receiver \<Rightarrow> (bytes list option list \<times> fec_receiver) outcome" where
  "receive_all rs [] r = Inr ([], r)"
| "receive_all rs ((now, payload) # as) r =
     rbind (receive_shard rs now payload r) (\<lambda>(out, r).
     rbind (receive_all rs as r) (\<lambda>(outs, r). Inr (out # outs, r)))"

end
