(* ===== verification/Fec_Block.thy ===== *)
theory Fec_Block
  imports Fec_Codec
begin

text \<open>
  Correctness of the block codec.  First a flushed block: its frames are the data and parity
  shards of the padded payloads, and the payloads are read back from the restored shards.  Then
  the receiver: against the abstract machine \<open>collect\<close>, which only counts the distinct shards of
  each block, every run of \<open>receive_shard\<close> over shards of any number of blocks, in any order and
  with duplicates, returns a block's payloads exactly where \<open>collect\<close> completes it.
\<close>

section \<open>Padding and unpadding\<close>

definition payload_ok :: "bytes \<Rightarrow> bool" where
  "payload_ok b \<longleftrightarrow> 0 < length b \<and> length b < 2 ^ 16"

lemma length_prefix_len [simp]: "length (prefix_len b) = 2 + length b"
  by (simp add: prefix_len_def)

lemma shard_payload_resize:
  assumes "payload_ok b" and "2 + length b \<le> m"
  shows "shard_payload (Some (resize m 0 (prefix_len b))) = [b]"
proof -
  let ?w = "word_of_nat (length b) :: u16"
  obtain b0 b1 where le: "u16_to_le ?w = [b0, b1]" using u16_to_le_two by blast
  then have w: "u16_from_le [b0, b1] = ?w" by (metis from_to_le(1))
  have len: "unat ?w = length b" using assms(1) by (simp add: payload_ok_def unat_of_nat)
  have s: "resize m 0 (prefix_len b) = b0 # b1 # b @ replicate (m - (2 + length b)) 0"
    using assms(2) by (simp add: resize_pad prefix_len_def le)
  have "0 < length b" using assms(1) by (simp add: payload_ok_def)
  then show ?thesis by (simp add: s shard_payload_def w len)
qed

lemma shard_payload_zeros: "shard_payload (Some (replicate m 0)) = []"
proof -
  have "u16_from_le [0, 0] = 0" by (simp add: u16_from_le_def)
  then show ?thesis by (simp add: shard_payload_def)
qed

lemma length_pad_block: "length bs \<le> d \<Longrightarrow> length (pad_block d bs) = d"
  by (simp add: pad_block_def Let_def)

lemma max_shard_len_ge: "s \<in> set shards \<Longrightarrow> length s \<le> max_shard_len shards"
  by (auto simp: max_shard_len_def)

lemma max_shard_len_pos: "bs \<noteq> [] \<Longrightarrow> 2 \<le> max_shard_len (map prefix_len bs)"
  using max_shard_len_ge [of "prefix_len (hd bs)" "map prefix_len bs"] by (cases bs) auto

lemma pad_block_uniform: "s \<in> set (pad_block d bs) \<Longrightarrow> length s = max_shard_len (map prefix_len bs)"
  by (auto simp: pad_block_def Let_def)

lemma max_shard_len_prefixed:
  assumes "bs \<noteq> []"
  shows "max_shard_len (map prefix_len bs) = 2 + Max (set (map length bs))"
proof -
  have "max_shard_len (map prefix_len bs) = Max ((\<lambda>n. 2 + n) ` set (map length bs))"
    using assms by (simp add: max_shard_len_def image_image)
  also have "\<dots> = 2 + Max (set (map length bs))"
    using assms by (intro mono_Max_commute [symmetric]) (auto simp: mono_def)
  finally show ?thesis .
qed

text \<open>The payload of every shard of the padded block, read back in order, is the block.\<close>

lemma unpad_block:
  assumes "list_all payload_ok bs"
  shows "concat (map (\<lambda>s. shard_payload (Some s)) (pad_block d bs)) = bs"
proof -
  let ?m = "max_shard_len (map prefix_len bs)"
  have "concat (map (\<lambda>b. shard_payload (Some (resize ?m 0 (prefix_len b)))) cs) = cs"
    if "set cs \<subseteq> set bs" for cs
    using that
  proof (induction cs)
    case Nil
    then show ?case by simp
  next
    case (Cons c cs)
    then have "payload_ok c" "2 + length c \<le> ?m"
      using assms max_shard_len_ge [of "prefix_len c" "map prefix_len bs"]
      by (auto simp: list_all_iff)
    with Cons show ?case by (simp add: shard_payload_resize)
  qed
  then have "concat (map (\<lambda>b. shard_payload (Some (resize ?m 0 (prefix_len b)))) bs) = bs" by simp
  moreover have "concat (map (\<lambda>s. shard_payload (Some s)) (replicate k (replicate ?m 0))) = []" for k
    by (simp add: shard_payload_zeros)
  ultimately show ?thesis by (simp add: pad_block_def Let_def comp_def shard_payload_zeros)
qed

section \<open>A flushed block\<close>

definition shard_frame :: "fec_config \<Rightarrow> u16 \<Rightarrow> bytes list \<Rightarrow> nat \<Rightarrow> byte \<times> bytes" where
  \<comment> \<open>the \<open>i\<close>-th frame of the block with shards \<open>ys\<close>\<close>
  "shard_frame cfg k ys i =
     (if i < data_shards cfg then PACKET_DATA else PACKET_PARITY,
      shard_header_bytes k (word_of_nat i) (word_of_nat (data_shards cfg))
        (word_of_nat (parity_shards cfg))
        (if i < data_shards cfg \<and> 2 \<le> length (ys ! i) then u16_from_le [ys ! i ! 0, ys ! i ! 1] else 0)
      @ ys ! i)"

lemma frame_shard_eq: "frame_shard cfg k i (ys ! i) = Inr (shard_frame cfg k ys i)"
  by (simp add: frame_shard_def shard_frame_def SHARD_HEADER_SIZE_def encode_shard_header_ok
      slice_write_def)

lemma frame_shards_eq:
  "i + length ss = length ys \<Longrightarrow> drop i ys = ss \<Longrightarrow>
   frame_shards cfg k i ss = Inr (map (shard_frame cfg k ys) [i..<length ys])"
proof (induction ss arbitrary: i)
  case Nil
  then show ?case by simp
next
  case (Cons s ss)
  have i: "i < length ys" using Cons.prems(1) by simp
  then have s: "s = ys ! i" "drop (Suc i) ys = ss"
    using Cons.prems(2) by (metis Cons_nth_drop_Suc list.inject)+
  have "frame_shards cfg k (Suc i) ss = Inr (map (shard_frame cfg k ys) [Suc i..<length ys])"
    by (rule Cons.IH) (use Cons.prems(1) s(2) in simp_all)
  then show ?case using i by (simp add: s(1) frame_shard_eq upt_conv_Cons)
qed

text \<open>
  \<open>codeword rs d p bs ys\<close>: \<open>ys\<close> are the shards of the block \<open>bs\<close>, and any \<open>d\<close> of them restore
  all.
\<close>

definition codeword :: "rs_lib \<Rightarrow> nat \<Rightarrow> nat \<Rightarrow> bytes list \<Rightarrow> bytes list \<Rightarrow> bool" where
  "codeword rs d p bs ys \<longleftrightarrow> length ys = d + p \<and> take d ys = pad_block d bs \<and>
     (\<forall>y \<in> set ys. length y = max_shard_len (map prefix_len bs)) \<and>
     rs_new rs d p \<and> 0 < d \<and> 0 < p \<and> d + p \<le> 256 \<and>
     (\<forall>os. erasure_of os ys \<longrightarrow> d \<le> present os \<longrightarrow> rs_reconstruct rs d p os = Some (map Some ys))"

lemma flush_ok:
  assumes law: "rs_lawful rs d p" and cfg: "snd_config s = shards_cfg d p"
    and buf: "snd_buffer s \<noteq> []" "length (snd_buffer s) \<le> d"
  obtains ys where "codeword rs d p (snd_buffer s) ys"
    and "flush rs s = Inr (map (shard_frame (shards_cfg d p) (snd_block_id s) ys) [0..<d + p],
           s\<lparr>snd_block_id := snd_block_id s + 1, snd_buffer := [], snd_payload_lens := []\<rparr>)"
proof -
  let ?bs = "snd_buffer s" and ?enc = "\<lparr>enc_config = shards_cfg d p\<rparr>"
  let ?m = "max_shard_len (map prefix_len ?bs)"
  have new: "rs_new rs d p" "0 < d" "0 < p" "d + p \<le> 256" using law by (simp_all add: rs_lawful_def)
  have "length (pad_block d ?bs) = d" "\<forall>x \<in> set (pad_block d ?bs). length x = ?m" "0 < ?m"
    using buf pad_block_uniform max_shard_len_pos [OF buf(1)] by (auto simp: length_pad_block)
  then obtain ys where ys: "fec_encode rs ?enc (pad_block d ?bs) = Inr ys" "length ys = d + p"
    "take d ys = pad_block d ?bs" "\<forall>y \<in> set ys. length y = ?m"
    "\<And>os. erasure_of os ys \<Longrightarrow> d \<le> present os \<Longrightarrow> fec_reconstruct rs ?enc os = Inr (map Some ys)"
    using fec_encode_ok [OF law, of ?enc "pad_block d ?bs" ?m] by auto
  have "rs_reconstruct rs d p os = Some (map Some ys)" if "erasure_of os ys" "d \<le> present os" for os
    using ys(5) [OF that] by (simp add: fec_reconstruct_def split: option.splits)
  then have "codeword rs d p ?bs ys" using ys new by (simp add: codeword_def)
  moreover have "frame_shards (shards_cfg d p) (snd_block_id s) 0 ys =
      Inr (map (shard_frame (shards_cfg d p) (snd_block_id s) ys) [0..<d + p])"
    using frame_shards_eq [of 0 ys ys] ys(2) by simp
  then have "flush rs s = Inr (map (shard_frame (shards_cfg d p) (snd_block_id s) ys) [0..<d + p],
           s\<lparr>snd_block_id := snd_block_id s + 1, snd_buffer := [], snd_payload_lens := []\<rparr>)"
    using new ys(1) by (simp add: flush_def cfg fec_encoder_new_def Let_def)
  ultimately show thesis by (rule that)
qed

section \<open>The receiver against a counting machine\<close>

text \<open>
  The abstract receiver: for each block identifier the set of distinct shard indices held.
  A block completes when the set reaches \<open>d\<close>, and is then forgotten.
\<close>

fun collect :: "nat \<Rightarrow> (u16 \<Rightarrow> nat set) \<Rightarrow> (u16 \<times> nat) list \<Rightarrow> u16 option list" where
  "collect d S [] = []"
| "collect d S ((k, i) # as) =
     (let T = insert i (S k)
      in if d \<le> card T then Some k # collect d (S(k := {})) as
         else None # collect d (S(k := T)) as)"

definition held :: "bytes list \<Rightarrow> nat set \<Rightarrow> bytes option list" where
  "held ys T = map (\<lambda>i. if i \<in> T then Some (ys ! i) else None) [0..<length ys]"

lemma length_held [simp]: "length (held ys T) = length ys"
  by (simp add: held_def)

lemma held_nth [simp]: "i < length ys \<Longrightarrow> held ys T ! i = (if i \<in> T then Some (ys ! i) else None)"
  by (simp add: held_def)

lemma held_empty: "held ys {} = replicate (length ys) None"
  by (rule nth_equalityI) simp_all

lemma held_update: "i < length ys \<Longrightarrow> (held ys T)[i := Some (ys ! i)] = held ys (insert i T)"
  by (rule nth_equalityI) (auto simp: nth_list_update)

lemma erasure_of_held: "erasure_of (held ys T) ys"
  by (simp add: erasure_of_def)

lemma present_held: "T \<subseteq> {..<length ys} \<Longrightarrow> present (held ys T) = card T"
proof -
  assume T: "T \<subseteq> {..<length ys}"
  have "present (held ys T) = card {i. i < length ys \<and> i \<in> T}"
    unfolding present_def length_filter_conv_card by (rule arg_cong [where f = card]) (auto split: if_splits)
  also have "{i. i < length ys \<and> i \<in> T} = T" using T by auto
  finally show ?thesis .
qed

definition block_view :: "nat \<Rightarrow> nat \<Rightarrow> bytes list \<Rightarrow> nat set \<Rightarrow> pending_block option \<Rightarrow> bool" where
  \<comment> \<open>what the receiver stores for a block of which the shards \<open>T\<close> have arrived\<close>
  "block_view d p ys T ob \<longleftrightarrow> T \<subseteq> {..<d + p} \<and> card T < d \<and>
     (case ob of
        None \<Rightarrow> T = {}
      | Some b \<Rightarrow> pb_data b = d \<and> pb_parity b = p \<and> pb_shards b = held ys T \<and>
                  pb_received b = card T)"

lemma pending_insert_held:
  assumes "pb_data b = d" "pb_parity b = p" "pb_shards b = held ys T" "pb_received b = card T"
    and "length ys = d + p" "T \<subseteq> {..<d + p}" "i < d + p" "d + p \<le> 256"
  obtains b' where "pending_insert (word_of_nat i) (ys ! i) b = Inr (d \<le> card (insert i T), b')"
    and "pb_data b' = d" "pb_parity b' = p" "pb_shards b' = held ys (insert i T)"
    and "pb_received b' = card (insert i T)" and "pb_created b' = pb_created b"
proof -
  have idx: "unat (word_of_nat i :: byte) = i" using assms by (simp add: unat_of_nat)
  have fin: "finite T" using assms(6) finite_subset by blast
  show thesis
  proof (cases "i \<in> T")
    case True
    then show thesis
      using assms that [of b] by (simp add: pending_insert_def idx rget_def insert_absorb)
  next
    case False
    let ?b = "b\<lparr>pb_shards := held ys (insert i T), pb_received := card (insert i T)\<rparr>"
    have "pending_insert (word_of_nat i) (ys ! i) b = Inr (d \<le> card (insert i T), ?b)"
      using assms False fin by (simp add: pending_insert_def idx rget_def held_update)
    then show thesis using assms by (intro that [of ?b]) simp_all
  qed
qed

lemma pending_reconstruct_held:
  assumes code: "codeword rs d p bs ys" and pay: "list_all payload_ok bs"
    and b: "pb_data b = d" "pb_parity b = p" "pb_shards b = held ys T" "pb_received b = card T"
    and T: "T \<subseteq> {..<d + p}" "d \<le> card T"
  shows "pending_reconstruct rs b = Inr (Some bs)"
proof -
  have len: "length ys = d + p" using code by (simp add: codeword_def)
  have "rs_reconstruct rs d p (held ys T) = Some (map Some ys)"
    using code erasure_of_held present_held [of T ys] T len by (simp add: codeword_def)
  moreover have "concat (map shard_payload (take d (map Some ys))) = bs"
    using code unpad_block [OF pay, of d] by (simp add: codeword_def take_map comp_def)
  ultimately show ?thesis
    using code b T by (simp add: pending_reconstruct_def fec_encoder_new_def fec_reconstruct_def codeword_def)
qed

lemma receive_shard_step:
  assumes code: "codeword rs d p bs ys" and pay: "list_all payload_ok bs"
    and view: "block_view d p ys T (dm_get (rcv_blocks r) k)" and i: "i < d + p"
  obtains r' where "receive_shard rs now (snd (shard_frame (shards_cfg d p) k ys i)) r =
      Inr (if d \<le> card (insert i T) then Some bs else None, r')"
    and "block_view d p ys (if d \<le> card (insert i T) then {} else insert i T) (dm_get (rcv_blocks r') k)"
    and "\<And>j. j \<noteq> k \<Longrightarrow> dm_get (rcv_blocks r') j = dm_get (rcv_blocks r) j"
proof -
  have len: "length ys = d + p" and d: "0 < d" "d + p \<le> 256" "0 < p"
    using code by (simp_all add: codeword_def)
  have un: "unat (word_of_nat d :: byte) = d" "unat (word_of_nat p :: byte) = p"
    using d by (simp_all add: unat_of_nat)
  define b where "b = (case dm_get (rcv_blocks r) k of
     None \<Rightarrow> pending_new now (word_of_nat d) (word_of_nat p) | Some b \<Rightarrow> b)"
  have b: "pb_data b = d" "pb_parity b = p" "pb_shards b = held ys T" "pb_received b = card T"
    using view un len
    by (auto simp: b_def block_view_def pending_new_def held_empty split: option.splits)
  have T: "T \<subseteq> {..<d + p}" using view by (simp add: block_view_def)
  obtain b' where ins: "pending_insert (word_of_nat i) (ys ! i) b = Inr (d \<le> card (insert i T), b')"
    and b': "pb_data b' = d" "pb_parity b' = p" "pb_shards b' = held ys (insert i T)"
      "pb_received b' = card (insert i T)"
    using pending_insert_held [OF b len T i d(2)] by blast
  have dec: "receive_shard rs now (snd (shard_frame (shards_cfg d p) k ys i)) r =
     (if d \<le> card (insert i T)
      then rbind (pending_reconstruct rs b') (\<lambda>res. Inr (res,
             r\<lparr>rcv_blocks := dm_remove k (dm_insert k b' (rcv_blocks r))\<rparr>))
      else Inr (None, r\<lparr>rcv_blocks := dm_insert k b' (rcv_blocks r)\<rparr>))"
    using ins
    by (simp add: receive_shard_def shard_frame_def decode_shard_header_bytes SHARD_HEADER_SIZE_def
        slice_def b_def [symmetric])
  show thesis
  proof (cases "d \<le> card (insert i T)")
    case True
    have "pending_reconstruct rs b' = Inr (Some bs)"
      using pending_reconstruct_held [OF code pay b'] T i True by simp
    then show thesis
      using dec True d
        that [of "r\<lparr>rcv_blocks := dm_remove k (dm_insert k b' (rcv_blocks r))\<rparr>"]
      by (simp add: block_view_def)
  next
    case False
    then show thesis
      using dec b' T i that [of "r\<lparr>rcv_blocks := dm_insert k b' (rcv_blocks r)\<rparr>"]
      by (simp add: block_view_def)
  qed
qed

definition receiver_view ::
    "nat \<Rightarrow> nat \<Rightarrow> (u16 \<Rightarrow> bytes list) \<Rightarrow> u16 set \<Rightarrow> (u16 \<Rightarrow> nat set) \<Rightarrow> fec_receiver \<Rightarrow> bool" where
  "receiver_view d p Y K S r \<longleftrightarrow> (\<forall>k \<in> K. block_view d p (Y k) (S k) (dm_get (rcv_blocks r) k))"

lemma receiver_view_fresh:
  "0 < d \<Longrightarrow> (\<And>k. k \<in> K \<Longrightarrow> dm_get (rcv_blocks r) k = None) \<Longrightarrow> receiver_view d p Y K (\<lambda>_. {}) r"
  by (simp add: receiver_view_def block_view_def)

definition arrival :: "nat \<Rightarrow> nat \<Rightarrow> (u16 \<Rightarrow> bytes list) \<Rightarrow> instant \<times> u16 \<times> nat \<Rightarrow> instant \<times> bytes" where
  \<comment> \<open>at time \<open>t\<close> the frame \<open>i\<close> of block \<open>k\<close> comes in\<close>
  "arrival d p Y a = (case a of (t, k, i) \<Rightarrow> (t, snd (shard_frame (shards_cfg d p) k (Y k) i)))"

lemma arrival_simps [simp]:
  "arrival d p Y (t, k, i) = (t, snd (shard_frame (shards_cfg d p) k (Y k) i))"
  by (simp add: arrival_def)

lemma receive_all_collect:
  assumes code: "\<And>k. k \<in> K \<Longrightarrow> codeword rs d p (B k) (Y k)"
    and pay: "\<And>k. k \<in> K \<Longrightarrow> list_all payload_ok (B k)"
  shows "receiver_view d p Y K S r \<Longrightarrow> list_all (\<lambda>(t, k, i). k \<in> K \<and> i < d + p) as \<Longrightarrow>
    \<exists>r'. receive_all rs (map (arrival d p Y) as) r =
      Inr (map (map_option B) (collect d S (map snd as)), r')"
proof (induction as arbitrary: S r)
  case Nil
  then show ?case by simp
next
  case (Cons a as)
  obtain t k i where a: "a = (t, k, i)" by (cases a)
  have i: "i < d + p" and k: "k \<in> K" using Cons.prems(2) by (simp_all add: a)
  let ?T = "insert i (S k)"
  let ?S = "S(k := if d \<le> card ?T then {} else ?T)"
  have "block_view d p (Y k) (S k) (dm_get (rcv_blocks r) k)"
    using Cons.prems(1) k by (simp add: receiver_view_def)
  then obtain r1 where r1: "receive_shard rs t (snd (shard_frame (shards_cfg d p) k (Y k) i)) r =
      Inr (if d \<le> card ?T then Some (B k) else None, r1)"
    and v: "block_view d p (Y k) (?S k) (dm_get (rcv_blocks r1) k)"
    and o: "\<And>j. j \<noteq> k \<Longrightarrow> dm_get (rcv_blocks r1) j = dm_get (rcv_blocks r) j"
    using receive_shard_step [OF code [OF k] pay [OF k] _ i, where now = t and r = r]
    by (metis fun_upd_same)
  have "receiver_view d p Y K ?S r1"
    unfolding receiver_view_def
  proof
    fix j
    assume "j \<in> K"
    then show "block_view d p (Y j) (?S j) (dm_get (rcv_blocks r1) j)"
      using v o Cons.prems(1) by (cases "j = k") (simp_all add: receiver_view_def)
  qed
  moreover have "list_all (\<lambda>(t, k, i). k \<in> K \<and> i < d + p) as" using Cons.prems(2) by simp
  ultimately obtain r2 where "receive_all rs (map (arrival d p Y) as) r1 =
      Inr (map (map_option B) (collect d ?S (map snd as)), r2)"
    using Cons.IH by blast
  with r1 show ?case by (simp add: a Let_def)
qed

section \<open>How often a block completes\<close>

definition arrivals :: "u16 \<Rightarrow> (u16 \<times> nat) list \<Rightarrow> nat" where
  "arrivals k as = length (filter (\<lambda>a. fst a = k) as)"

lemma arrivals_Cons: "arrivals k (a # as) = (if fst a = k then Suc (arrivals k as) else arrivals k as)"
  by (simp add: arrivals_def)

text \<open>
  When no shard arrives twice, the block \<open>k\<close> completes once for every \<open>d\<close> of its arrivals: late
  shards start the block again.
\<close>

lemma collect_count:
  assumes d: "0 < d"
  shows "distinct as \<Longrightarrow> finite (S k) \<Longrightarrow> card (S k) < d \<Longrightarrow> (\<forall>i \<in> S k. (k, i) \<notin> set as) \<Longrightarrow>
    count_list (collect d S as) (Some k) = (card (S k) + arrivals k as) div d"
proof (induction as arbitrary: S)
  case Nil
  then show ?case by (simp add: arrivals_def)
next
  case (Cons a as)
  obtain j i where a: "a = (j, i)" by (cases a)
  show ?case
  proof (cases "j = k")
    case False
    let ?S = "S(j := if d \<le> card (insert i (S j)) then {} else insert i (S j))"
    have "count_list (collect d ?S as) (Some k) = (card (?S k) + arrivals k as) div d"
      using Cons.prems False by (intro Cons.IH) simp_all
    with False show ?thesis
      by (cases "d \<le> card (insert i (S j))") (simp_all add: a arrivals_Cons Let_def)
  next
    case True
    have new: "i \<notin> S k" using Cons.prems(4) by (auto simp: a True)
    then have c: "card (insert i (S k)) = Suc (card (S k))" using Cons.prems(2) by simp
    show ?thesis
    proof (cases "d \<le> card (insert i (S k))")
      case full: True
      then have cd: "Suc (card (S k)) = d" using c Cons.prems(3) by simp
      have "count_list (collect d (S(k := {})) as) (Some k) =
          (card ((S(k := {})) k) + arrivals k as) div d"
        using Cons.prems d by (intro Cons.IH) simp_all
      moreover have "card (S k) + Suc (arrivals k as) = arrivals k as + d" using cd by simp
      then have "(card (S k) + Suc (arrivals k as)) div d = Suc (arrivals k as div d)"
        using d by (metis Suc_eq_plus1 div_add_self2 not_gr_zero)
      ultimately show ?thesis using full by (simp add: a True arrivals_Cons Let_def)
    next
      case False
      have "count_list (collect d (S(k := insert i (S k))) as) (Some k) =
          (card ((S(k := insert i (S k))) k) + arrivals k as) div d"
        using Cons.prems False by (intro Cons.IH) (auto simp: a True)
      with False c show ?thesis by (simp add: a True arrivals_Cons Let_def)
    qed
  qed
qed

text \<open>All arrivals of one block: its payloads come out once for every \<open>d\<close> of them.\<close>

lemma collect_single:
  "list_all (\<lambda>a. fst a = k) as \<Longrightarrow>
   filter (\<lambda>x. x \<noteq> None) (map (map_option B) (collect d S as)) =
   replicate (count_list (collect d S as) (Some k)) (Some (B k))"
  by (induction d S as rule: collect.induct) (auto simp: Let_def)

lemma block_deliveries:
  assumes code: "codeword rs d p bs ys" and pay: "list_all payload_ok bs"
    and fresh: "dm_get (rcv_blocks r) k = None"
    and as: "distinct (map snd as)" "set (map snd as) \<subseteq> {..<d + p}"
  obtains outs r' where
    "receive_all rs (map (\<lambda>(t, i). (t, snd (shard_frame (shards_cfg d p) k ys i))) as) r = Inr (outs, r')"
    and "filter (\<lambda>x. x \<noteq> None) outs = replicate (length as div d) (Some bs)"
proof -
  let ?as = "map (\<lambda>(t, i). (t, k, i)) as" and ?ks = "map (\<lambda>(t, i). (k, i)) as"
  have d: "0 < d" using code by (simp add: codeword_def)
  have eq: "map (arrival d p (\<lambda>_. ys)) ?as = map (\<lambda>(t, i). (t, snd (shard_frame (shards_cfg d p) k ys i))) as"
    "map snd ?as = ?ks"
    by auto
  have v: "receiver_view d p (\<lambda>_. ys) {k} (\<lambda>_. {}) r" using d fresh
    by (intro receiver_view_fresh) simp_all
  have l: "list_all (\<lambda>(t, j, i). j \<in> {k} \<and> i < d + p) ?as" using as(2) by (auto simp: list_all_iff)
  have "\<exists>r'. receive_all rs (map (arrival d p (\<lambda>_. ys)) ?as) r =
      Inr (map (map_option (\<lambda>_. bs)) (collect d (\<lambda>_. {}) (map snd ?as)), r')"
    by (rule receive_all_collect [where K = "{k}", OF _ _ v l]) (use code pay in simp_all)
  then obtain r' where run: "receive_all rs (map (arrival d p (\<lambda>_. ys)) ?as) r =
      Inr (map (map_option (\<lambda>_. bs)) (collect d (\<lambda>_. {}) ?ks), r')"
    unfolding eq(2) by blast
  have "?ks = map (Pair k) (map snd as)" by auto
  then have "distinct ?ks" using as(1) by (simp only: distinct_map) (auto simp: inj_on_def)
  then have "count_list (collect d (\<lambda>_. {}) ?ks) (Some k) = arrivals k ?ks div d"
    using d collect_count [of d ?ks "\<lambda>_. {}" k] by simp
  moreover have "arrivals k ?ks = length as" by (simp add: arrivals_def filter_map comp_def split_def)
  moreover have "list_all (\<lambda>a. fst a = k) ?ks" by (auto simp: list_all_iff)
  ultimately have "filter (\<lambda>x. x \<noteq> None) (map (map_option (\<lambda>_. bs)) (collect d (\<lambda>_. {}) ?ks)) =
      replicate (length as div d) (Some bs)"
    by (simp only: collect_single)
  with run show thesis unfolding eq(1) by (rule that)
qed

lemma flush_deliveries:
  assumes law: "rs_lawful rs d p" and cfg: "snd_config s = shards_cfg d p"
    and buf: "snd_buffer s \<noteq> []" "length (snd_buffer s) \<le> d" "list_all payload_ok (snd_buffer s)"
    and fresh: "dm_get (rcv_blocks r) (snd_block_id s) = None"
    and as: "distinct (map snd as)" "set (map snd as) \<subseteq> {..<d + p}"
  obtains out s' outs r' where "flush rs s = Inr (out, s')" and "length out = d + p"
    and "receive_all rs (map (\<lambda>(t, i). (t, snd (out ! i))) as) r = Inr (outs, r')"
    and "filter (\<lambda>x. x \<noteq> None) outs = replicate (length as div d) (Some (snd_buffer s))"
proof -
  obtain ys where code: "codeword rs d p (snd_buffer s) ys"
    and fl: "flush rs s = Inr (map (shard_frame (shards_cfg d p) (snd_block_id s) ys) [0..<d + p],
           s\<lparr>snd_block_id := snd_block_id s + 1, snd_buffer := [], snd_payload_lens := []\<rparr>)"
    using flush_ok [OF law cfg buf(1,2)] .
  let ?out = "map (shard_frame (shards_cfg d p) (snd_block_id s) ys) [0..<d + p]"
  have "map (\<lambda>(t, i). (t, snd (shard_frame (shards_cfg d p) (snd_block_id s) ys i))) as =
      map (\<lambda>(t, i). (t, snd (?out ! i))) as" (is "?l = ?r")
    using as(2) by (auto simp del: upt_Suc)
  moreover obtain outs r' where
    "receive_all rs (map (\<lambda>(t, i). (t, snd (shard_frame (shards_cfg d p) (snd_block_id s) ys i))) as) r =
       Inr (outs, r')"
    and "filter (\<lambda>x. x \<noteq> None) outs = replicate (length as div d) (Some (snd_buffer s))"
    using block_deliveries [OF code buf(3) fresh as] .
  moreover have "length ?out = d + p" by (simp del: upt_Suc)
  ultimately show thesis by (intro that [OF fl, of outs r']) (simp_all only:)
qed

section \<open>Panics and the receiver's invariant\<close>

definition pending_ok :: "pending_block \<Rightarrow> bool" where
  "pending_ok b \<longleftrightarrow> 0 < pb_data b \<and> 0 < pb_parity b \<and> pb_data b + pb_parity b \<le> 256 \<and>
     length (pb_shards b) = pb_data b + pb_parity b \<and> pb_received b = present (pb_shards b) \<and>
     pb_received b < pb_data b"

definition receiver_ok :: "fec_receiver \<Rightarrow> bool" where
  "receiver_ok r \<longleftrightarrow> (\<forall>k b. dm_get (rcv_blocks r) k = Some b \<longrightarrow> pending_ok b)"

definition sane_header :: "bytes \<Rightarrow> bool" where
  \<comment> \<open>too short for a header, or naming a code Reed-Solomon accepts\<close>
  "sane_header payload \<longleftrightarrow>
     (case decode_shard_header payload of None \<Rightarrow> True
      | Some (_, _, n_data, n_parity, _) \<Rightarrow>
          0 < unat n_data \<and> 0 < unat n_parity \<and> unat n_data + unat n_parity \<le> 256)"

lemma present_replicate_None [simp]: "present (replicate n None) = 0"
  by (simp add: present_def)

lemma present_update:
  assumes "i < length os" "os ! i = None"
  shows "present (os[i := Some x]) = Suc (present os)"
proof -
  have "present os = present (take i os @ os ! i # drop (Suc i) os)"
    using id_take_nth_drop [OF assms(1)] by (rule arg_cong)
  then have "present os = present (take i os) + present (drop (Suc i) os)"
    using assms(2) by (simp add: present_def)
  moreover have "present (os[i := Some x]) = present (take i os) + Suc (present (drop (Suc i) os))"
    using assms(1) by (simp add: upd_conv_take_nth_drop present_def)
  ultimately show ?thesis by simp
qed

lemma pending_new_ok:
  "0 < unat d \<Longrightarrow> 0 < unat p \<Longrightarrow> unat d + unat p \<le> 256 \<Longrightarrow> pending_ok (pending_new now d p)"
  by (simp add: pending_ok_def pending_new_def)

lemma pending_insert_ok:
  assumes "pending_ok b"
  obtains can b' where "pending_insert i x b = Inr (can, b')" and "can \<or> pending_ok b'"
    and "pb_data b' = pb_data b" "pb_parity b' = pb_parity b"
proof -
  have b: "length (pb_shards b) = pb_data b + pb_parity b" "pb_received b = present (pb_shards b)"
    "pb_received b < pb_data b"
    using assms by (simp_all add: pending_ok_def)
  consider "pb_data b + pb_parity b \<le> unat i"
    | y where "unat i < pb_data b + pb_parity b" "pb_shards b ! unat i = Some y"
    | "unat i < pb_data b + pb_parity b" "pb_shards b ! unat i = None"
    by (meson not_None_eq not_le)
  then show thesis
  proof cases
    case 1
    then show thesis using assms b by (intro that [of False b]) (simp_all add: pending_insert_def)
  next
    case 2
    then show thesis
      using assms b by (intro that [of False b]) (simp_all add: pending_insert_def rget_def)
  next
    case 3
    then show thesis
      using that [of "pb_data b \<le> pb_received b + 1"
          "b\<lparr>pb_shards := (pb_shards b)[unat i := Some x], pb_received := pb_received b + 1\<rparr>"] assms b
      by (simp add: pending_insert_def rget_def pending_ok_def present_update) linarith
  qed
qed

lemma pending_reconstruct_total:
  assumes "rs_valid rs" "0 < pb_data b" "0 < pb_parity b" "pb_data b + pb_parity b \<le> 256"
  shows "\<exists>res. pending_reconstruct rs b = Inr res"
  using assms
  by (auto simp: pending_reconstruct_def fec_encoder_new_def rs_valid_def split: sum.splits)

lemma receive_shard_total:
  assumes rs: "rs_valid rs" and r: "receiver_ok r" and hd: "sane_header payload"
  obtains out r' where "receive_shard rs now payload r = Inr (out, r')" and "receiver_ok r'"
proof (cases "decode_shard_header payload")
  case None
  then show thesis using that r by (simp add: receive_shard_def)
next
  case (Some h)
  obtain k i d p l where h: "h = (k, i, d, p, l)" by (cases h)
  have len: "7 \<le> length payload"
    using Some by (simp add: decode_shard_header_def SHARD_HEADER_SIZE_def split: if_splits)
  define b where "b = (case dm_get (rcv_blocks r) k of None \<Rightarrow> pending_new now d p | Some b \<Rightarrow> b)"
  have b: "pending_ok b"
    using r hd Some pending_new_ok
    by (auto simp: b_def h receiver_ok_def sane_header_def split: option.splits)
  obtain can b' where ins: "pending_insert i (drop 7 payload) b = Inr (can, b')"
    and b': "can \<or> pending_ok b'" "pb_data b' = pb_data b" "pb_parity b' = pb_parity b"
    using pending_insert_ok [OF b, of i "drop 7 payload"] .
  have step: "receive_shard rs now payload r =
     (if can then rbind (pending_reconstruct rs b') (\<lambda>res. Inr (res,
             r\<lparr>rcv_blocks := dm_remove k (dm_insert k b' (rcv_blocks r))\<rparr>))
      else Inr (None, r\<lparr>rcv_blocks := dm_insert k b' (rcv_blocks r)\<rparr>))"
    using ins len
    by (simp add: receive_shard_def Some h SHARD_HEADER_SIZE_def slice_def b_def [symmetric])
  show thesis
  proof (cases can)
    case True
    obtain res where "pending_reconstruct rs b' = Inr res"
      using pending_reconstruct_total [OF rs] b b'(2,3) by (fastforce simp: pending_ok_def)
    then show thesis
      using that [of res "r\<lparr>rcv_blocks := dm_remove k (dm_insert k b' (rcv_blocks r))\<rparr>"] True step r
      by (simp add: receiver_ok_def)
  next
    case False
    then show thesis
      using that [of None "r\<lparr>rcv_blocks := dm_insert k b' (rcv_blocks r)\<rparr>"] step r b'(1)
      by (simp add: receiver_ok_def)
  qed
qed

lemma receive_shard_bad_header_panic:
  assumes rs: "rs_valid rs" and fresh: "dm_get (rcv_blocks r) k = None"
    and bad: "n_data = 0 \<or> n_data = 1 \<and> n_parity = 0 \<and> idx = 0"
  shows "receive_shard rs now (shard_header_bytes k idx n_data n_parity l @ shard) r =
    Inl (Expect_Panic ''invalid FEC config'')"
proof -
  let ?b = "pending_new now n_data n_parity"
  have "\<exists>b'. pending_insert idx shard ?b = Inr (True, b') \<and> pb_data b' = unat n_data \<and>
      pb_parity b' = unat n_parity \<and> unat n_data \<le> pb_received b'"
  proof (cases "n_data = 0")
    case True
    then show ?thesis
      by (cases "unat n_parity \<le> unat idx") (simp_all add: pending_insert_def pending_new_def rget_def)
  next
    case False
    then show ?thesis using bad by (simp add: pending_insert_def pending_new_def rget_def)
  qed
  then obtain b' where ins: "pending_insert idx shard ?b = Inr (True, b')"
    and b': "pb_data b' = unat n_data" "pb_parity b' = unat n_parity" "unat n_data \<le> pb_received b'"
    by blast
  have "\<not> rs_new rs (unat n_data) (unat n_parity)" using rs bad by (auto simp: rs_valid_def)
  then have "pending_reconstruct rs b' = Inl (Expect_Panic ''invalid FEC config'')"
    using b' by (simp add: pending_reconstruct_def fec_encoder_new_def)
  then show ?thesis
    using ins fresh
    by (simp add: receive_shard_def decode_shard_header_bytes SHARD_HEADER_SIZE_def slice_def)
qed

section \<open>A concrete code for the witnesses\<close>

text \<open>Two data shards and their exclusive or: any two of the three restore the third.\<close>

definition xor_bytes :: "bytes \<Rightarrow> bytes \<Rightarrow> bytes" where
  "xor_bytes a b = map2 xor a b"

definition xor_rs :: rs_lib where
  "xor_rs = \<lparr>
     rs_new = (\<lambda>d p. 0 < d \<and> 0 < p \<and> d + p \<le> 256),
     rs_encode = (\<lambda>d p xs. case xs of [a, b, c] \<Rightarrow> Some [a, b, xor_bytes a b] | _ \<Rightarrow> None),
     rs_reconstruct = (\<lambda>d p os. case os of
         [Some a, Some b, _] \<Rightarrow> Some [Some a, Some b, Some (xor_bytes a b)]
       | [None, Some b, Some c] \<Rightarrow> Some [Some (xor_bytes c b), Some b, Some c]
       | [Some a, None, Some c] \<Rightarrow> Some [Some a, Some (xor_bytes c a), Some c]
       | _ \<Rightarrow> None)\<rparr>"

lemma xor_bytes_cancel:
  "length a = length b \<Longrightarrow> xor_bytes (xor_bytes a b) b = a"
  "length a = length b \<Longrightarrow> xor_bytes (xor_bytes a b) a = b"
  by (auto simp: xor_bytes_def list_eq_iff_nth_eq xor.assoc) (simp add: xor.commute xor.left_commute)

lemma rs_valid_xor: "rs_valid xor_rs"
  by (simp add: rs_valid_def xor_rs_def)

lemma rs_lawful_xor: "rs_lawful xor_rs 2 1"
proof -
  have three: "\<exists>a b c. xs = [a, b, c]" if "length xs = 3" for xs :: "'a list"
    using that by (auto simp: numeral_eq_Suc length_Suc_conv)
  have enc: "\<exists>ys. rs_encode xor_rs 2 1 xs = Some ys \<and> length ys = 2 + 1 \<and> take 2 ys = take 2 xs \<and>
              (\<forall>y \<in> set ys. length y = n) \<and>
              (\<forall>os. erasure_of os ys \<longrightarrow> 2 \<le> present os \<longrightarrow>
                 rs_reconstruct xor_rs 2 1 os = Some (map Some ys))"
    if xs: "length xs = 2 + 1" "\<forall>x \<in> set xs. length x = n" for n and xs :: "bytes list"
  proof -
    obtain a b c where abc: "xs = [a, b, c]" using three [of xs] xs(1) by auto
    have ab: "length a = length b" "length b = n" using xs(2) by (simp_all add: abc)
    have rec: "rs_reconstruct xor_rs 2 1 os = Some (map Some [a, b, xor_bytes a b])"
      if os: "erasure_of os [a, b, xor_bytes a b]" "2 \<le> present os" for os
    proof -
      obtain x y z where xyz: "os = [x, y, z]" using three [of os] os(1) by (auto simp: erasure_of_def)
      have E: "os ! i = None \<or> os ! i = Some ([a, b, xor_bytes a b] ! i)" if "i < 3" for i
        using os(1) that by (simp add: erasure_of_def)
      have "x = None \<or> x = Some a" "y = None \<or> y = Some b" "z = None \<or> z = Some (xor_bytes a b)"
        using E [of 0] E [of 1] E [of 2] by (simp_all add: xyz)
      with os(2) ab(1) show ?thesis
        by (auto simp: xyz xor_rs_def present_def xor_bytes_cancel)
    qed
    show ?thesis
      by (intro exI [of _ "[a, b, xor_bytes a b]"])
        (use ab rec in \<open>auto simp: abc xor_rs_def xor_bytes_def\<close>)
  qed
  have few: "rs_reconstruct xor_rs 2 1 os = None" if os: "length os = 2 + 1" "present os < 2" for os
  proof -
    obtain x y z where "os = [x, y, z]" using three [of os] os(1) by auto
    with os(2) show ?thesis
      by (cases x; cases y; cases z) (simp_all add: xor_rs_def present_def)
  qed
  have "rs_new xor_rs 2 1" by (simp add: xor_rs_def)
  with enc few show ?thesis by (simp add: rs_lawful_def)
qed

end
