(* ===== verification/Fec_Stream.thy ===== *)
theory Fec_Stream
  imports Fec_Block "HOL-Library.Multiset"
begin

text \<open>
  A stream of payloads through the sender of \<open>src/relay/fec_codec.rs\<close>: the blocks it is cut
  into, and what the receiver returns when their shards arrive in any order.  The properties of
  the shard header, the block codec and the loss tracker stand at the end.
\<close>

section \<open>The blocks of a stream\<close>

fun submit_all ::
    "rs_lib \<Rightarrow> bytes list \<Rightarrow> fec_sender \<Rightarrow> ((byte \<times> bytes) list list \<times> fec_sender) outcome" where
  "submit_all rs [] s = Inr ([], s)"
| "submit_all rs (p # ps) s =
     rbind (submit rs p s) (\<lambda>(out, s).
     rbind (submit_all rs ps s) (\<lambda>(outs, s).
     Inr (case out of None \<Rightarrow> outs | Some o' \<Rightarrow> o' # outs, s)))"

definition block_of :: "nat \<Rightarrow> 'a list \<Rightarrow> nat \<Rightarrow> 'a list" where
  "block_of d xs j = take d (drop (j * d) xs)"

lemma block_of_0: "length xs = d \<Longrightarrow> block_of d (xs @ ys) 0 = xs"
  by (simp add: block_of_def)

lemma block_of_Suc: "length xs = d \<Longrightarrow> block_of d (xs @ ys) (Suc j) = block_of d ys j"
  by (simp add: block_of_def)

definition frames_of :: "nat \<Rightarrow> nat \<Rightarrow> u16 \<Rightarrow> (nat \<Rightarrow> bytes list) \<Rightarrow> nat \<Rightarrow> (byte \<times> bytes) list" where
  "frames_of d p k Y j = map (shard_frame (shards_cfg d p) (k + word_of_nat j) (Y j)) [0..<d + p]"

lemma submit_all_blocks:
  assumes law: "rs_lawful rs d p"
  shows "snd_config s = shards_cfg d p \<Longrightarrow> length (snd_buffer s) < d \<Longrightarrow>
    xs = snd_buffer s @ ps \<Longrightarrow> n = length xs div d \<Longrightarrow>
    \<exists>Y s'. submit_all rs ps s = Inr (map (frames_of d p (snd_block_id s) Y) [0..<n], s') \<and>
      (\<forall>j<n. codeword rs d p (block_of d xs j) (Y j)) \<and> snd_buffer s' = drop (n * d) xs \<and>
      snd_block_id s' = snd_block_id s + word_of_nat n \<and> snd_config s' = shards_cfg d p"
proof (induction ps arbitrary: s xs n)
  case Nil
  then show ?case by simp
next
  case (Cons p0 ps)
  define s1 where "s1 = s\<lparr>snd_payload_lens := snd_payload_lens s @ [word_of_nat (length p0)],
                          snd_buffer := snd_buffer s @ [p0]\<rparr>"
  have s1: "snd_config s1 = shards_cfg d p" "snd_buffer s1 = snd_buffer s @ [p0]"
    "snd_block_id s1 = snd_block_id s"
    using Cons.prems by (simp_all add: s1_def)
  have sub: "submit rs p0 s = (if d \<le> length (snd_buffer s1)
       then rbind (flush rs s1) (\<lambda>(out, s2). Inr (Some out, s2)) else Inr (None, s1))"
    using Cons.prems(1) by (simp add: submit_def Let_def s1_def)
  show ?case
  proof (cases "d \<le> length (snd_buffer s1)")
    case False
    have xs: "xs = snd_buffer s1 @ ps" by (simp add: Cons.prems s1)
    obtain Y s' where "submit_all rs ps s1 = Inr (map (frames_of d p (snd_block_id s1) Y) [0..<n], s')"
      and R: "\<forall>j<n. codeword rs d p (block_of d xs j) (Y j)" "snd_buffer s' = drop (n * d) xs"
        "snd_block_id s' = snd_block_id s1 + word_of_nat n" "snd_config s' = shards_cfg d p"
      using Cons.IH [OF s1(1) _ xs Cons.prems(4)] False by auto
    then have "submit_all rs (p0 # ps) s = Inr (map (frames_of d p (snd_block_id s) Y) [0..<n], s')"
      using sub False s1 by simp
    with R show ?thesis unfolding s1(3) by blast
  next
    case True
    have len: "length (snd_buffer s1) = d" using True Cons.prems(2) s1(2) by simp
    have d: "0 < d" using law by (simp add: rs_lawful_def)
    have ne: "snd_buffer s1 \<noteq> []" using s1(2) by simp
    obtain ys where code: "codeword rs d p (snd_buffer s1) ys"
      and fl: "flush rs s1 = Inr (map (shard_frame (shards_cfg d p) (snd_block_id s1) ys) [0..<d + p],
           s1\<lparr>snd_block_id := snd_block_id s1 + 1, snd_buffer := [], snd_payload_lens := []\<rparr>)"
      using flush_ok [OF law s1(1) ne] len by auto
    define s2 where "s2 = s1\<lparr>snd_block_id := snd_block_id s1 + 1, snd_buffer := [], snd_payload_lens := []\<rparr>"
    have s2: "snd_config s2 = shards_cfg d p" "snd_buffer s2 = []" "snd_block_id s2 = snd_block_id s + 1"
      using s1 by (simp_all add: s2_def)
    have xs: "xs = snd_buffer s1 @ ps" by (simp add: Cons.prems s1)
    define m where "m = length ps div d"
    have n: "n = Suc m" using Cons.prems(4) d len by (simp add: xs m_def)
    obtain Y s' where run: "submit_all rs ps s2 = Inr (map (frames_of d p (snd_block_id s2) Y) [0..<m], s')"
      and R: "\<forall>j<m. codeword rs d p (block_of d ps j) (Y j)" "snd_buffer s' = drop (m * d) ps"
        "snd_block_id s' = snd_block_id s2 + word_of_nat m" "snd_config s' = shards_cfg d p"
      using Cons.IH [OF s2(1), of ps m] s2(2) d by (auto simp: m_def)
    define Y' where "Y' = (\<lambda>j. case j of 0 \<Rightarrow> ys | Suc j \<Rightarrow> Y j)"
    have "[0..<n] = 0 # map Suc [0..<m]" unfolding n by (simp add: map_Suc_upt upt_conv_Cons)
    then have "map (frames_of d p (snd_block_id s) Y') [0..<n] =
        map (shard_frame (shards_cfg d p) (snd_block_id s1) ys) [0..<d + p] #
        map (frames_of d p (snd_block_id s2) Y) [0..<m]"
      by (simp add: frames_of_def Y'_def s1 s2 add.assoc)
    then have "submit_all rs (p0 # ps) s = Inr (map (frames_of d p (snd_block_id s) Y') [0..<n], s')"
      using sub True fl run by (simp add: s2_def [symmetric])
    moreover have "\<forall>j<n. codeword rs d p (block_of d xs j) (Y' j)"
      using R(1) code len unfolding n xs Y'_def
      by (auto simp: less_Suc_eq_0_disj block_of_0 block_of_Suc)
    moreover have "snd_buffer s' = drop (n * d) xs" using R(2) len by (simp add: n xs)
    moreover have "snd_block_id s' = snd_block_id s + word_of_nat n" using R(3) s2(3) by (simp add: n)
    ultimately show ?thesis using R(4) by blast
  qed
qed

section \<open>The receiver on a stream\<close>

lemma collect_keys: "Some k \<in> set (collect d S as) \<Longrightarrow> k \<in> fst ` set as"
  by (induction d S as rule: collect.induct) (auto simp: Let_def split: if_splits)

lemma count_mset_filter: "count (mset (filter P xs)) x = (if P x then count_list xs x else 0)"
  by (induction xs) auto

lemma collect_once:
  assumes d: "0 < d" and as: "distinct as" "fst ` set as \<subseteq> K" and K: "finite K"
    and enough: "\<And>k. k \<in> K \<Longrightarrow> d \<le> arrivals k as \<and> arrivals k as < 2 * d"
  shows "mset (filter (\<lambda>x. x \<noteq> None) (collect d (\<lambda>_. {}) as)) = image_mset Some (mset_set K)"
proof (rule multiset_eqI)
  fix x
  let ?C = "collect d (\<lambda>_. {}) as"
  have cnt: "count_list ?C (Some k) = arrivals k as div d" for k
    using collect_count [OF d as(1), of "\<lambda>_. {}" k] d by simp
  have one: "arrivals k as div d = 1" if "k \<in> K" for k
    using enough [OF that] d by (auto intro: div_nat_eqI)
  have none: "count_list ?C (Some k) = 0" if "k \<notin> K" for k
    using that as(2) collect_keys [of k d "\<lambda>_. {}" as] by (auto simp: count_list_0_iff)
  show "count (mset (filter (\<lambda>x. x \<noteq> None) ?C)) x = count (image_mset Some (mset_set K)) x"
  proof (cases x)
    case None
    then show ?thesis by (auto simp: count_mset_filter count_eq_zero_iff simp del: mset_filter)
  next
    case (Some k)
    have "count (image_mset Some (mset_set K)) (Some k) = (if k \<in> K then 1 else 0)"
      using K by (auto simp: image_mset_mset_set count_mset_set')
    then show ?thesis using cnt one none by (simp add: count_mset_filter Some del: mset_filter)
  qed
qed

lemma filter_map_option:
  "filter (\<lambda>x. x \<noteq> None) (map (map_option f) xs) = map (map_option f) (filter (\<lambda>x. x \<noteq> None) xs)"
  by (induction xs) auto

lemma codeword_block_ok: "list_all payload_ok xs \<Longrightarrow> list_all payload_ok (block_of d xs j)"
  by (auto simp: block_of_def list_all_iff dest!: in_set_takeD in_set_dropD)

lemma word_of_nat_u16_inj: "i < 65536 \<Longrightarrow> j < 65536 \<Longrightarrow> (word_of_nat i :: u16) = word_of_nat j \<longleftrightarrow> i = j"
  by (simp add: word_unat_eq_iff unat_of_nat)

text \<open>
  Shards of all blocks of a stream, in any order: the blocks come out once each when of every
  block at least \<open>d\<close> and fewer than \<open>2 * d\<close> frames arrive.
\<close>

lemma stream_deliveries:
  assumes code: "\<And>j. j < n \<Longrightarrow> codeword rs d p (block_of d xs j) (Y j)" and pay: "list_all payload_ok xs"
    and n: "0 < n" "n \<le> 65536" and fresh: "rcv_blocks r = []"
    and as: "distinct (map snd as)" "\<forall>(t, j, i) \<in> set as. j < n \<and> i < d + p"
    and enough: "\<And>j. j < n \<Longrightarrow> d \<le> length (filter (\<lambda>a. fst (snd a) = j) as) \<and>
                                length (filter (\<lambda>a. fst (snd a) = j) as) < 2 * d"
  obtains res r' where
    "receive_all rs (map (\<lambda>(t, j, i). (t, snd (map (frames_of d p b Y) [0..<n] ! j ! i))) as) r = Inr (res, r')"
    and "mset (filter (\<lambda>x. x \<noteq> None) res) = mset (map (\<lambda>j. Some (block_of d xs j)) [0..<n])"
proof -
  have d: "0 < d" using code [of 0] n by (simp add: codeword_def)
  define key where "key j = b + (word_of_nat j :: u16)" for j
  define idx where "idx k = unat (k - b)" for k :: u16
  have ik: "idx (key j) = j" if "j < n" for j
    using that n by (simp add: idx_def key_def unat_of_nat)
  let ?K = "key ` {..<n}" and ?B = "block_of d xs \<circ> idx" and ?Y = "Y \<circ> idx"
  let ?ks = "map (\<lambda>(t, j, i). (key j, i)) as" and ?as = "map (\<lambda>(t, j, i). (t, key j, i)) as"
  have inj: "inj_on key {..<n}" using ik by (metis inj_onI lessThan_iff)
  have "\<exists>r'. receive_all rs (map (arrival d p ?Y) ?as) r =
      Inr (map (map_option ?B) (collect d (\<lambda>_. {}) (map snd ?as)), r')"
  proof (rule receive_all_collect [where K = ?K])
    show "codeword rs d p (?B k) (?Y k)" "list_all payload_ok (?B k)" if "k \<in> ?K" for k
      using that code ik pay codeword_block_ok by auto
    show "receiver_view d p ?Y ?K (\<lambda>_. {}) r" using d fresh by (intro receiver_view_fresh) simp_all
    show "list_all (\<lambda>(t, k, i). k \<in> ?K \<and> i < d + p) ?as"
      using as(2) by (auto simp: list_all_iff split_beta)
  qed
  moreover have "map snd ?as = ?ks" by auto
  ultimately have ex: "\<exists>r'. receive_all rs (map (arrival d p ?Y) ?as) r =
      Inr (map (map_option ?B) (collect d (\<lambda>_. {}) ?ks), r')"
    by (simp only:)
  have eq: "map (arrival d p ?Y) ?as =
      map (\<lambda>(t, j, i). (t, snd (map (frames_of d p b Y) [0..<n] ! j ! i))) as"
    using as(2) ik by (auto simp: frames_of_def key_def simp del: upt_Suc)
  obtain r' where
    run: "receive_all rs (map (\<lambda>(t, j, i). (t, snd (map (frames_of d p b Y) [0..<n] ! j ! i))) as) r =
      Inr (map (map_option ?B) (collect d (\<lambda>_. {}) ?ks), r')"
    using ex unfolding eq ..
  have key_eq: "key j = key j' \<longleftrightarrow> j = j'" if "j < n" "j' < n" for j j'
    using that ik by metis
  have "inj_on (\<lambda>(j, i). (key j, i :: nat)) ({..<n} \<times> UNIV)"
    using key_eq by (auto simp: inj_on_def)
  moreover have "set (map snd as) \<subseteq> {..<n} \<times> UNIV" using as(2) by auto
  ultimately have "inj_on (\<lambda>(j, i). (key j, i)) (set (map snd as))" by (rule inj_on_subset)
  with as(1) have "distinct (map (\<lambda>(j, i). (key j, i)) (map snd as))"
    by (simp only: distinct_map)
  moreover have "map (\<lambda>(j, i). (key j, i)) (map snd as) = ?ks" by auto
  ultimately have dist: "distinct ?ks" by (simp only:)
  have arr: "arrivals (key j) ?ks = length (filter (\<lambda>a. fst (snd a) = j) as)" if "j < n" for j
  proof -
    have "filter (\<lambda>a. fst (case a of (t, j, i) \<Rightarrow> (key j, i)) = key j) as = filter (\<lambda>a. fst (snd a) = j) as"
      using as(2) that key_eq by (intro filter_cong) auto
    then show ?thesis by (simp add: arrivals_def filter_map comp_def)
  qed
  have "mset (filter (\<lambda>x. x \<noteq> None) (collect d (\<lambda>_. {}) ?ks)) = image_mset Some (mset_set ?K)"
    using as(2) arr enough by (intro collect_once [OF d dist]) (auto simp: split_beta)
  then have "mset (filter (\<lambda>x. x \<noteq> None) (map (map_option ?B) (collect d (\<lambda>_. {}) ?ks))) =
      image_mset (map_option ?B) (image_mset Some (mset_set ?K))"
    by (simp only: filter_map_option mset_map)
  also have "\<dots> = image_mset (\<lambda>j. Some (?B (key j))) (mset_set {..<n})"
    by (simp only: image_mset_mset_set [OF inj, symmetric] multiset.map_comp comp_def option.map)
  also have "\<dots> = image_mset (\<lambda>j. Some (block_of d xs j)) (mset_set {..<n})"
    using ik by (intro image_mset_cong) simp
  also have "\<dots> = mset (map (\<lambda>j. Some (block_of d xs j)) [0..<n])"
    by (simp only: mset_map mset_upt lessThan_atLeast0)
  finally show thesis using run by (intro that)
qed

section \<open>Properties\<close>

text \<open>Shard header round trip: every header written by \<open>encode_shard_header\<close> over a buffer of
  at least 7 bytes is read back by \<open>decode_shard_header\<close>, and the bytes behind it are kept.\<close>

theorem shard_header_roundtrip:
  assumes "SHARD_HEADER_SIZE \<le> length buf"
  shows "\<exists>out. encode_shard_header buf b i d p l = Inr out \<and> length out = length buf \<and>
    drop SHARD_HEADER_SIZE out = drop SHARD_HEADER_SIZE buf \<and> decode_shard_header out = Some (b, i, d, p, l)"
  using assms
  by (simp add: SHARD_HEADER_SIZE_def encode_shard_header_ok decode_shard_header_bytes)

theorem shard_header_roundtrip_witness:
  "\<exists>out. encode_shard_header (replicate 9 7) 513 2 10 4 60 = Inr out \<and> length out = 9 \<and>
    decode_shard_header out = Some (513, 2, 10, 4, 60)"
  using shard_header_roundtrip [of "replicate 9 7" 513 2 10 4 60] by (auto simp: SHARD_HEADER_SIZE_def)

text \<open>C3. A stream of payloads survives loss and reordering: the payloads given to \<open>submit\<close> leave in
  blocks of \<open>d\<close>, and however the frames of all these blocks are interleaved, reordered or lost on
  the way to a fresh receiver, every block is returned exactly once, with its payloads in order,
  as long as at least \<open>d\<close> and fewer than \<open>2 * d\<close> of its \<open>d + p\<close> frames arrive.\<close>

theorem fec_stream_delivery:
  assumes "rs_lawful rs d p" and "n = length ps div d" and "0 < n" "n \<le> 65536"
    and "list_all payload_ok ps"
    and "distinct (map snd as)" "\<forall>(t, j, i) \<in> set as. j < n \<and> i < d + p"
    and "\<forall>j<n. d \<le> length (filter (\<lambda>a. fst (snd a) = j) as) \<and>
                length (filter (\<lambda>a. fst (snd a) = j) as) < 2 * d"
  shows "\<exists>out s res r.
    rbind (fec_sender_new (shards_cfg d p)) (submit_all rs ps) = Inr (out, s) \<and> length out = n \<and>
    snd_buffer s = drop (n * d) ps \<and>
    receive_all rs (map (\<lambda>(t, j, i). (t, snd (out ! j ! i))) as) fec_receiver_new = Inr (res, r) \<and>
    mset (filter (\<lambda>x. x \<noteq> None) res) = mset (map (\<lambda>j. Some (block_of d ps j)) [0..<n])"
proof -
  let ?s = "empty_sender (shards_cfg d p)"
  have d: "0 < d" "fec_sender_new (shards_cfg d p) = Inr ?s" using assms(1) by (simp_all add: rs_lawful_def fec_sender_new_eq)
  have "\<exists>Y s'. submit_all rs ps ?s = Inr (map (frames_of d p (snd_block_id ?s) Y) [0..<n], s') \<and>
      (\<forall>j<n. codeword rs d p (block_of d ps j) (Y j)) \<and> snd_buffer s' = drop (n * d) ps \<and>
      snd_block_id s' = snd_block_id ?s + word_of_nat n \<and> snd_config s' = shards_cfg d p"
    using assms(2) d by (intro submit_all_blocks [OF assms(1)]) (simp_all add: empty_sender_def)
  then obtain Y s where sub: "submit_all rs ps ?s = Inr (map (frames_of d p (snd_block_id ?s) Y) [0..<n], s)"
    "snd_buffer s = drop (n * d) ps" and code: "\<And>j. j < n \<Longrightarrow> codeword rs d p (block_of d ps j) (Y j)"
    by blast
  have fresh: "rcv_blocks fec_receiver_new = []" by (simp add: fec_receiver_new_def)
  have enough: "d \<le> length (filter (\<lambda>a. fst (snd a) = j) as) \<and>
      length (filter (\<lambda>a. fst (snd a) = j) as) < 2 * d" if "j < n" for j
    using assms(8) that by blast
  obtain res r where
    "receive_all rs (map (\<lambda>(t, j, i). (t, snd (map (frames_of d p (snd_block_id ?s) Y) [0..<n] ! j ! i))) as)
       fec_receiver_new = Inr (res, r)"
    "mset (filter (\<lambda>x. x \<noteq> None) res) = mset (map (\<lambda>j. Some (block_of d ps j)) [0..<n])"
    using stream_deliveries [OF code assms(5,3,4) fresh assms(6,7) enough] .
  then show ?thesis using sub unfolding d(2) rbind_simps by (intro exI conjI) (simp_all only: length_map length_upt diff_zero)
qed

theorem fec_stream_delivery_witness:
  "\<exists>out s res r. rbind (fec_sender_new (shards_cfg 2 1)) (submit_all xor_rs [[1], [2, 3], [4], [5]]) = Inr (out, s) \<and>
    length out = 2 \<and> snd_buffer s = drop (2 * 2) [[1], [2, 3], [4], [5]] \<and>
    receive_all xor_rs (map (\<lambda>(t, j, i). (t, snd (out ! j ! i)))
       [(0, 1, 2), (1, 0, 2), (2, 0, 1), (3, 1, 0), (4, 1, 1)]) fec_receiver_new = Inr (res, r) \<and>
    mset (filter (\<lambda>x. x \<noteq> None) res) =
      mset (map (\<lambda>j. Some (block_of 2 [[1], [2, 3], [4], [5]] j)) [0..<2])"
  by (rule fec_stream_delivery [OF rs_lawful_xor]) (auto simp: payload_ok_def less_2_cases_iff)

text \<open>C20. One block: when distinct frames of a flushed block arrive, in any order, at a receiver
  that holds nothing of the block, its payloads are returned once for every \<open>d\<close> frames that
  arrive: never when more than \<open>p\<close> frames are lost, and twice as soon as \<open>2 * d\<close> arrive, which a
  configuration with at least as many parity as data shards reaches without any duplicate.\<close>

theorem fec_block_deliveries:
  assumes "rs_lawful rs d p" "snd_config s = shards_cfg d p"
    and "snd_buffer s \<noteq> []" "length (snd_buffer s) \<le> d" "list_all payload_ok (snd_buffer s)"
    and "dm_get (rcv_blocks r) (snd_block_id s) = None"
    and "distinct (map snd as)" "set (map snd as) \<subseteq> {..<d + p}"
  shows "\<exists>out s' outs r'. flush rs s = Inr (out, s') \<and> length out = d + p \<and>
    receive_all rs (map (\<lambda>(t, i). (t, snd (out ! i))) as) r = Inr (outs, r') \<and>
    filter (\<lambda>x. x \<noteq> None) outs = replicate (length as div d) (Some (snd_buffer s))"
  using flush_deliveries [OF assms] by metis

theorem fec_block_deliveries_witness:
  "\<exists>out s' outs r'.
    flush xor_rs \<lparr>snd_config = shards_cfg 2 1, snd_block_id = 9, snd_buffer = [[1, 2], [3]], snd_payload_lens = [2, 1]\<rparr> =
      Inr (out, s') \<and>
    receive_all xor_rs (map (\<lambda>(t, i). (t, snd (out ! i))) [(5, 2), (6, 0)]) fec_receiver_new = Inr (outs, r') \<and>
    filter (\<lambda>x. x \<noteq> None) outs = [Some [[1, 2], [3]]]"
  using fec_block_deliveries [OF rs_lawful_xor, of "\<lparr>snd_config = shards_cfg 2 1, snd_block_id = 9,
      snd_buffer = [[1, 2], [3]], snd_payload_lens = [2, 1]\<rparr>" fec_receiver_new "[(5, 2), (6, 0)]"]
  by (auto simp: payload_ok_def fec_receiver_new_def)

text \<open>C24. The receiver is safe on whatever is decrypted: from a receiver whose blocks are well formed
  and incomplete, a payload that is too short for a shard header, or whose header names a code
  Reed-Solomon accepts, never panics and keeps the receiver well formed, whatever its other
  fields are.\<close>

theorem receive_shard_safe:
  assumes "rs_valid rs" "receiver_ok r" "sane_header payload"
  shows "\<exists>out r'. receive_shard rs now payload r = Inr (out, r') \<and> receiver_ok r'"
  using receive_shard_total [OF assms] by metis

theorem receive_shard_safe_witness:
  "\<exists>out r'. receive_shard xor_rs 5 [1, 0, 77, 2, 1, 0, 0, 9] fec_receiver_new = Inr (out, r') \<and> receiver_ok r'"
  using receive_shard_safe [OF rs_valid_xor, of fec_receiver_new "[1, 0, 77, 2, 1, 0, 0, 9]" 5]
  by (simp add: receiver_ok_def fec_receiver_new_def sane_header_def decode_shard_header_def SHARD_HEADER_SIZE_def)

text \<open>A shard of a new block that names zero data shards, or a lone data shard without parity,
  panics the receiver: it completes at once and the encoder for the code does not exist.\<close>

theorem receive_shard_zero_shards_panics:
  assumes "rs_valid rs" "dm_get (rcv_blocks r) k = None"
    and "n_data = 0 \<or> n_data = 1 \<and> n_parity = 0 \<and> idx = 0"
  shows "receive_shard rs now (shard_header_bytes k idx n_data n_parity l @ shard) r =
    Inl (Expect_Panic ''invalid FEC config'')"
  using receive_shard_bad_header_panic [OF assms] .

theorem receive_shard_zero_shards_panics_witness:
  "receive_shard xor_rs 0 (shard_header_bytes 3 0 0 4 0 @ [1, 2]) fec_receiver_new =
    Inl (Expect_Panic ''invalid FEC config'')"
  using receive_shard_zero_shards_panics [OF rs_valid_xor, of fec_receiver_new 3 0 4 0 0 0 "[1, 2]"]
  by (simp add: fec_receiver_new_def)

text \<open>C21. The recommended configuration is the README's tier for the loss ratio of the last \<open>n\<close>
  packets, exactly: \<open>f64\<close> rounding of the rate and of the thresholds never moves it over a
  boundary. The window starts as if \<open>n\<close> packets had been received.\<close>

theorem loss_tracker_recommends_tier:
  assumes "0 < n" "n \<le> 2 ^ 40"
  shows "\<exists>t. lt_record_all hist (loss_tracker_new n) = Inr t \<and>
    recommended_config t = exact_tier (losses (drop (length hist) (replicate n True @ hist))) n"
proof -
  obtain t where t: "lt_record_all hist (loss_tracker_new n) = Inr t"
    "lt_view (drop (length hist) (replicate n True @ hist)) t"
    using lt_record_all_view [OF lt_view_new [OF assms(1)]] by blast
  let ?w = "drop (length hist) (replicate n True @ hist)"
  have "length ?w = n" by simp
  moreover have "losses ?w \<le> n" using losses_le_length [of ?w] by simp
  ultimately show ?thesis
    using t lt_loss_rate_view [OF t(2)] for_loss_rate_exact [OF assms]
    by (simp add: recommended_config_def)
qed

theorem loss_tracker_recommends_tier_witness:
  "\<exists>t. lt_record_all [True, False, True] (loss_tracker_new 100) = Inr t \<and>
    recommended_config t = shards_cfg 10 4"
  using loss_tracker_recommends_tier [of 100 "[True, False, True]"] by (simp add: exact_tier_def)

text \<open>Expiry keeps a pending block exactly while its age, in whole milliseconds, is below the
  limit, and touches no other block.\<close>

theorem expire_old_exact:
  assumes "dm_wf (rcv_blocks r)"
  shows "dm_get (rcv_blocks (expire_old now limit r)) k =
    (case dm_get (rcv_blocks r) k of None \<Rightarrow> None
     | Some b \<Rightarrow> if (now - pb_created b) div 1000000 < limit then Some b else None)"
  using dm.get_retain [OF assms] by (simp add: expire_old_def)

theorem expire_old_exact_witness:
  "dm_get (rcv_blocks (expire_old 600000000 500 \<lparr>rcv_blocks =
      [(1, pending_new 0 2 1), (2, pending_new 200000000 2 1)]\<rparr>)) 1 = None \<and>
   dm_get (rcv_blocks (expire_old 600000000 500 \<lparr>rcv_blocks =
      [(1, pending_new 0 2 1), (2, pending_new 200000000 2 1)]\<rparr>)) 2 = Some (pending_new 200000000 2 1)"
  using expire_old_exact [of "\<lparr>rcv_blocks = [(1, pending_new 0 2 1), (2, pending_new 200000000 2 1)]\<rparr>"
      600000000 500 1]
    expire_old_exact [of "\<lparr>rcv_blocks = [(1, pending_new 0 2 1), (2, pending_new 200000000 2 1)]\<rparr>"
      600000000 500 2]
  by (simp add: dm_wf_def dm_get_def pending_new_def)

end
