(* ===== verification/Crypto.thy ===== *)
theory Crypto
  imports Wire
begin

text \<open>
  The tunnel encryption of \<open>src/relay/crypto.rs\<close>.  The AEAD itself is the crate
  \<open>chacha20poly1305\<close>, so it is a parameter: a record of its two operations on key, nonce and
  message, with the crate's documented behaviour in \<open>aead_lawful\<close>.
\<close>

definition KEY_SIZE :: nat where "KEY_SIZE = 32"

record aead_lib =
  aead_encrypt :: "bytes \<Rightarrow> bytes \<Rightarrow> bytes \<Rightarrow> bytes option"
  aead_decrypt :: "bytes \<Rightarrow> bytes \<Rightarrow> bytes \<Rightarrow> bytes option"

text \<open>
  Documented behaviour of ChaCha20-Poly1305: with a 32-byte key and a 12-byte nonce, a message
  below 4 GiB encrypts to a ciphertext 16 bytes longer that decrypts to it, and what decrypts is
  the encryption of the result (the tag is recomputed and compared).
\<close>

definition aead_lawful :: "aead_lib \<Rightarrow> bool" where
  "aead_lawful lib \<longleftrightarrow>
     (\<forall>k n p. length k = 32 \<longrightarrow> length n = 12 \<longrightarrow> length p < 2 ^ 32 \<longrightarrow>
        (\<exists>c. aead_encrypt lib k n p = Some c \<and> length c = length p + 16 \<and>
             aead_decrypt lib k n c = Some p)) \<and>
     (\<forall>k n c p. aead_encrypt lib k n p = Some c \<longrightarrow> length c = length p + 16) \<and>
     (\<forall>k n c p. aead_decrypt lib k n c = Some p \<longrightarrow> aead_encrypt lib k n p = Some c)"

datatype crypto_error = Decryption_Failed

fun crypto_error_display :: "crypto_error \<Rightarrow> string" where
  "crypto_error_display Decryption_Failed = ''decryption failed (bad key or tampered)''"

record tunnel_crypto =
  cipher_key :: bytes

definition crypto_new :: "bytes \<Rightarrow> tunnel_crypto" where
  "crypto_new key = \<lparr>cipher_key = key\<rparr>"

definition make_nonce :: "u64 \<Rightarrow> bytes outcome" where
  "make_nonce seq = slice_write 0 (u64_to_le seq) (replicate 12 0)"

definition encrypt :: "aead_lib \<Rightarrow> tunnel_crypto \<Rightarrow> u64 \<Rightarrow> bytes \<Rightarrow> bytes outcome" where
  "encrypt lib c seq payload =
     rbind (make_nonce seq) (\<lambda>nonce.
       case aead_encrypt lib (cipher_key c) nonce payload of
         None \<Rightarrow> Inl (Expect_Panic ''ChaCha20-Poly1305 encrypt with valid key cannot fail'')
       | Some ct \<Rightarrow> Inr ct)"

definition decrypt :: "aead_lib \<Rightarrow> tunnel_crypto \<Rightarrow> u64 \<Rightarrow> bytes \<Rightarrow> (crypto_error + bytes) outcome" where
  "decrypt lib c seq ciphertext =
     rbind (make_nonce seq) (\<lambda>nonce.
       Inr (case aead_decrypt lib (cipher_key c) nonce ciphertext of
              None \<Rightarrow> Inl Decryption_Failed
            | Some p \<Rightarrow> Inr p))"

text \<open>\<open>getrandom\<close> fills the buffer or fails; it is a parameter.\<close>

definition generate_key :: "(bytes \<Rightarrow> bytes option) \<Rightarrow> bytes outcome" where
  "generate_key fill =
     (case fill (replicate KEY_SIZE 0) of
        None \<Rightarrow> Inl (Expect_Panic ''getrandom failed'') | Some key \<Rightarrow> Inr key)"

section \<open>Nonces\<close>

definition nonce_of :: "u64 \<Rightarrow> bytes" where
  "nonce_of seq = u64_to_le seq @ [0, 0, 0, 0]"

lemma make_nonce_eq: "make_nonce seq = Inr (nonce_of seq)"
  by (simp add: make_nonce_def slice_write_def nonce_of_def numeral_eq_Suc)

lemma length_nonce_of [simp]: "length (nonce_of seq) = 12"
  by (simp add: nonce_of_def)

lemma nonce_of_inject: "nonce_of s = nonce_of t \<longleftrightarrow> s = t"
  by (simp add: nonce_of_def inj_u64_to_le)

section \<open>Round trip and authenticity\<close>

lemma encrypt_ok:
  assumes "aead_lawful lib" and "length (cipher_key c) = 32" and "length p < 2 ^ 32"
  obtains ct where "encrypt lib c seq p = Inr ct" and "length ct = length p + 16"
    and "decrypt lib c seq ct = Inr (Inr p)"
proof -
  from assms obtain ct where "aead_encrypt lib (cipher_key c) (nonce_of seq) p = Some ct"
    "length ct = length p + 16" "aead_decrypt lib (cipher_key c) (nonce_of seq) ct = Some p"
    unfolding aead_lawful_def using length_nonce_of by blast
  then show thesis by (intro that [of ct]) (simp_all add: encrypt_def decrypt_def make_nonce_eq)
qed

lemma decrypt_cases: "\<exists>r. decrypt lib c seq ct = Inr r"
  by (simp add: decrypt_def make_nonce_eq)

lemma decrypt_authentic:
  assumes "aead_lawful lib" and "decrypt lib c seq ct = Inr (Inr p)"
  shows "encrypt lib c seq p = Inr ct"
  using assms
  by (auto simp: aead_lawful_def encrypt_def decrypt_def make_nonce_eq split: option.splits)

lemma encrypt_length:
  "aead_lawful lib \<Longrightarrow> encrypt lib c seq p = Inr ct \<Longrightarrow> length ct = length p + 16"
  by (auto simp: aead_lawful_def encrypt_def make_nonce_eq split: option.splits)

section \<open>A concrete AEAD for the witnesses\<close>

text \<open>
  It keeps the message and appends a 16-byte tag made of the first bytes of key and nonce.
  It is no cipher; it shows that the hypotheses can hold.
\<close>

definition demo_tag :: "bytes \<Rightarrow> bytes \<Rightarrow> bytes" where
  "demo_tag k n = resize 16 0 (n @ k)"

definition demo_aead :: aead_lib where
  "demo_aead = \<lparr>
     aead_encrypt = (\<lambda>k n p. Some (p @ demo_tag k n)),
     aead_decrypt = (\<lambda>k n c. if length c < 16 then None
       else if drop (length c - 16) c = demo_tag k n then Some (take (length c - 16) c) else None)\<rparr>"

lemma demo_aead_lawful: "aead_lawful demo_aead"
proof -
  have "p @ demo_tag k n = c"
    if "drop (length c - 16) c = demo_tag k n" "take (length c - 16) c = p" for k n c p :: bytes
    using that append_take_drop_id [of "length c - 16" c] by simp
  then show ?thesis
    by (auto simp: aead_lawful_def demo_aead_def demo_tag_def split: if_splits)
qed

end
