(* ===== verification/Tunnel.thy ===== *)
theory Tunnel
  imports Crypto Fec
begin

text \<open>
  The encrypted UDP tunnel of \<open>src/relay/tunnel.rs\<close>: sending a frame, sending a block with
  FEC, and one turn of each receive loop on a datagram.  The socket is a parameter: the result of
  \<open>send_to\<close> for an address and a frame, and the datagrams given to the receive loops.  A
  receive loop reads into one buffer of \<open>MAX_PACKET\<close> bytes that is never cleared; it is part of
  the state, and the operating system cuts a longer datagram to the buffer's size.
\<close>

type_synonym sock_addr = "nat \<times> nat"
type_synonym udp_socket = "sock_addr \<Rightarrow> bytes \<Rightarrow> bool"

section \<open>Sending\<close>

record tunnel =
  tun_peer_addr :: sock_addr
  tun_crypto :: tunnel_crypto
  tun_tx_seq :: u64

record received_packet =
  rp_type :: byte
  rp_seq :: u64
  rp_payload :: bytes
  rp_from :: sock_addr

definition tunnel_new :: "sock_addr \<Rightarrow> bytes \<Rightarrow> tunnel" where
  "tunnel_new peer_addr key =
     \<lparr>tun_peer_addr = peer_addr, tun_crypto = crypto_new key, tun_tx_seq = 0\<rparr>"

definition next_seq :: "tunnel \<Rightarrow> u64 \<times> tunnel" where
  "next_seq t = (case fetch_add (tun_tx_seq t) of (seq, c) \<Rightarrow> (seq, t\<lparr>tun_tx_seq := c\<rparr>))"

interpretation tx_seq: ticket_counter next_seq tun_tx_seq
  by unfold_locales (simp_all add: next_seq_def fetch_add_def)

definition build_frame :: "aead_lib \<Rightarrow> tunnel_crypto \<Rightarrow> byte \<Rightarrow> u64 \<Rightarrow> bytes \<Rightarrow> bytes outcome" where
  "build_frame lib c packet_type seq payload =
     rbind (encrypt lib c seq payload) (\<lambda>ciphertext.
     let ct_len = word_of_nat (length ciphertext)
     in rbind (encode_header (replicate (HEADER_SIZE + length ciphertext) 0) packet_type seq ct_len)
          (\<lambda>frame. slice_write HEADER_SIZE ciphertext frame))"

text \<open>
  The result is the frame handed to the socket, whether \<open>send_to\<close> succeeded, and the tunnel
  with its counter advanced: the number is consumed even when the socket fails.
\<close>

definition send ::
    "aead_lib \<Rightarrow> udp_socket \<Rightarrow> byte \<Rightarrow> bytes \<Rightarrow> tunnel \<Rightarrow> (bytes \<times> bool \<times> tunnel) outcome" where
  "send lib sock packet_type payload t =
     (case next_seq t of (seq, t') \<Rightarrow>
        rbind (build_frame lib (tun_crypto t) packet_type seq payload) (\<lambda>frame.
        Inr (frame, sock (tun_peer_addr t) frame, t')))"

fun send_all ::
    "aead_lib \<Rightarrow> udp_socket \<Rightarrow> (byte \<times> bytes) list \<Rightarrow> tunnel \<Rightarrow> (bytes list \<times> bool \<times> tunnel) outcome" where
  \<comment> \<open>the loop of \<open>send_with_fec\<close>, left at the first socket error\<close>
  "send_all lib sock [] t = Inr ([], True, t)"
| "send_all lib sock ((ptype, shard) # ss) t =
     rbind (send lib sock ptype shard t) (\<lambda>(frame, ok, t).
       if \<not> ok then Inr ([frame], False, t)
       else rbind (send_all lib sock ss t) (\<lambda>(frames, ok, t). Inr (frame # frames, ok, t)))"

text \<open>\<open>slice::chunks\<close>, which panics for a chunk size of zero.\<close>

function chunks :: "nat \<Rightarrow> 'a list \<Rightarrow> 'a list list" where
  "chunks n xs = (if xs = [] \<or> n = 0 then [] else take n xs # chunks n (drop n xs))"
  by pat_completeness auto
termination
  by (relation "measure (\<lambda>(n, xs). length xs)") auto

declare chunks.simps [simp del]

definition div_ceil :: "nat \<Rightarrow> nat \<Rightarrow> nat outcome" where
  "div_ceil a b = (if b = 0 then Inl Overflow_Panic else Inr ((a + b - 1) div b))"

definition split_shards :: "bytes \<Rightarrow> nat \<Rightarrow> bytes list outcome" where
  \<comment> \<open>\<open>data\<close> in \<open>d\<close> shards of equal size, the last ones padded with zeros\<close>
  "split_shards payload d =
     rbind (div_ceil (length payload) d) (\<lambda>size.
       if size = 0 then Inl (Expect_Panic ''chunk size must be non-zero'')
       else let shards = map (resize size 0) (chunks size payload)
            in Inr (shards @ replicate (d - length shards) (replicate size 0)))"

definition tag_shards :: "fec_config \<Rightarrow> bytes list \<Rightarrow> (byte \<times> bytes) list" where
  "tag_shards cfg shards =
     map (\<lambda>(i, s). (if i < data_shards cfg then PACKET_DATA else PACKET_PARITY, s))
       (zip [0..<length shards] shards)"

definition send_with_fec ::
    "aead_lib \<Rightarrow> rs_lib \<Rightarrow> udp_socket \<Rightarrow> bytes \<Rightarrow> fec_config \<Rightarrow> tunnel \<Rightarrow> (bytes list \<times> bool \<times> tunnel) outcome" where
  "send_with_fec lib rs sock payload cfg t =
     rbind (fec_encoder_new rs cfg) (\<lambda>enc.
     rbind (split_shards payload (data_shards cfg)) (\<lambda>shards.
     rbind (fec_encode rs enc shards) (\<lambda>shards.
     send_all lib sock (tag_shards cfg shards) t)))"

section \<open>Receiving\<close>

definition recv_from :: "bytes \<Rightarrow> bytes \<Rightarrow> nat \<times> bytes" where
  \<comment> \<open>a datagram into the buffer: the number of bytes stored and the buffer\<close>
  "recv_from dgram buf =
     (let n = min (length dgram) (length buf) in (n, take n dgram @ drop n buf))"

datatype recv_result =
    Recv_Short
  | Recv_Truncated u64
  | Recv_Unknown_Peer
  | Recv_Bad_Decrypt u64
  | Recv_Packet node_name received_packet

definition recv_multi ::
    "aead_lib \<Rightarrow> (sock_addr, node_name \<times> tunnel_crypto) dmap \<Rightarrow> bytes \<Rightarrow> sock_addr \<Rightarrow> bytes
     \<Rightarrow> (recv_result \<times> bytes) outcome" where
  \<comment> \<open>one turn of \<open>receive_loop_multi\<close>: the outcome of the datagram and the buffer after it\<close>
  "recv_multi lib peers dgram from buf0 =
     (case recv_from dgram buf0 of (len, buf) \<Rightarrow>
      if len < HEADER_SIZE then Inr (Recv_Short, buf)
      else rbind (decode_header buf) (\<lambda>(packet_type, seq, payload_len).
        let ct_start = HEADER_SIZE; ct_end = ct_start + unat payload_len
        in if len < ct_end then Inr (Recv_Truncated seq, buf)
           else case dm_get peers from of
             None \<Rightarrow> Inr (Recv_Unknown_Peer, buf)
           | Some (peer_id, crypto) \<Rightarrow>
               rbind (slice ct_start ct_end buf) (\<lambda>ciphertext.
               rbind (decrypt lib crypto seq ciphertext) (\<lambda>res.
                 case res of
                   Inr plaintext \<Rightarrow>
                     Inr (Recv_Packet peer_id
                       \<lparr>rp_type = packet_type, rp_seq = seq, rp_payload = plaintext, rp_from = from\<rparr>, buf)
                 | Inl _ \<Rightarrow> Inr (Recv_Bad_Decrypt seq, buf)))))"

text \<open>
  The loop of \<open>receive_loop\<close> that records a loss for every sequence number it skipped:
  \<open>while expected_seq != seq\<close>, in 64-bit arithmetic that wraps.
\<close>

function record_gap :: "u64 \<Rightarrow> u64 \<Rightarrow> loss_tracker \<Rightarrow> (u64 \<times> loss_tracker) outcome" where
  "record_gap expected seq t =
     (if expected = seq then Inr (expected, t)
      else rbind (lt_record False t) (\<lambda>t. record_gap (expected + 1) seq t))"
  by pat_completeness auto
termination
proof (relation "measure (\<lambda>(expected, seq, t). unat (seq - expected))", goal_cases)
  case 1
  show ?case by simp
next
  case (2 expected seq t t')
  then have "seq - expected \<noteq> 0" by simp
  then have "unat (seq - expected - 1) < unat (seq - expected)"
    by (metis measure_unat)
  then show ?case by (simp add: diff_diff_eq)
qed

declare record_gap.simps [simp del]

record recv_state =
  rs_buf :: bytes
  rs_expected :: u64
  rs_tracker :: loss_tracker

definition recv_single ::
    "aead_lib \<Rightarrow> tunnel_crypto \<Rightarrow> bytes \<Rightarrow> sock_addr \<Rightarrow> recv_state
     \<Rightarrow> (recv_result \<times> recv_state) outcome" where
  \<comment> \<open>one turn of \<open>receive_loop\<close>, the tunnel with its own socket\<close>
  "recv_single lib crypto dgram from s =
     (case recv_from dgram (rs_buf s) of (len, buf) \<Rightarrow>
      let s = s\<lparr>rs_buf := buf\<rparr> in
      if len < HEADER_SIZE then Inr (Recv_Short, s)
      else rbind (decode_header buf) (\<lambda>(packet_type, seq, payload_len).
        let ct_start = HEADER_SIZE; ct_end = ct_start + unat payload_len
        in if len < ct_end
           then rbind (lt_record False (rs_tracker s)) (\<lambda>t.
                Inr (Recv_Truncated seq, s\<lparr>rs_tracker := t\<rparr>))
           else
             rbind (record_gap (rs_expected s) seq (rs_tracker s)) (\<lambda>(expected, t).
             rbind (lt_record True t) (\<lambda>t.
             let s = s\<lparr>rs_expected := expected + 1, rs_tracker := t\<rparr>
             in rbind (slice ct_start ct_end buf) (\<lambda>ciphertext.
                rbind (decrypt lib crypto seq ciphertext) (\<lambda>res.
                  case res of
                    Inr plaintext \<Rightarrow>
                      Inr (Recv_Packet []
                        \<lparr>rp_type = packet_type, rp_seq = seq, rp_payload = plaintext, rp_from = from\<rparr>, s)
                  | Inl _ \<Rightarrow>
                      rbind (lt_record False t) (\<lambda>t.
                      Inr (Recv_Bad_Decrypt seq, s\<lparr>rs_tracker := t\<rparr>))))))))"

text \<open>
  The loops themselves, over the list of events the socket yields: an error, or a datagram with its
  source.  The channel to the consumer is open for the packet number \<open>n\<close> when \<open>is_open n\<close>; the loop
  leaves at the first packet it cannot hand over.
\<close>

datatype recv_event = Recv_Error | Recv_Dgram bytes sock_addr

fun receive_loop_multi ::
    "aead_lib \<Rightarrow> (sock_addr, node_name \<times> tunnel_crypto) dmap \<Rightarrow> (nat \<Rightarrow> bool) \<Rightarrow> recv_event list \<Rightarrow>
     nat \<Rightarrow> bytes \<Rightarrow> (node_name \<times> received_packet) list outcome" where
  "receive_loop_multi lib peers is_open [] n buf = Inr []"
| "receive_loop_multi lib peers is_open (Recv_Error # es) n buf = receive_loop_multi lib peers is_open es n buf"
| "receive_loop_multi lib peers is_open (Recv_Dgram dgram from # es) n buf =
     rbind (recv_multi lib peers dgram from buf) (\<lambda>(res, buf).
       case res of
         Recv_Packet pid pkt \<Rightarrow>
           if is_open n
           then rbind (receive_loop_multi lib peers is_open es (Suc n) buf) (\<lambda>ps. Inr ((pid, pkt) # ps))
           else Inr []
       | _ \<Rightarrow> receive_loop_multi lib peers is_open es n buf)"

fun receive_loop ::
    "aead_lib \<Rightarrow> tunnel_crypto \<Rightarrow> (nat \<Rightarrow> bool) \<Rightarrow> recv_event list \<Rightarrow> nat \<Rightarrow> recv_state
     \<Rightarrow> (received_packet list \<times> recv_state) outcome" where
  "receive_loop lib crypto is_open [] n s = Inr ([], s)"
| "receive_loop lib crypto is_open (Recv_Error # es) n s = receive_loop lib crypto is_open es n s"
| "receive_loop lib crypto is_open (Recv_Dgram dgram from # es) n s =
     rbind (recv_single lib crypto dgram from s) (\<lambda>(res, s).
       case res of
         Recv_Packet _ pkt \<Rightarrow>
           if is_open n
           then rbind (receive_loop lib crypto is_open es (Suc n) s) (\<lambda>(ps, s). Inr (pkt # ps, s))
           else Inr ([], s)
       | _ \<Rightarrow> receive_loop lib crypto is_open es n s)"

section \<open>Frames\<close>

lemma build_frame_ok:
  assumes "aead_lawful lib" "length (cipher_key c) = 32" "length payload < 2 ^ 32"
  obtains ct where "encrypt lib c seq payload = Inr ct" "length ct = length payload + 16"
    and "decrypt lib c seq ct = Inr (Inr payload)"
    and "build_frame lib c ptype seq payload = Inr (header_bytes ptype seq (word_of_nat (length ct)) @ ct)"
proof -
  obtain ct where "encrypt lib c seq payload = Inr ct" "length ct = length payload + 16"
    "decrypt lib c seq ct = Inr (Inr payload)"
    using encrypt_ok [OF assms] .
  then show thesis
    by (intro that [of ct]) (simp_all add: build_frame_def HEADER_SIZE_def encode_header_ok slice_write_def)
qed

text \<open>What a receive loop sees of its buffer is the stored part of the datagram.\<close>

lemma decode_header_prefix:
  assumes "11 \<le> n" "n \<le> length buf"
  shows "decode_header buf = decode_header (take n buf)"
proof -
  obtain t s l where "buf = header_bytes t s l @ drop 11 buf"
    using assms by (meson header_bytes_exist le_trans)
  moreover have "take n buf = take 11 buf @ take (n - 11) (drop 11 buf)"
    using assms by (metis take_add le_add_diff_inverse)
  ultimately show ?thesis
    by (metis append_eq_conv_conj decode_header_bytes length_header_bytes)
qed

lemma length_recv_from: "recv_from dgram buf = (n, buf') \<Longrightarrow> length buf' = length buf \<and> n \<le> length buf"
  by (auto simp: recv_from_def Let_def)

lemma take_recv_from: "recv_from dgram buf = (n, buf') \<Longrightarrow> take n buf' = take n dgram \<and> n = min (length dgram) (length buf)"
  by (auto simp: recv_from_def Let_def)

lemma recv_multi_no_panic:
  "length buf0 = MAX_PACKET \<Longrightarrow>
   \<exists>res buf. recv_multi lib peers dgram from buf0 = Inr (res, buf) \<and> length buf = MAX_PACKET"
proof -
  assume len0: "length buf0 = MAX_PACKET"
  obtain n buf where rf: "recv_from dgram buf0 = (n, buf)" by fastforce
  then have len: "length buf = MAX_PACKET" "n \<le> MAX_PACKET"
    using length_recv_from len0 by fastforce+
  show ?thesis
  proof (cases "n < HEADER_SIZE")
    case True
    then show ?thesis by (simp add: recv_multi_def rf len)
  next
    case False
    have "11 \<le> length buf" by (simp add: len MAX_PACKET_eq)
    then obtain t s l where dh: "decode_header buf = Inr (t, s, l)" by (rule decode_header_total)
    have sl: "slice HEADER_SIZE (HEADER_SIZE + unat l) buf = Inr (take (unat l) (drop HEADER_SIZE buf))"
      if "\<not> n < HEADER_SIZE + unat l"
      using that len by (simp add: slice_def)
    let ?ct = "take (unat l) (drop HEADER_SIZE buf)"
    consider "n < HEADER_SIZE + unat l" | "\<not> n < HEADER_SIZE + unat l" "dm_get peers from = None"
      | pid c where "\<not> n < HEADER_SIZE + unat l" "dm_get peers from = Some (pid, c)"
      by (cases "dm_get peers from") auto
    then show ?thesis
    proof cases
      case 3
      obtain r where r: "decrypt lib c s ?ct = Inr r" using decrypt_cases by blast
      show ?thesis
        using 3 False len sl r by (cases r) (simp_all add: recv_multi_def rf dh)
    qed (use False len in \<open>simp_all add: recv_multi_def rf dh\<close>)
  qed
qed

end
