(* ===== verification/Tunnel_Correct.thy ===== *)
theory Tunnel_Correct
  imports Tunnel
begin

text \<open>
  What the tunnel guarantees and what it does not: delivery of payloads up to \<open>MAX_PAYLOAD\<close> and
  loss of every larger one, authenticity of what is accepted, the receive loop's independence of
  its history, the sequence numbers of a run of sends, and the gap loop of the loss tracker.
\<close>

section \<open>Receiving one datagram\<close>

lemma recv_from_full:
  "length dgram \<le> length buf \<Longrightarrow> recv_from dgram buf = (length dgram, dgram @ drop (length dgram) buf)"
  by (simp add: recv_from_def Let_def)

lemma recv_from_cut:
  "length buf < length dgram \<Longrightarrow> recv_from dgram buf = (length buf, take (length buf) dgram)"
  by (simp add: recv_from_def Let_def)

text \<open>A frame that fits the buffer is parsed into its header and its ciphertext.\<close>

lemma recv_multi_frame:
  assumes buf: "length buf0 = MAX_PACKET" and ct: "length ct < 2 ^ 16" "11 + length ct \<le> MAX_PACKET"
    and peer: "dm_get peers from = Some (pid, c)" and dec: "decrypt lib c seq ct = Inr (Inr p)"
  obtains buf where "recv_multi lib peers (header_bytes ty seq (word_of_nat (length ct)) @ ct @ rest) from buf0 =
    Inr (Recv_Packet pid \<lparr>rp_type = ty, rp_seq = seq, rp_payload = p, rp_from = from\<rparr>, buf)"
proof -
  let ?f = "header_bytes ty seq (word_of_nat (length ct)) @ ct @ rest"
  obtain n ys where rf: "recv_from ?f buf0 = (n, header_bytes ty seq (word_of_nat (length ct)) @ ct @ ys)"
    and n: "11 + length ct \<le> n"
  proof (cases "length ?f \<le> length buf0")
    case True
    then show thesis
      using recv_from_full [OF True] by (intro that [of "length ?f" "rest @ drop (length ?f) buf0"]) simp_all
  next
    case False
    then have "recv_from ?f buf0 = (MAX_PACKET, take MAX_PACKET ?f)"
      using recv_from_cut [of buf0 ?f] buf by simp
    then show thesis
      using ct(2) by (intro that [of MAX_PACKET "take (MAX_PACKET - 11 - length ct) rest"]) simp_all
  qed
  have len: "unat (word_of_nat (length ct) :: u16) = length ct" using ct by (simp add: unat_of_nat)
  have sl: "slice 11 (11 + length ct) (header_bytes ty seq l @ ct @ ys) = Inr ct" for l ys
    by (rule slice_append) simp_all
  have "recv_multi lib peers ?f from buf0 =
    Inr (Recv_Packet pid \<lparr>rp_type = ty, rp_seq = seq, rp_payload = p, rp_from = from\<rparr>,
      header_bytes ty seq (word_of_nat (length ct)) @ ct @ ys)"
    using rf n by (simp add: recv_multi_def HEADER_SIZE_def decode_header_bytes len peer sl dec)
  then show thesis by (rule that)
qed

lemma recv_multi_oversize:
  assumes buf: "length buf0 = MAX_PACKET" and ct: "length ct < 2 ^ 16" "MAX_PACKET < 11 + length ct"
  obtains buf where "recv_multi lib peers (header_bytes ty seq (word_of_nat (length ct)) @ ct) from buf0 =
    Inr (Recv_Truncated seq, buf)"
proof -
  let ?f = "header_bytes ty seq (word_of_nat (length ct)) @ ct"
  let ?buf = "take MAX_PACKET ?f"
  have rf: "recv_from ?f buf0 = (MAX_PACKET, ?buf)"
    using recv_from_cut [of buf0 ?f] buf ct by simp
  have len: "unat (word_of_nat (length ct) :: u16) = length ct" using ct by (simp add: unat_of_nat)
  have dh: "decode_header ?buf = Inr (ty, seq, word_of_nat (length ct))"
    by (simp add: MAX_PACKET_eq decode_header_bytes)
  have "recv_multi lib peers ?f from buf0 = Inr (Recv_Truncated seq, ?buf)"
    unfolding recv_multi_def rf using dh ct(2) by (simp add: MAX_PACKET_eq HEADER_SIZE_def len)
  then show thesis by (rule that)
qed

text \<open>The result of a turn is a function of the stored part of the datagram alone.\<close>

lemma recv_multi_history:
  assumes "length buf1 = MAX_PACKET" "length buf2 = MAX_PACKET"
  shows "map_sum id fst (recv_multi lib peers dgram from buf1) =
         map_sum id fst (recv_multi lib peers dgram from buf2)"
proof -
  obtain n b1 where rf1: "recv_from dgram buf1 = (n, b1)" by fastforce
  obtain n2 b2 where rf2': "recv_from dgram buf2 = (n2, b2)" by fastforce
  have n: "n = min (length dgram) MAX_PACKET" "n2 = n"
    using take_recv_from [OF rf1] take_recv_from [OF rf2'] assms by simp_all
  note rf2 = rf2' [unfolded n(2)]
  have tk: "take n b1 = take n b2"
    using take_recv_from [OF rf1, THEN conjunct1] take_recv_from [OF rf2, THEN conjunct1] by (simp only:)
  have bl: "length b1 = MAX_PACKET" "length b2 = MAX_PACKET" "n \<le> MAX_PACKET"
    using length_recv_from [OF rf1] length_recv_from [OF rf2] assms by simp_all
  show ?thesis
  proof (cases "n < HEADER_SIZE")
    case True
    then show ?thesis by (simp add: recv_multi_def rf1 rf2)
  next
    case False
    then have n11: "11 \<le> n" by (simp add: HEADER_SIZE_def)
    have "11 \<le> length b1" using bl by (simp add: MAX_PACKET_eq)
    then obtain t s l where dh1: "decode_header b1 = Inr (t, s, l)" by (rule decode_header_total)
    then have dh2: "decode_header b2 = Inr (t, s, l)"
      using decode_header_prefix [OF n11, of b1] decode_header_prefix [OF n11, of b2] bl tk by simp
    show ?thesis
    proof (cases "n < HEADER_SIZE + unat l \<or> dm_get peers from = None")
      case True
      then show ?thesis using False by (auto simp: recv_multi_def rf1 rf2 dh1 dh2 Let_def)
    next
      case ok: False
      then obtain pid c where pc: "dm_get peers from = Some (pid, c)" by auto
      define ct where "ct = take (unat l) (drop HEADER_SIZE b1)"
      have "slice HEADER_SIZE (HEADER_SIZE + unat l) b1 = Inr ct"
        using ok bl by (simp add: slice_def ct_def)
      moreover from this have "slice HEADER_SIZE (HEADER_SIZE + unat l) b2 = Inr ct"
        using ok bl tk slice_take [of "HEADER_SIZE + unat l" n b1 HEADER_SIZE]
          slice_take [of "HEADER_SIZE + unat l" n b2 HEADER_SIZE] by simp
      moreover obtain r where "decrypt lib c s ct = Inr r" using decrypt_cases by blast
      ultimately show ?thesis
        using ok False by (cases r) (simp_all add: recv_multi_def rf1 rf2 dh1 dh2 pc)
    qed
  qed
qed

text \<open>Inversion of an accepted packet.\<close>

lemma recv_multi_PacketE:
  assumes "recv_multi lib peers dgram from buf0 = Inr (Recv_Packet pid pkt, buf)"
    and buf0: "length buf0 = MAX_PACKET"
  obtains c ct rest where "dm_get peers from = Some (pid, c)" and "rp_from pkt = from"
    and "dgram = header_bytes (rp_type pkt) (rp_seq pkt) (word_of_nat (length ct)) @ ct @ rest"
    and "length ct < 2 ^ 16" and "11 + length ct \<le> MAX_PACKET"
    and "decrypt lib c (rp_seq pkt) ct = Inr (Inr (rp_payload pkt))"
proof -
  obtain n buf1 where rf: "recv_from dgram buf0 = (n, buf1)" by fastforce
  have n: "n = min (length dgram) MAX_PACKET" and tk: "take n buf1 = take n dgram"
    and lb: "length buf1 = MAX_PACKET"
    using take_recv_from [OF rf] length_recv_from [OF rf] buf0 by auto
  from assms(1) have hs: "\<not> n < HEADER_SIZE" by (auto simp: recv_multi_def rf split: if_splits)
  then have "11 \<le> length buf1" using lb by (simp add: MAX_PACKET_eq)
  then obtain t s l where dh: "decode_header buf1 = Inr (t, s, l)" and hb: "take 11 buf1 = header_bytes t s l"
    by (rule decode_header_total)
  from assms(1) have ce: "\<not> n < HEADER_SIZE + unat l" using hs by (auto simp: recv_multi_def rf dh split: if_splits)
  then have sl: "slice HEADER_SIZE (HEADER_SIZE + unat l) buf1 = Inr (take (unat l) (drop HEADER_SIZE buf1))"
    using n lb by (simp add: slice_def)
  define ct where "ct = take (unat l) (drop 11 buf1)"
  obtain pid' c r where pc: "dm_get peers from = Some (pid', c)" and r: "decrypt lib c s ct = Inr r"
    using assms(1) hs ce decrypt_cases by (cases "dm_get peers from") (fastforce simp: recv_multi_def rf dh)+
  from assms(1) have res: "pid' = pid" "r = Inr (rp_payload pkt)" "t = rp_type pkt" "s = rp_seq pkt" "from = rp_from pkt"
    using hs ce r by (auto simp: recv_multi_def rf dh sl [unfolded HEADER_SIZE_def] pc ct_def HEADER_SIZE_def split: sum.splits)
  have lct: "length ct = unat l" using ce n lb by (simp add: ct_def HEADER_SIZE_def)
  have "take (11 + unat l) buf1 = header_bytes t s l @ ct" by (simp add: take_add hb ct_def)
  moreover have "take (11 + unat l) buf1 = take (11 + unat l) dgram"
    using ce tk by (metis HEADER_SIZE_def linorder_not_less take_take min.absorb1)
  ultimately have hd: "take (11 + unat l) dgram = header_bytes t s l @ ct" by (simp only:)
  have "dgram = take (11 + unat l) dgram @ drop (11 + unat l) dgram"
    by (simp only: append_take_drop_id)
  then have "dgram = header_bytes t s (word_of_nat (length ct)) @ ct @ drop (11 + unat l) dgram"
    by (simp only: hd lct append_assoc of_nat_unat ucast_id)
  note D = this [unfolded res(3,4)]
  have L: "length ct < 2 ^ 16" "11 + length ct \<le> MAX_PACKET"
    using lct unsigned_less [of l] ce n by (simp_all add: HEADER_SIZE_def)
  show thesis
    by (rule that [OF _ _ D]) (use L pc res r in simp_all)
qed

text \<open>What one event contributes, read from a fresh buffer.\<close>

definition accepted_packet ::
    "aead_lib \<Rightarrow> (sock_addr, node_name \<times> tunnel_crypto) dmap \<Rightarrow> recv_event \<Rightarrow> (node_name \<times> received_packet) list" where
  "accepted_packet lib peers e =
     (case e of
        Recv_Error \<Rightarrow> []
      | Recv_Dgram dgram from \<Rightarrow>
          (case recv_multi lib peers dgram from (replicate MAX_PACKET 0) of
             Inr (Recv_Packet pid pkt, _) \<Rightarrow> [(pid, pkt)] | _ \<Rightarrow> []))"

lemma receive_loop_multi_stateless:
  "length buf = MAX_PACKET \<Longrightarrow>
   receive_loop_multi lib peers (\<lambda>_. True) es n buf = Inr (concat (map (accepted_packet lib peers) es))"
proof (induction es arbitrary: n buf)
  case Nil
  then show ?case by simp
next
  case (Cons e es)
  show ?case
  proof (cases e)
    case Recv_Error
    then show ?thesis using Cons by (simp add: accepted_packet_def)
  next
    case (Recv_Dgram dgram src)
    obtain res b where r: "recv_multi lib peers dgram src buf = Inr (res, b)" "length b = MAX_PACKET"
      using recv_multi_no_panic [OF Cons.prems] by blast
    obtain res0 b0 where r0: "recv_multi lib peers dgram src (replicate MAX_PACKET 0) = Inr (res0, b0)"
      using recv_multi_no_panic [of "replicate MAX_PACKET 0"] by fastforce
    have "res0 = res"
      using recv_multi_history [OF Cons.prems, of "replicate MAX_PACKET 0" lib peers dgram src] r r0 by simp
    then show ?thesis
      using Cons.IH [OF r(2)] r(1) r0
      by (cases res) (simp_all add: Recv_Dgram accepted_packet_def)
  qed
qed

section \<open>Runs of sends\<close>

fun send_many :: "aead_lib \<Rightarrow> udp_socket \<Rightarrow> (byte \<times> bytes) list \<Rightarrow> tunnel \<Rightarrow> (bytes list \<times> tunnel) outcome" where
  \<comment> \<open>any callers of \<open>send\<close>, one after the other, ignoring socket errors\<close>
  "send_many lib sock [] t = Inr ([], t)"
| "send_many lib sock ((ty, p) # ps) t =
     rbind (send lib sock ty p t) (\<lambda>(f, _, t).
     rbind (send_many lib sock ps t) (\<lambda>(fs, t). Inr (f # fs, t)))"

definition frame_seq :: "bytes \<Rightarrow> u64" where
  "frame_seq f = (case decode_header f of Inr (_, s, _) \<Rightarrow> s | Inl _ \<Rightarrow> 0)"

lemma build_frame_shape:
  assumes "build_frame lib c ty seq p = Inr f"
  obtains ct where "encrypt lib c seq p = Inr ct" and "f = header_bytes ty seq (word_of_nat (length ct)) @ ct"
  using assms
  by (auto simp: build_frame_def rbind_eq_Inr_iff encode_header_ok HEADER_SIZE_def slice_write_def Let_def)

lemma send_shape:
  assumes "send lib sock ty p t = Inr (f, ok, t')"
  obtains ct where "encrypt lib (tun_crypto t) (tun_tx_seq t) p = Inr ct"
    and "f = header_bytes ty (tun_tx_seq t) (word_of_nat (length ct)) @ ct"
    and "t' = snd (next_seq t)" and "ok = sock (tun_peer_addr t) f"
  using assms build_frame_shape
  by (auto simp: send_def next_seq_def fetch_add_def rbind_eq_Inr_iff elim!: build_frame_shape)

lemma send_ok:
  assumes "aead_lawful lib" "length (cipher_key (tun_crypto t)) = 32" "length p < 2 ^ 32"
  obtains ct where "decrypt lib (tun_crypto t) (tun_tx_seq t) ct = Inr (Inr p)" and "length ct = length p + 16"
    and "send lib sock ty p t =
      Inr (header_bytes ty (tun_tx_seq t) (word_of_nat (length ct)) @ ct,
        sock (tun_peer_addr t) (header_bytes ty (tun_tx_seq t) (word_of_nat (length ct)) @ ct), snd (next_seq t))"
proof -
  obtain ct where "encrypt lib (tun_crypto t) (tun_tx_seq t) p = Inr ct" "length ct = length p + 16"
    "decrypt lib (tun_crypto t) (tun_tx_seq t) ct = Inr (Inr p)"
    "build_frame lib (tun_crypto t) ty (tun_tx_seq t) p =
       Inr (header_bytes ty (tun_tx_seq t) (word_of_nat (length ct)) @ ct)"
    using build_frame_ok [OF assms] .
  then show thesis
    by (intro that [of ct]) (simp_all add: send_def next_seq_def fetch_add_def)
qed

lemma frame_seq_header [simp]: "frame_seq (header_bytes ty s l @ rest) = s"
  by (simp add: frame_seq_def decode_header_bytes)

lemma send_many_seqs:
  "send_many lib sock ps t = Inr (fs, t') \<Longrightarrow> map frame_seq fs = tickets next_seq (length ps) t"
proof (induction ps arbitrary: t fs)
  case Nil
  then show ?case by simp
next
  case (Cons a ps)
  obtain ty p where a: "a = (ty, p)" by (cases a)
  from Cons.prems obtain f ok t1 fs' where s: "send lib sock ty p t = Inr (f, ok, t1)"
    and m: "send_many lib sock ps t1 = Inr (fs', t')" and fs: "fs = f # fs'"
    by (auto simp: a rbind_eq_Inr_iff)
  have "frame_seq f = fst (next_seq t)" "t1 = snd (next_seq t)"
    using s by (auto elim!: send_shape simp: tx_seq.draw_value)
  then show ?case using Cons.IH [OF m] by (simp add: fs)
qed

lemma next_seq_crypto [simp]: "tun_crypto (snd (next_seq t)) = tun_crypto t"
  by (simp add: next_seq_def fetch_add_def)

lemma send_many_total:
  assumes "aead_lawful lib"
  shows "length (cipher_key (tun_crypto t)) = 32 \<Longrightarrow> \<forall>(ty, p) \<in> set ps. length p < 2 ^ 32 \<Longrightarrow>
    \<exists>fs t'. send_many lib sock ps t = Inr (fs, t')"
proof (induction ps arbitrary: t)
  case Nil
  then show ?case by simp
next
  case (Cons a ps)
  obtain ty p where a: "a = (ty, p)" by (cases a)
  have "length p < 2 ^ 32" using Cons.prems(2) by (simp add: a)
  then obtain f ok where "send lib sock ty p t = Inr (f, ok, snd (next_seq t))"
    using send_ok [OF assms Cons.prems(1)] by metis
  moreover obtain fs t' where "send_many lib sock ps (snd (next_seq t)) = Inr (fs, t')"
    using Cons.IH [of "snd (next_seq t)"] Cons.prems by auto
  ultimately show ?case by (simp add: a)
qed

section \<open>The gap loop\<close>

lemma record_gap_eq:
  "record_gap e s t = rbind (lt_record_all (replicate (unat (s - e)) False) t) (\<lambda>t. Inr (s, t))"
proof (induction e s t rule: record_gap.induct)
  case (1 e s t)
  show ?case
  proof (cases "e = s")
    case True
    then show ?thesis by (simp add: record_gap.simps [of s s])
  next
    case False
    then have "s - e \<noteq> 0" by simp
    then have "unat (s - e - 1) = unat (s - e) - 1" "0 < unat (s - e)"
      by (simp_all add: unat_minus_one unat_gt_0)
    moreover have "s - (e + 1) = s - e - 1" by (simp only: diff_diff_eq)
    ultimately have n: "unat (s - e) = Suc (unat (s - (e + 1)))" by (simp only:)
    have "rbind (lt_record False t) (\<lambda>t. record_gap (e + 1) s t) =
      rbind (lt_record False t) (\<lambda>t. rbind (lt_record_all (replicate (unat (s - (e + 1))) False) t) (\<lambda>t. Inr (s, t)))"
      using False 1 by (intro rbind_cong) simp_all
    then show ?thesis
      using False n by (simp add: record_gap.simps [of e s] rbind_assoc)
  qed
qed

lemma record_gap_view:
  assumes "lt_view h t"
  obtains t' where "record_gap e s t = Inr (s, t')"
    and "lt_view (drop (unat (s - e)) (h @ replicate (unat (s - e)) False)) t'"
  using lt_record_all_view [OF assms, of "replicate (unat (s - e)) False"]
  by (auto simp: record_gap_eq)

section \<open>Splitting a block for \<open>send_with_fec\<close>\<close>

lemma concat_chunks: "0 < n \<Longrightarrow> concat (chunks n xs) = xs"
proof (induction n xs rule: chunks.induct)
  case (1 n xs)
  then show ?case by (subst chunks.simps) simp
qed

lemma chunks_bound: "0 < n \<Longrightarrow> c \<in> set (chunks n xs) \<Longrightarrow> 0 < length c \<and> length c \<le> n"
proof (induction n xs rule: chunks.induct)
  case (1 n xs)
  then show ?case by (subst (asm) (2) chunks.simps) (auto split: if_splits)
qed

lemma length_chunks_bound: "0 < n \<Longrightarrow> length xs \<le> n * k \<Longrightarrow> length (chunks n xs) \<le> k"
proof (induction n xs arbitrary: k rule: chunks.induct)
  case (1 n xs)
  show ?case
  proof (cases "xs = []")
    case True
    then show ?thesis by (simp add: chunks.simps [of n "[]"])
  next
    case False
    with "1.prems" obtain j where k: "k = Suc j" by (cases k) auto
    have "length (drop n xs) \<le> n * j" using "1.prems" by (simp add: k algebra_simps)
    then have "length (chunks n (drop n xs)) \<le> j"
      using "1.IH" [of j] "1.prems" False by simp
    then show ?thesis using "1.prems" False by (simp add: chunks.simps [of n xs] k)
  qed
qed

lemma chunks_padded:
  "0 < n \<Longrightarrow> take (length xs) (concat (map (resize n z) (chunks n xs)) @ ys) = xs"
proof (induction n xs rule: chunks.induct)
  case (1 n xs)
  consider "xs = []" | "xs \<noteq> []" "length xs \<le> n" | "n < length xs" by linarith
  then show ?case
  proof cases
    case 1
    then show ?thesis by (simp add: chunks.simps [of n "[]"])
  next
    case 2
    then show ?thesis
      using "1.prems" by (simp add: chunks.simps [of n xs] chunks.simps [of n "[]"] resize_pad)
  next
    case 3
    then have "take (length (drop n xs)) (concat (map (resize n z) (chunks n (drop n xs))) @ ys) = drop n xs"
      using "1.IH" "1.prems" by (cases "xs = []") auto
    moreover have "resize n z (take n xs) = take n xs" using 3 by (simp add: resize_def)
    ultimately show ?thesis
      using 3 "1.prems" append_take_drop_id [of n xs]
      by (cases "xs = []") (simp_all add: chunks.simps [of n xs])
  qed
qed

lemma div_ceil_bound: "0 < d \<Longrightarrow> n \<le> (n + d - 1) div d * (d :: nat)"
proof -
  assume d: "0 < d"
  have "(n + d - 1) div d * d + (n + d - 1) mod d = n + d - 1" by simp
  moreover have "(n + d - 1) mod d < d" using d by simp
  ultimately show ?thesis by linarith
qed

lemma split_shards_size:
  assumes "split_shards data d = Inr shards" "s \<in> set shards"
  shows "length s = (length data + d - 1) div d"
  using assms by (auto simp: split_shards_def div_ceil_def rbind_eq_Inr_iff Let_def split: if_splits)

lemma split_shards_ok:
  assumes "0 < d" "xs \<noteq> []"
  obtains shards n where "split_shards xs d = Inr shards" "length shards = d" "0 < n"
    "\<forall>s \<in> set shards. length s = n" "take (length xs) (concat shards) = xs"
proof -
  define n where "n = (length xs + d - 1) div d"
  have le: "length xs \<le> n * d" unfolding n_def using assms(1) by (rule div_ceil_bound)
  then have n: "0 < n" using assms(2) by (cases n) auto
  have c: "length (chunks n xs) \<le> d" using n le by (rule length_chunks_bound)
  let ?s = "map (resize n 0) (chunks n xs) @ replicate (d - length (chunks n xs)) (replicate n 0)"
  show thesis
  proof (rule that [of ?s n])
    have "div_ceil (length xs) d = Inr n" using assms by (simp add: div_ceil_def n_def)
    then show "split_shards xs d = Inr ?s" using n by (simp add: split_shards_def)
    show "take (length xs) (concat ?s) = xs" using chunks_padded [OF n] by simp
  qed (use n c in auto)
qed

section \<open>The receive loop of one tunnel\<close>

lemma recv_single_frame:
  assumes buf: "length (rs_buf s) = MAX_PACKET" and ct: "length ct < 2 ^ 16" "11 + length ct \<le> MAX_PACKET"
    and dec: "decrypt lib c seq ct = Inr (Inr p)" and view: "lt_view h (rs_tracker s)"
  obtains s' where
    "recv_single lib c (header_bytes ty seq (word_of_nat (length ct)) @ ct) from s =
       Inr (Recv_Packet [] \<lparr>rp_type = ty, rp_seq = seq, rp_payload = p, rp_from = from\<rparr>, s')"
    and "rs_expected s' = seq + 1" and "length (rs_buf s') = MAX_PACKET"
    and "lt_view (drop (Suc (unat (seq - rs_expected s)))
           (h @ replicate (unat (seq - rs_expected s)) False @ [True])) (rs_tracker s')"
proof -
  let ?f = "header_bytes ty seq (word_of_nat (length ct)) @ ct" and ?g = "unat (seq - rs_expected s)"
  let ?buf = "?f @ drop (length ?f) (rs_buf s)"
  have rf: "recv_from ?f (rs_buf s) = (11 + length ct, ?buf)"
    using recv_from_full [of ?f "rs_buf s"] buf ct by simp
  have len: "unat (word_of_nat (length ct) :: u16) = length ct" using ct by (simp add: unat_of_nat)
  have sl: "slice 11 (11 + length ct) (header_bytes ty seq l @ ct @ ys) = Inr ct" for l ys
    by (rule slice_append) simp_all
  obtain t1 where t1: "record_gap (rs_expected s) seq (rs_tracker s) = Inr (seq, t1)"
    "lt_view (drop ?g (h @ replicate ?g False)) t1"
    using record_gap_view [OF view] .
  obtain t2 where t2: "lt_record True t1 = Inr t2" "lt_view (tl (drop ?g (h @ replicate ?g False)) @ [True]) t2"
    using lt_record_view [OF t1(2)] .
  have "h \<noteq> []" using view by (simp add: lt_view_def)
  then have "tl (drop ?g (h @ replicate ?g False)) @ [True] = drop (Suc ?g) (h @ replicate ?g False @ [True])"
    by (cases h) (simp_all add: drop_Suc tl_drop)
  with t2(2) have v: "lt_view (drop (Suc ?g) (h @ replicate ?g False @ [True])) t2" by (simp only:)
  let ?s' = "s\<lparr>rs_buf := ?buf, rs_expected := seq + 1, rs_tracker := t2\<rparr>"
  have "recv_single lib c ?f from s =
    Inr (Recv_Packet [] \<lparr>rp_type = ty, rp_seq = seq, rp_payload = p, rp_from = from\<rparr>, ?s')"
    using rf by (simp add: recv_single_def HEADER_SIZE_def decode_header_bytes len sl dec t1(1) t2(1))
  then show thesis
    by (rule that) (use v buf ct in simp_all)
qed

section \<open>A concrete exchange for the witnesses\<close>

definition demo_tunnel :: tunnel where
  "demo_tunnel = tunnel_new (1, 9000) (replicate 32 5)"

definition demo_peers :: "(sock_addr, node_name \<times> tunnel_crypto) dmap" where
  "demo_peers = [((2, 9001), (''lon'', tun_crypto demo_tunnel))]"

definition demo_ct :: bytes where
  "demo_ct = [1, 2, 3] @ demo_tag (replicate 32 5) (nonce_of 0)"

definition demo_rest :: bytes where
  \<comment> \<open>the frame behind its packet type\<close>
  "demo_rest = u64_to_le 0 @ u16_to_le (word_of_nat (length demo_ct)) @ demo_ct"

definition demo_packet :: received_packet where
  "demo_packet = \<lparr>rp_type = PACKET_DATA, rp_seq = 0, rp_payload = [1, 2, 3], rp_from = (2, 9001)\<rparr>"

lemma demo_tunnel_simps [simp]:
  "tun_crypto demo_tunnel = \<lparr>cipher_key = replicate 32 5\<rparr>" "tun_tx_seq demo_tunnel = 0"
  "tun_peer_addr demo_tunnel = (1, 9000)"
  by (simp_all add: demo_tunnel_def tunnel_new_def crypto_new_def)

lemma demo_peer: "dm_get demo_peers (2, 9001) = Some (''lon'', tun_crypto demo_tunnel)"
  by (simp add: demo_peers_def dm_get_def)

lemma length_demo_ct: "length demo_ct = 19"
  by (simp add: demo_ct_def demo_tag_def)

lemma demo_decrypts: "decrypt demo_aead (tun_crypto demo_tunnel) 0 demo_ct = Inr (Inr [1, 2, 3])"
  by (simp add: decrypt_def make_nonce_eq demo_aead_def demo_ct_def demo_tag_def)

lemma demo_accepted:
  obtains buf where "recv_multi demo_aead demo_peers (PACKET_DATA # demo_rest) (2, 9001) (replicate MAX_PACKET b) =
    Inr (Recv_Packet ''lon'' demo_packet, buf)"
proof -
  have "PACKET_DATA # demo_rest = header_bytes PACKET_DATA 0 (word_of_nat (length demo_ct)) @ demo_ct @ []"
    by (simp add: demo_rest_def header_bytes_def)
  moreover have "\<exists>buf. recv_multi demo_aead demo_peers
      (header_bytes PACKET_DATA 0 (word_of_nat (length demo_ct)) @ demo_ct @ []) (2, 9001) (replicate MAX_PACKET b) =
    Inr (Recv_Packet ''lon'' demo_packet, buf)"
    by (rule recv_multi_frame [OF _ _ _ demo_peer demo_decrypts, of "replicate MAX_PACKET b" PACKET_DATA "[]"])
      (simp_all add: MAX_PACKET_eq length_demo_ct demo_packet_def)
  ultimately show thesis using that by auto
qed

section \<open>Properties\<close>

text \<open>Wire header round trip: \<open>encode_header\<close> over a buffer of at least 11 bytes is read back by
  \<open>decode_header\<close> and keeps the bytes behind the header; over a shorter buffer both panic.\<close>

theorem wire_header_roundtrip:
  "if HEADER_SIZE \<le> length buf
   then \<exists>out. encode_header buf ty seq l = Inr out \<and> length out = length buf \<and>
          drop HEADER_SIZE out = drop HEADER_SIZE buf \<and> decode_header out = Inr (ty, seq, l)
   else encode_header buf ty seq l = Inl Index_Panic \<and> decode_header buf = Inl Index_Panic"
  by (simp add: HEADER_SIZE_def encode_header_ok decode_header_bytes encode_header_panic decode_header_panic)

text \<open>C9. Tunnel round trip: a payload of at most \<open>MAX_PAYLOAD\<close> bytes, sent by a tunnel and received
  by a node that maps the sender's address to a peer with the same key, comes out as the same
  payload with the same packet type, the tunnel's sequence number and that peer's name, whatever
  the receive buffer held before; the tunnel's counter advances by one.\<close>

theorem tunnel_delivers:
  assumes "aead_lawful lib" "length (cipher_key (tun_crypto t)) = KEY_SIZE"
    and "length p \<le> MAX_PAYLOAD" "dm_get peers from = Some (pid, tun_crypto t)"
    and "length buf0 = MAX_PACKET"
  shows "\<exists>f ok t' buf. send lib sock ty p t = Inr (f, ok, t') \<and> tun_tx_seq t' = tun_tx_seq t + 1 \<and>
    recv_multi lib peers f from buf0 =
      Inr (Recv_Packet pid \<lparr>rp_type = ty, rp_seq = tun_tx_seq t, rp_payload = p, rp_from = from\<rparr>, buf)"
proof -
  have p: "length p < 2 ^ 32" "length p \<le> 1400" using assms(3) by (simp_all add: MAX_PAYLOAD_def)
  obtain ct where ct: "decrypt lib (tun_crypto t) (tun_tx_seq t) ct = Inr (Inr p)" "length ct = length p + 16"
    and s: "send lib sock ty p t =
      Inr (header_bytes ty (tun_tx_seq t) (word_of_nat (length ct)) @ ct,
        sock (tun_peer_addr t) (header_bytes ty (tun_tx_seq t) (word_of_nat (length ct)) @ ct), snd (next_seq t))"
    using send_ok [OF assms(1) _ p(1), where ty = ty and sock = sock] assms(2) by (auto simp: KEY_SIZE_def)
  have "length ct < 2 ^ 16" "11 + length ct \<le> MAX_PACKET"
    using ct(2) p(2) by (simp_all add: MAX_PACKET_eq)
  from recv_multi_frame [OF assms(5) this assms(4) ct(1), where ty = ty and rest = "[]"]
  obtain buf where "recv_multi lib peers (header_bytes ty (tun_tx_seq t) (word_of_nat (length ct)) @ ct) from buf0 =
      Inr (Recv_Packet pid \<lparr>rp_type = ty, rp_seq = tun_tx_seq t, rp_payload = p, rp_from = from\<rparr>, buf)"
    by auto
  with s show ?thesis by (simp add: tx_seq.draw_step)
qed

theorem tunnel_delivers_witness:
  "\<exists>f ok t' buf. send demo_aead (\<lambda>_ _. True) PACKET_DATA [1, 2, 3] demo_tunnel = Inr (f, ok, t') \<and>
    recv_multi demo_aead demo_peers f (2, 9001) (replicate MAX_PACKET 0) = Inr (Recv_Packet ''lon'' demo_packet, buf)"
  using tunnel_delivers [OF demo_aead_lawful _ _ demo_peer, of "[1, 2, 3]" "replicate MAX_PACKET 0"
      "\<lambda>_ _. True" PACKET_DATA]
  by (auto simp: KEY_SIZE_def MAX_PAYLOAD_def demo_packet_def)

text \<open>Every larger payload is lost: above \<open>MAX_PAYLOAD\<close> (and up to what the length field can
  carry) \<open>send\<close> reports no error, and the receive loop, whose buffer is \<open>MAX_PACKET\<close> bytes, drops
  the frame as truncated.\<close>

theorem tunnel_drops_oversize:
  assumes "aead_lawful lib" "length (cipher_key (tun_crypto t)) = KEY_SIZE"
    and "MAX_PAYLOAD < length p" "length p \<le> 65519" "length buf0 = MAX_PACKET"
  shows "\<exists>f t' buf. send lib sock ty p t = Inr (f, sock (tun_peer_addr t) f, t') \<and>
    recv_multi lib peers f from buf0 = Inr (Recv_Truncated (tun_tx_seq t), buf)"
proof -
  have p: "length p < 2 ^ 32" "1400 < length p" using assms(3,4) by (simp_all add: MAX_PAYLOAD_def)
  obtain ct where ct: "length ct = length p + 16"
    and s: "send lib sock ty p t =
      Inr (header_bytes ty (tun_tx_seq t) (word_of_nat (length ct)) @ ct,
        sock (tun_peer_addr t) (header_bytes ty (tun_tx_seq t) (word_of_nat (length ct)) @ ct), snd (next_seq t))"
    using send_ok [OF assms(1) _ p(1), where ty = ty and sock = sock] assms(2) by (auto simp: KEY_SIZE_def)
  have "length ct < 2 ^ 16" "MAX_PACKET < 11 + length ct"
    using ct p(2) assms(4) by (simp_all add: MAX_PACKET_eq)
  from recv_multi_oversize [OF assms(5) this, of lib peers ty "tun_tx_seq t"] s show ?thesis by metis
qed

theorem tunnel_drops_oversize_witness:
  "\<exists>f t' buf. send demo_aead (\<lambda>_ _. True) PACKET_DATA (replicate 1401 7) demo_tunnel = Inr (f, True, t') \<and>
    recv_multi demo_aead [] f (2, 9001) (replicate MAX_PACKET 0) = Inr (Recv_Truncated 0, buf)"
  using tunnel_drops_oversize [OF demo_aead_lawful, of demo_tunnel "replicate 1401 7" "replicate MAX_PACKET 0"
      "\<lambda>_ _. True" PACKET_DATA "[]" "(2, 9001)"]
  by (auto simp: KEY_SIZE_def MAX_PAYLOAD_def)

text \<open>C23. Authenticity: a packet that the receive loop accepts was addressed from a known peer, and
  its payload, of at most \<open>MAX_PAYLOAD\<close> bytes, is the one whose encryption under that peer's key
  and the packet's sequence number is the ciphertext of the datagram.\<close>

theorem tunnel_accepts_only_encrypted:
  assumes "aead_lawful lib" "length buf0 = MAX_PACKET"
    and "recv_multi lib peers dgram from buf0 = Inr (Recv_Packet pid pkt, buf)"
  shows "\<exists>c ct rest. dm_get peers from = Some (pid, c) \<and>
    encrypt lib c (rp_seq pkt) (rp_payload pkt) = Inr ct \<and> length (rp_payload pkt) \<le> MAX_PAYLOAD \<and>
    dgram = header_bytes (rp_type pkt) (rp_seq pkt) (word_of_nat (length ct)) @ ct @ rest"
proof -
  obtain c ct rest where r: "dm_get peers from = Some (pid, c)"
    "dgram = header_bytes (rp_type pkt) (rp_seq pkt) (word_of_nat (length ct)) @ ct @ rest"
    "11 + length ct \<le> MAX_PACKET" "decrypt lib c (rp_seq pkt) ct = Inr (Inr (rp_payload pkt))"
    using recv_multi_PacketE [OF assms(3,2)] by metis
  have e: "encrypt lib c (rp_seq pkt) (rp_payload pkt) = Inr ct"
    using decrypt_authentic [OF assms(1) r(4)] .
  then have "length ct = length (rp_payload pkt) + 16" by (rule encrypt_length [OF assms(1)])
  then have "length (rp_payload pkt) \<le> MAX_PAYLOAD" using r(3) by (simp add: MAX_PACKET_eq MAX_PAYLOAD_def)
  with r e show ?thesis by blast
qed

theorem tunnel_accepts_only_encrypted_witness:
  "\<exists>c ct rest. dm_get demo_peers (2, 9001) = Some (''lon'', c) \<and>
    encrypt demo_aead c (rp_seq demo_packet) (rp_payload demo_packet) = Inr ct \<and>
    length (rp_payload demo_packet) \<le> MAX_PAYLOAD \<and>
    PACKET_DATA # demo_rest =
      header_bytes (rp_type demo_packet) (rp_seq demo_packet) (word_of_nat (length ct)) @ ct @ rest"
proof -
  obtain buf where "recv_multi demo_aead demo_peers (PACKET_DATA # demo_rest) (2, 9001) (replicate MAX_PACKET 0) =
    Inr (Recv_Packet ''lon'' demo_packet, buf)"
    by (rule demo_accepted)
  from tunnel_accepts_only_encrypted [OF demo_aead_lawful _ this] show ?thesis by simp
qed

text \<open>C40. Replay: the receive loop keeps no memory of sequence numbers. A datagram that was accepted
  once is accepted again as the same packet, whatever was received in between.\<close>

theorem tunnel_accepts_replay:
  assumes "length buf1 = MAX_PACKET" "length buf2 = MAX_PACKET"
    and "recv_multi lib peers dgram from buf1 = Inr (Recv_Packet pid pkt, buf1')"
  shows "\<exists>buf2'. recv_multi lib peers dgram from buf2 = Inr (Recv_Packet pid pkt, buf2')"
  using recv_multi_history [OF assms(1,2), of lib peers dgram "from"] assms(3)
  by (cases "recv_multi lib peers dgram from buf2") (auto simp: map_sum_def)

theorem tunnel_accepts_replay_witness:
  "\<exists>buf. recv_multi demo_aead demo_peers (PACKET_DATA # demo_rest) (2, 9001) (replicate MAX_PACKET 9) =
    Inr (Recv_Packet ''lon'' demo_packet, buf)"
proof -
  obtain buf where "recv_multi demo_aead demo_peers (PACKET_DATA # demo_rest) (2, 9001) (replicate MAX_PACKET 0) =
    Inr (Recv_Packet ''lon'' demo_packet, buf)"
    by (rule demo_accepted)
  from tunnel_accepts_replay [OF _ _ this] show ?thesis by simp
qed

text \<open>The packet type is not authenticated: whoever rewrites the first byte of a frame on the way
  chooses the packet type the receiver sees, for the same payload and sequence number.\<close>

theorem tunnel_packet_type_malleable:
  assumes "length buf0 = MAX_PACKET"
    and "recv_multi lib peers (ty # rest) from buf0 = Inr (Recv_Packet pid pkt, buf)"
  shows "\<exists>buf'. recv_multi lib peers (ty' # rest) from buf0 = Inr (Recv_Packet pid (pkt\<lparr>rp_type := ty'\<rparr>), buf')"
proof -
  obtain c ct tl where r: "dm_get peers from = Some (pid, c)" "rp_from pkt = from"
    "ty # rest = header_bytes (rp_type pkt) (rp_seq pkt) (word_of_nat (length ct)) @ ct @ tl"
    "length ct < 2 ^ 16" "11 + length ct \<le> MAX_PACKET" "decrypt lib c (rp_seq pkt) ct = Inr (Inr (rp_payload pkt))"
    using recv_multi_PacketE [OF assms(2,1)] by metis
  have f: "ty' # rest = header_bytes ty' (rp_seq pkt) (word_of_nat (length ct)) @ ct @ tl"
    using r(3) by (simp add: header_bytes_def)
  have "pkt\<lparr>rp_type := ty'\<rparr> =
      \<lparr>rp_type = ty', rp_seq = rp_seq pkt, rp_payload = rp_payload pkt, rp_from = from\<rparr>"
    using r(2) by simp
  then show ?thesis
    using recv_multi_frame [OF assms(1) r(4,5,1,6), of ty' tl] unfolding f by metis
qed

theorem tunnel_packet_type_malleable_witness:
  "\<exists>buf. recv_multi demo_aead demo_peers (PACKET_PONG # demo_rest) (2, 9001) (replicate MAX_PACKET 0) =
    Inr (Recv_Packet ''lon'' (demo_packet\<lparr>rp_type := PACKET_PONG\<rparr>), buf)"
proof -
  obtain buf where "recv_multi demo_aead demo_peers (PACKET_DATA # demo_rest) (2, 9001) (replicate MAX_PACKET 0) =
    Inr (Recv_Packet ''lon'' demo_packet, buf)"
    by (rule demo_accepted)
  from tunnel_packet_type_malleable [OF _ this] show ?thesis by simp
qed

text \<open>The receive loop never panics and keeps its buffer's size, whatever datagram arrives from
  whatever address, well formed or not.\<close>

theorem recv_multi_total:
  assumes "length buf0 = MAX_PACKET"
  shows "\<exists>res buf. recv_multi lib peers dgram from buf0 = Inr (res, buf) \<and> length buf = MAX_PACKET"
  using recv_multi_no_panic [OF assms] .

theorem recv_multi_total_witness:
  "\<exists>res buf. recv_multi demo_aead demo_peers [3, 1, 4] (7, 7) (replicate MAX_PACKET 0) = Inr (res, buf)"
  using recv_multi_total [of "replicate MAX_PACKET 0" demo_aead demo_peers "[3, 1, 4]" "(7, 7)"] by auto

text \<open>C22. The multiplexed receive loop is a map over its datagrams: it never panics, and what it hands
  on, in order, is exactly the packet each datagram yields by itself from an empty buffer. Nothing a
  datagram leaves in the shared buffer reaches the next.\<close>

theorem receive_loop_multi_is_map:
  assumes "length buf = MAX_PACKET"
  shows "receive_loop_multi lib peers (\<lambda>_. True) es n buf = Inr (concat (map (accepted_packet lib peers) es))"
  using receive_loop_multi_stateless [OF assms] .

theorem receive_loop_multi_is_map_witness:
  "receive_loop_multi demo_aead demo_peers (\<lambda>_. True) [Recv_Error, Recv_Dgram [1, 2] (2, 9001)] 0
    (replicate MAX_PACKET 7) = Inr []"
  using receive_loop_multi_is_map [of "replicate MAX_PACKET 7" demo_aead demo_peers
      "[Recv_Error, Recv_Dgram [1, 2] (2, 9001)]" 0]
  by (simp add: accepted_packet_def recv_multi_def recv_from_def Let_def HEADER_SIZE_def MAX_PACKET_eq
      del: receive_loop_multi.simps)

text \<open>Any run of sends of one tunnel, up to \<open>2 ^ 64\<close> of them, carries distinct sequence numbers, so
  a tunnel never encrypts two payloads under the same nonce.\<close>

theorem tunnel_seqs_distinct:
  assumes "send_many lib sock ps t = Inr (fs, t')" "length ps \<le> 2 ^ 64"
  shows "distinct (map frame_seq fs) \<and> distinct (map (\<lambda>f. make_nonce (frame_seq f)) fs)"
proof -
  have d: "distinct (map frame_seq fs)"
    unfolding send_many_seqs [OF assms(1)] using assms(2) by (intro tx_seq.tickets_distinct) simp
  moreover have "distinct (map make_nonce (map frame_seq fs))"
    using d by (simp add: distinct_map inj_on_def make_nonce_eq nonce_of_inject del: map_map)
  ultimately show ?thesis by (simp add: comp_def)
qed

theorem tunnel_seqs_distinct_witness:
  "\<exists>fs t'. send_many demo_aead (\<lambda>_ _. False) [(PACKET_PING, [1]), (PACKET_PING, [1])] demo_tunnel = Inr (fs, t') \<and>
    distinct (map frame_seq fs)"
proof -
  let ?ps = "[(PACKET_PING, [1]), (PACKET_PING, [1])]"
  obtain fs t' where "send_many demo_aead (\<lambda>_ _. False) ?ps demo_tunnel = Inr (fs, t')"
    using send_many_total [OF demo_aead_lawful, of demo_tunnel ?ps "\<lambda>_ _. False"]
    by (auto simp del: send_many.simps)
  with tunnel_seqs_distinct [OF this] show ?thesis by (intro exI conjI) (assumption, simp)
qed

text \<open>C39. Two fresh tunnels with the same key, as at the two ends of one link, encrypt their first
  payloads under the same key and the same nonce: each has its own counter, both start at zero, and
  the nonce holds nothing but the counter.\<close>

theorem tunnels_share_first_nonce:
  assumes "send lib sock1 ty1 p (tunnel_new addr1 key) = Inr (f, ok1, t1)"
    and "send lib sock2 ty2 q (tunnel_new addr2 key) = Inr (g, ok2, t2)"
  shows "\<exists>nonce. make_nonce (frame_seq f) = Inr nonce \<and> make_nonce (frame_seq g) = Inr nonce \<and>
    aead_encrypt lib key nonce p = Some (drop HEADER_SIZE f) \<and>
    aead_encrypt lib key nonce q = Some (drop HEADER_SIZE g)"
proof -
  have "aead_encrypt lib key (nonce_of 0) m = Some (drop HEADER_SIZE h) \<and> frame_seq h = 0"
    if s: "send lib sock ty m (tunnel_new addr key) = Inr (h, ok, t)" for sock ty m addr h ok t
    using s by (rule send_shape)
      (auto simp: tunnel_new_def crypto_new_def encrypt_def make_nonce_eq HEADER_SIZE_def split: option.splits)
  from this [OF assms(1)] this [OF assms(2)] show ?thesis by (simp add: make_nonce_eq)
qed

theorem tunnels_share_first_nonce_witness:
  "\<exists>f g ok1 t1 ok2 t2 nonce.
    send demo_aead (\<lambda>_ _. True) PACKET_PING [1] (tunnel_new (1, 9000) (replicate 32 5)) = Inr (f, ok1, t1) \<and>
    send demo_aead (\<lambda>_ _. True) PACKET_DATA [8, 9] (tunnel_new (2, 9001) (replicate 32 5)) = Inr (g, ok2, t2) \<and>
    aead_encrypt demo_aead (replicate 32 5) nonce [1] = Some (drop HEADER_SIZE f) \<and>
    aead_encrypt demo_aead (replicate 32 5) nonce [8, 9] = Some (drop HEADER_SIZE g)"
proof -
  have s: "\<exists>f ok t. send demo_aead (\<lambda>_ _. True) ty m (tunnel_new addr (replicate 32 5)) = Inr (f, ok, t)"
    if "length m < 2 ^ 32" for ty m addr
  proof -
    have "length (cipher_key (tun_crypto (tunnel_new addr (replicate 32 5)))) = 32"
      by (simp add: tunnel_new_def crypto_new_def)
    then show ?thesis using send_ok [OF demo_aead_lawful _ that] by metis
  qed
  obtain f ok1 t1 where f: "send demo_aead (\<lambda>_ _. True) PACKET_PING [1] (tunnel_new (1, 9000) (replicate 32 5)) =
      Inr (f, ok1, t1)"
    using s [of "[1]" PACKET_PING "(1, 9000)"] by auto
  obtain g ok2 t2 where g: "send demo_aead (\<lambda>_ _. True) PACKET_DATA [8, 9] (tunnel_new (2, 9001) (replicate 32 5)) =
      Inr (g, ok2, t2)"
    using s [of "[8, 9]" PACKET_DATA "(2, 9001)"] by auto
  from tunnels_share_first_nonce [OF f g] f g show ?thesis by metis
qed

text \<open>One accepted frame in the single-tunnel loop: the tracker records one loss for every sequence
  number between the expected and the received one, in 64-bit arithmetic, then one receipt, and the
  loop expects the next number.\<close>

theorem recv_single_records_gap:
  assumes "length (rs_buf s) = MAX_PACKET" "length ct < 2 ^ 16" "HEADER_SIZE + length ct \<le> MAX_PACKET"
    and "decrypt lib c seq ct = Inr (Inr p)" "lt_view h (rs_tracker s)"
    and "gap = unat (seq - rs_expected s)"
  shows "\<exists>s'. recv_single lib c (header_bytes ty seq (word_of_nat (length ct)) @ ct) from s =
      Inr (Recv_Packet [] \<lparr>rp_type = ty, rp_seq = seq, rp_payload = p, rp_from = from\<rparr>, s') \<and>
    rs_expected s' = seq + 1 \<and>
    lt_view (drop (Suc gap) (h @ replicate gap False @ [True])) (rs_tracker s')"
  using recv_single_frame [OF assms(1,2) _ assms(4,5)] assms(3,6) by (metis HEADER_SIZE_def)

definition demo_recv_state :: recv_state where
  "demo_recv_state =
     \<lparr>rs_buf = replicate MAX_PACKET 0, rs_expected = -2, rs_tracker = loss_tracker_new 4\<rparr>"

lemma demo_recv_state_simps [simp]:
  "rs_buf demo_recv_state = replicate MAX_PACKET 0" "rs_expected demo_recv_state = -2"
  "rs_tracker demo_recv_state = loss_tracker_new 4"
  by (simp_all add: demo_recv_state_def)

lemma demo_recv_view:
  "lt_view (replicate 4 True) (rs_tracker demo_recv_state)"
  "lt_view (replicate 4 True) (rs_tracker (demo_recv_state\<lparr>rs_expected := e\<rparr>))"
  by (simp_all add: lt_view_new)

theorem recv_single_records_gap_witness:
  "\<exists>s'. recv_single demo_aead (tun_crypto demo_tunnel)
      (header_bytes PACKET_DATA 0 (word_of_nat (length demo_ct)) @ demo_ct) (2, 9001) demo_recv_state =
      Inr (Recv_Packet [] \<lparr>rp_type = PACKET_DATA, rp_seq = 0, rp_payload = [1, 2, 3], rp_from = (2, 9001)\<rparr>, s') \<and>
    rs_expected s' = 0 + 1 \<and>
    lt_view (drop (Suc 2) (replicate 4 True @ replicate 2 False @ [True])) (rs_tracker s')"
  by (rule recv_single_records_gap [OF _ _ _ demo_decrypts demo_recv_view(1)])
    (simp_all add: length_demo_ct MAX_PACKET_eq HEADER_SIZE_def)

text \<open>A frame that arrives late, one number behind the expected one (a duplicate of the last frame,
  say), is recorded as \<open>2 ^ 64 - 1\<close> lost packets: the whole window of the tracker turns to losses
  but for the frame itself, and the loop's counter steps back.\<close>

theorem recv_single_late_frame_fills_window:
  assumes "length (rs_buf s) = MAX_PACKET" "length ct < 2 ^ 16" "HEADER_SIZE + length ct \<le> MAX_PACKET"
    and "seq = rs_expected s - 1" "decrypt lib c seq ct = Inr (Inr p)"
    and "lt_view h (rs_tracker s)" "length h = Suc n" "n < 2 ^ 64"
  shows "\<exists>s'. recv_single lib c (header_bytes ty seq (word_of_nat (length ct)) @ ct) from s =
      Inr (Recv_Packet [] \<lparr>rp_type = ty, rp_seq = seq, rp_payload = p, rp_from = from\<rparr>, s') \<and>
    rs_expected s' = rs_expected s \<and> lt_view (replicate n False @ [True]) (rs_tracker s')"
proof -
  define g where "g = unat (seq - rs_expected s)"
  have g: "g = 2 ^ 64 - 1" using assms(4) by (simp add: g_def unsigned_minus_1_eq_mask mask_eq_exp_minus_1)
  obtain s' where s': "recv_single lib c (header_bytes ty seq (word_of_nat (length ct)) @ ct) from s =
      Inr (Recv_Packet [] \<lparr>rp_type = ty, rp_seq = seq, rp_payload = p, rp_from = from\<rparr>, s')"
    "rs_expected s' = seq + 1" "lt_view (drop (Suc g) (h @ replicate g False @ [True])) (rs_tracker s')"
    using recv_single_frame [OF assms(1,2) _ assms(5,6)] assms(3) unfolding g_def by (metis HEADER_SIZE_def)
  have "Suc g - length h = g - n" "n \<le> g" using assms(7,8) g by simp_all
  then have "drop (Suc g) (h @ replicate g False @ [True]) = replicate n False @ [True]"
    using assms(7) by simp
  with s' show ?thesis using assms(4) by simp
qed

theorem recv_single_late_frame_fills_window_witness:
  "\<exists>s'. recv_single demo_aead (tun_crypto demo_tunnel)
      (header_bytes PACKET_DATA 0 (word_of_nat (length demo_ct)) @ demo_ct) (2, 9001)
      (demo_recv_state\<lparr>rs_expected := 1\<rparr>) =
      Inr (Recv_Packet [] \<lparr>rp_type = PACKET_DATA, rp_seq = 0, rp_payload = [1, 2, 3], rp_from = (2, 9001)\<rparr>, s') \<and>
    rs_expected s' = rs_expected (demo_recv_state\<lparr>rs_expected := 1\<rparr>) \<and>
    lt_view (replicate 3 False @ [True]) (rs_tracker s')"
  by (rule recv_single_late_frame_fills_window [OF _ _ _ _ demo_decrypts demo_recv_view(2)])
    (simp_all add: length_demo_ct MAX_PACKET_eq HEADER_SIZE_def)

text \<open>\<open>send_with_fec\<close> splits a non-empty payload into exactly \<open>d\<close> shards of one positive size whose
  concatenation is the payload followed by zeros, and panics on an empty payload.\<close>

theorem split_shards_exact:
  assumes "0 < d"
  shows "if xs = [] then split_shards xs d = Inl (Expect_Panic ''chunk size must be non-zero'')
    else \<exists>shards n. split_shards xs d = Inr shards \<and> length shards = d \<and> 0 < n \<and>
      (\<forall>s \<in> set shards. length s = n) \<and> take (length xs) (concat shards) = xs"
proof (cases "xs = []")
  case True
  then show ?thesis using assms by (simp add: split_shards_def div_ceil_def)
next
  case False
  then show ?thesis using split_shards_ok [OF assms False] by metis
qed

theorem split_shards_exact_witness:
  "\<exists>shards. split_shards [1, 2, 3, 4, 5] 3 = Inr shards \<and> length shards = 3 \<and> take (length [1, 2, 3, 4, 5 :: byte]) (concat shards) = [1, 2, 3, 4, 5]"
  using split_shards_exact [of 3 "[1, 2, 3, 4, 5]"] by auto

end
