(* ===== verification/Latency_Matrix.thy ===== *)
theory Latency_Matrix
  imports Float64
begin

text \<open>
  The latency matrix of \<open>src/mesh/latency_matrix.rs\<close>: smoothed round-trip time and jitter of every
  ordered pair of nodes.  A \<open>Duration\<close> is its number of nanoseconds and an \<open>Instant\<close> a time in
  nanoseconds.  The smoothing is computed in \<open>f64\<close> microseconds and truncated; below \<open>2^50\<close>
  microseconds it is proved equal to integer arithmetic, \<open>ewma8\<close>.
\<close>

type_synonym duration = nat

definition as_micros :: "duration \<Rightarrow> nat" where
  "as_micros d = d div 1000"

definition from_micros :: "nat \<Rightarrow> duration" where
  "from_micros n = n * 1000"

lemma as_from_micros [simp]: "as_micros (from_micros n) = n"
  by (simp add: as_micros_def from_micros_def)

section \<open>State and operations\<close>

record latency_entry =
  smoothed_rtt :: duration
  jitter :: duration
  last_updated :: instant
  samples :: u64

type_synonym latency_matrix = "(node_name \<times> node_name, latency_entry) dmap"

definition matrix_new :: latency_matrix where
  "matrix_new = []"

definition ewma_f64 :: "nat \<Rightarrow> f64 \<Rightarrow> f64" where
  \<comment> \<open>\<open>old * (1.0 - alpha) + x * alpha\<close>\<close>
  "ewma_f64 old x =
     (let alpha = f64_lit (1 / 8)
      in f64_add (f64_mul (f64_of_nat old) (f64_sub (f64_lit 1) alpha)) (f64_mul x alpha))"

definition entry_modify :: "instant \<Rightarrow> duration \<Rightarrow> latency_entry \<Rightarrow> latency_entry" where
  "entry_modify now rtt e =
     (let rtt_us = f64_of_nat (as_micros rtt);
          old_us = f64_of_nat (as_micros (smoothed_rtt e));
          new_us = ewma_f64 (as_micros (smoothed_rtt e)) rtt_us;
          diff = f64_abs (f64_sub rtt_us old_us);
          new_jitter = ewma_f64 (as_micros (jitter e)) diff
      in e\<lparr>smoothed_rtt := from_micros (f64_to_u64 new_us),
           jitter := from_micros (f64_to_u64 new_jitter),
           last_updated := now,
           samples := samples e + 1\<rparr>)"

definition entry_new :: "instant \<Rightarrow> duration \<Rightarrow> latency_entry" where
  "entry_new now rtt = \<lparr>smoothed_rtt = rtt, jitter = 0, last_updated = now, samples = 1\<rparr>"

definition matrix_update ::
    "instant \<Rightarrow> node_name \<Rightarrow> node_name \<Rightarrow> duration \<Rightarrow> latency_matrix \<Rightarrow> latency_matrix" where
  "matrix_update now from to rtt m =
     (case dm_get m (from, to) of
        Some e \<Rightarrow> dm_insert (from, to) (entry_modify now rtt e) m
      | None \<Rightarrow> dm_insert (from, to) (entry_new now rtt) m)"

definition get_rtt :: "latency_matrix \<Rightarrow> node_name \<Rightarrow> node_name \<Rightarrow> duration option" where
  "get_rtt m from to = map_option smoothed_rtt (dm_get m (from, to))"

definition get_entry :: "latency_matrix \<Rightarrow> node_name \<Rightarrow> node_name \<Rightarrow> latency_entry option" where
  "get_entry m from to = dm_get m (from, to)"

definition all_edges :: "latency_matrix \<Rightarrow> (node_name \<times> node_name \<times> duration) list" where
  "all_edges m = map (\<lambda>((from, to), e). (from, to, smoothed_rtt e)) m"

definition path_count :: "latency_matrix \<Rightarrow> nat" where
  "path_count m = length m"

definition matrix_nodes :: "latency_matrix \<Rightarrow> node_name list" where
  "matrix_nodes m = remdups (concat (map (\<lambda>((from, to), e). [from, to]) m))"

section \<open>Smoothing\<close>

definition ewma8 :: "nat \<Rightarrow> nat \<Rightarrow> nat" where
  "ewma8 old x = (7 * old + x) div 8"

definition dist_nat :: "nat \<Rightarrow> nat \<Rightarrow> nat" where
  "dist_nat a b = (a - b) + (b - a)"

lemma ewma_consts: "f64_lit (1 / 8) = Fin (1 / 8)" "f64_sub (f64_lit 1) (Fin (1 / 8)) = Fin (7 / 8)"
  using fl_eighths [of 1] fl_eighths [of 7] fl_of_nat [of 1] by (simp_all add: f64_lit_def)

lemma ewma_f64_exact:
  assumes "old < 2 ^ 50" "x < 2 ^ 50"
  shows "f64_to_u64 (ewma_f64 old (Fin (of_nat x))) = ewma8 old x"
proof -
  have o: "f64_of_nat old = Fin (of_nat old)" using assms(1) by (simp add: f64_of_nat_def fl_of_nat)
  have p: "(of_nat old :: rat) * (7 / 8) = of_nat (7 * old) / 8" "(of_nat x :: rat) * (1 / 8) = of_nat x / 8"
    by simp_all
  have "fl (of_nat old * (7 / 8)) = of_nat (7 * old) / 8"
    unfolding p by (rule fl_eighths) (use assms in simp)
  moreover have "fl (of_nat x * (1 / 8)) = of_nat x / 8"
    unfolding p by (rule fl_eighths) (use assms in simp)
  moreover have "(of_nat (7 * old) / 8 + of_nat x / 8 :: rat) = of_nat (7 * old + x) / 8" by simp
  then have "fl (of_nat (7 * old) / 8 + of_nat x / 8) = of_nat (7 * old + x) / 8"
    using fl_eighths [of "7 * old + x"] assms by (simp only:) simp
  ultimately have "ewma_f64 old (Fin (of_nat x)) = Fin (of_nat (7 * old + x) / 8)"
    by (simp only: ewma_f64_def Let_def ewma_consts o f64_mul.simps f64_add.simps)
  moreover have "\<lfloor>(of_nat (7 * old + x) :: rat) / 8\<rfloor> = int ((7 * old + x) div 8)"
    using floor_divide_of_nat_eq [of "7 * old + x" 8, where ?'a = rat] by simp
  moreover have "(7 * old + x) div 8 \<le> 2 ^ 64 - 1" using assms by simp
  ultimately show ?thesis by (simp add: ewma8_def)
qed

lemma f64_diff_exact:
  assumes "a < 2 ^ 50" "b < 2 ^ 50"
  shows "f64_abs (f64_sub (f64_of_nat a) (f64_of_nat b)) = Fin (of_nat (dist_nat a b))"
proof -
  have ab: "f64_of_nat a = Fin (of_nat a)" "f64_of_nat b = Fin (of_nat b)"
    using assms by (simp_all add: f64_of_nat_def fl_of_nat)
  show ?thesis
  proof (cases "b \<le> a")
    case True
    then have "fl (of_nat a - of_nat b) = of_nat (a - b)"
      using fl_of_nat [of "a - b"] assms by (simp add: of_nat_diff)
    then show ?thesis using True by (simp add: ab dist_nat_def)
  next
    case False
    then have "(of_nat a - of_nat b :: rat) = - of_nat (b - a)" by (simp add: of_nat_diff)
    moreover have "fl (- of_nat (b - a)) = - fl (of_nat (b - a))" by (simp add: fl_def)
    ultimately show ?thesis using False fl_of_nat [of "b - a"] assms by (simp add: ab dist_nat_def)
  qed
qed

lemma entry_modify_exact:
  assumes "as_micros rtt < 2 ^ 50" "as_micros (smoothed_rtt e) < 2 ^ 50" "as_micros (jitter e) < 2 ^ 50"
  shows "entry_modify now rtt e = e\<lparr>
    smoothed_rtt := from_micros (ewma8 (as_micros (smoothed_rtt e)) (as_micros rtt)),
    jitter := from_micros (ewma8 (as_micros (jitter e)) (dist_nat (as_micros rtt) (as_micros (smoothed_rtt e)))),
    last_updated := now, samples := samples e + 1\<rparr>"
proof -
  have "dist_nat (as_micros rtt) (as_micros (smoothed_rtt e)) < 2 ^ 50"
    using assms by (auto simp: dist_nat_def)
  moreover have "f64_of_nat (as_micros rtt) = Fin (of_nat (as_micros rtt))"
    using assms by (simp add: f64_of_nat_def fl_of_nat)
  ultimately show ?thesis
    using ewma_f64_exact [OF assms(2,1)] ewma_f64_exact [OF assms(3)] f64_diff_exact [OF assms(1,2)]
    by (simp only: entry_modify_def Let_def)
qed

lemma ewma8_between: "min old x \<le> ewma8 old x" "ewma8 old x \<le> max old x"
  by (auto simp: ewma8_def min_def max_def)

lemma ewma8_less: "a < n \<Longrightarrow> b < n \<Longrightarrow> ewma8 a b < n"
  by (simp add: ewma8_def)

lemma ewma8_step:
  "old \<le> x \<Longrightarrow> ewma8 old x \<le> x"
  "x \<le> old \<Longrightarrow> x \<le> ewma8 old x"
  "old + 8 \<le> x \<Longrightarrow> old < ewma8 old x"
  "x < old \<Longrightarrow> ewma8 old x < old"
  by (simp_all add: ewma8_def)

text \<open>Under a constant measurement the average settles, from above exactly and from below within 7.\<close>

lemma ewma8_settles:
  "dist_nat old x \<le> n \<Longrightarrow>
   ((\<lambda>s. ewma8 s x) ^^ n) old \<le> x \<and> x \<le> ((\<lambda>s. ewma8 s x) ^^ n) old + 7"
proof (induction n arbitrary: old)
  case 0
  then show ?case by (simp add: dist_nat_def)
next
  case (Suc n)
  have shift: "((\<lambda>s. ewma8 s x) ^^ Suc n) old = ((\<lambda>s. ewma8 s x) ^^ n) (ewma8 old x)"
    by (simp add: funpow_Suc_right del: funpow.simps)
  consider "old + 8 \<le> x" | "x < old" | "old \<le> x" "x \<le> old + 7" by linarith
  then show ?case
  proof cases
    case 1
    then have "dist_nat (ewma8 old x) x \<le> n" using Suc.prems by (auto simp: dist_nat_def ewma8_def)
    then show ?thesis unfolding shift by (rule Suc.IH)
  next
    case 2
    then have "dist_nat (ewma8 old x) x \<le> n" using Suc.prems by (auto simp: dist_nat_def ewma8_def)
    then show ?thesis unfolding shift by (rule Suc.IH)
  next
    case 3
    then have "ewma8 old x = old" by (auto simp: ewma8_def intro: div_nat_eqI)
    then have "((\<lambda>s. ewma8 s x) ^^ m) old = old" for m by (induction m) simp_all
    from this [of "Suc n"] 3 show ?thesis by (simp only: simp_thms)
  qed
qed

section \<open>The matrix as a map\<close>

lemma dm_wf_update [simp, intro]: "dm_wf m \<Longrightarrow> dm_wf (matrix_update now a b rtt m)"
  by (auto simp: matrix_update_def split: option.splits)

lemma get_entry_update:
  "get_entry (matrix_update now a b rtt m) c d =
    (if (c, d) = (a, b)
     then Some (case get_entry m a b of None \<Rightarrow> entry_new now rtt | Some e \<Rightarrow> entry_modify now rtt e)
     else get_entry m c d)"
  by (auto simp: get_entry_def matrix_update_def split: option.splits)

lemma get_rtt_entry: "get_rtt m a b = map_option smoothed_rtt (get_entry m a b)"
  by (simp add: get_rtt_def get_entry_def)

lemma all_edges_iff: "dm_wf m \<Longrightarrow> (a, b, r) \<in> set (all_edges m) \<longleftrightarrow> get_rtt m a b = Some r"
  unfolding all_edges_def get_rtt_def by (auto simp: dm_get_in_set image_iff split_def) force

lemma matrix_nodes_iff: "n \<in> set (matrix_nodes m) \<longleftrightarrow> (\<exists>a b r. (a, b, r) \<in> set (all_edges m) \<and> (n = a \<or> n = b))"
  by (force simp: matrix_nodes_def all_edges_def split_def)

lemma update_edges:
  "dm_wf m \<Longrightarrow> (c, d, r) \<in> set (all_edges (matrix_update now a b rtt m)) \<longleftrightarrow>
    (if (c, d) = (a, b)
     then r = smoothed_rtt (case get_entry m a b of None \<Rightarrow> entry_new now rtt | Some e \<Rightarrow> entry_modify now rtt e)
     else (c, d, r) \<in> set (all_edges m))"
  by (auto simp: all_edges_iff get_rtt_entry get_entry_update)

fun update_all ::
    "(instant \<times> duration) list \<Rightarrow> node_name \<Rightarrow> node_name \<Rightarrow> latency_matrix \<Rightarrow> latency_matrix" where
  "update_all [] a b m = m"
| "update_all ((now, rtt) # ms) a b m = update_all ms a b (matrix_update now a b rtt m)"

definition usual :: "latency_entry \<Rightarrow> bool" where
  \<comment> \<open>both averages below \<open>2^50\<close> microseconds, some 35 years\<close>
  "usual e \<longleftrightarrow> as_micros (smoothed_rtt e) < 2 ^ 50 \<and> as_micros (jitter e) < 2 ^ 50"

lemma entry_modify_usual:
  assumes "usual e" "as_micros r < 2 ^ 50"
  shows "usual (entry_modify t r e)"
    and "as_micros (smoothed_rtt (entry_modify t r e)) = ewma8 (as_micros (smoothed_rtt e)) (as_micros r)"
    and "samples (entry_modify t r e) = samples e + 1"
proof -
  have u: "as_micros (smoothed_rtt e) < 2 ^ 50" "as_micros (jitter e) < 2 ^ 50"
    using assms(1) by (simp_all add: usual_def)
  note x = entry_modify_exact [OF assms(2) u]
  have "dist_nat (as_micros r) (as_micros (smoothed_rtt e)) < 2 ^ 50"
    using u assms(2) by (auto simp: dist_nat_def)
  with u assms(2) show "usual (entry_modify t r e)"
    unfolding usual_def x by (simp add: ewma8_less)
  show "as_micros (smoothed_rtt (entry_modify t r e)) = ewma8 (as_micros (smoothed_rtt e)) (as_micros r)"
    "samples (entry_modify t r e) = samples e + 1"
    by (simp_all add: x)
qed

lemma update_all_from:
  "get_entry m a b = Some e \<Longrightarrow> usual e \<Longrightarrow> \<forall>(t, r) \<in> set ms. as_micros r < 2 ^ 50 \<Longrightarrow>
   \<exists>e'. get_entry (update_all ms a b m) a b = Some e' \<and> usual e' \<and>
     samples e' = samples e + word_of_nat (length ms) \<and>
     as_micros (smoothed_rtt e') = foldl ewma8 (as_micros (smoothed_rtt e)) (map (as_micros \<circ> snd) ms)"
proof (induction ms arbitrary: m e)
  case Nil
  then show ?case by simp
next
  case (Cons x ms)
  obtain t r where x: "x = (t, r)" by (cases x)
  have r: "as_micros r < 2 ^ 50" and ms: "\<forall>(t, r) \<in> set ms. as_micros r < 2 ^ 50"
    using Cons.prems(3) by (simp_all add: x)
  note m = entry_modify_usual [OF Cons.prems(2) r, of t]
  have g: "get_entry (matrix_update t a b r m) a b = Some (entry_modify t r e)"
    using Cons.prems(1) by (simp add: get_entry_update)
  from Cons.IH [OF g m(1) ms] m(2,3) show ?case by (auto simp: x add.assoc)
qed

lemma usual_new: "as_micros r < 2 ^ 50 \<Longrightarrow> usual (entry_new t r)"
  by (simp add: usual_def entry_new_def as_micros_def [of 0])

lemma foldl_replicate: "foldl f s (replicate n x) = ((\<lambda>s. f s x) ^^ n) s"
  by (induction n arbitrary: s) (simp_all add: funpow_Suc_right del: funpow.simps(2))

section \<open>Properties\<close>

text \<open>C28. A pair of nodes measured for the first time and then again, any number of times, has as its
  round-trip time the integer average \<open>(7 * old + new) div 8\<close> folded over the measurements from
  the first one, in whole microseconds, and counts them all: the \<open>f64\<close> arithmetic of the code adds
  no error below \<open>2^50\<close> microseconds.\<close>

theorem matrix_update_ewma:
  assumes "get_entry m a b = None" "ms \<noteq> []" "\<forall>(t, r) \<in> set ms. as_micros r < 2 ^ 50"
  shows "\<exists>e. get_entry (update_all ms a b m) a b = Some e \<and> samples e = word_of_nat (length ms) \<and>
     as_micros (smoothed_rtt e) = foldl ewma8 (as_micros (snd (hd ms))) (map (as_micros \<circ> snd) (tl ms))"
proof -
  obtain t r ms' where c: "ms = (t, r) # ms'" using assms(2) by (cases ms) auto
  have "get_entry (matrix_update t a b r m) a b = Some (entry_new t r)"
    using assms(1) by (simp add: get_entry_update)
  from update_all_from [OF this usual_new, of ms'] assms(3) show ?thesis
    by (auto simp: c entry_new_def)
qed

theorem matrix_update_ewma_witness:
  "\<exists>e. get_entry (update_all [(1, 50000000), (2, 90000000)] ''a'' ''b'' matrix_new) ''a'' ''b'' = Some e \<and>
    samples e = 2 \<and> as_micros (smoothed_rtt e) = 55000"
  using matrix_update_ewma [of matrix_new "''a''" "''b''" "[(1, 50000000), (2, 90000000)]"]
  by (simp add: get_entry_def matrix_new_def as_micros_def ewma8_def del: update_all.simps)

text \<open>C29. Under a constant measurement \<open>r\<close> the round-trip time settles: after as many updates as it
  is microseconds away, it is at most \<open>r\<close> and at most 7 microseconds below, where truncation holds it.\<close>

theorem matrix_update_settles:
  assumes "get_entry m a b = Some e" "usual e" "as_micros r < 2 ^ 50"
    and "dist_nat (as_micros (smoothed_rtt e)) (as_micros r) \<le> n"
  shows "\<exists>e'. get_entry (update_all (replicate n (t, r)) a b m) a b = Some e' \<and>
    as_micros (smoothed_rtt e') \<le> as_micros r \<and> as_micros r \<le> as_micros (smoothed_rtt e') + 7"
proof -
  obtain e' where e': "get_entry (update_all (replicate n (t, r)) a b m) a b = Some e'"
    "as_micros (smoothed_rtt e') =
       foldl ewma8 (as_micros (smoothed_rtt e)) (map (as_micros \<circ> snd) (replicate n (t, r)))"
    using update_all_from [OF assms(1,2), of "replicate n (t, r)"] assms(3) by auto
  have "as_micros (smoothed_rtt e') = ((\<lambda>s. ewma8 s (as_micros r)) ^^ n) (as_micros (smoothed_rtt e))"
    unfolding e'(2) by (simp add: foldl_replicate)
  with ewma8_settles [OF assms(4)] e'(1) show ?thesis by auto
qed

theorem matrix_update_settles_witness:
  "\<exists>e'. get_entry (update_all (replicate 20 (5, 10000)) ''a'' ''b''
      [((''a'', ''b''), entry_new 0 30000)]) ''a'' ''b'' = Some e' \<and>
    as_micros (smoothed_rtt e') \<le> 10 \<and> 10 \<le> as_micros (smoothed_rtt e') + 7"
  using matrix_update_settles [of "[((''a'', ''b''), entry_new 0 30000)]" "''a''" "''b''" "entry_new 0 30000" 10000 20 5]
  by (simp add: get_entry_def dm_get_def usual_new as_micros_def dist_nat_def entry_new_def usual_def
      del: update_all.simps)

text \<open>What the router reads: an edge is in \<open>all_edges\<close> exactly with the round-trip time
  \<open>get_rtt\<close> returns for it, and an update changes the edge it names and no other.\<close>

theorem matrix_edges_are_entries:
  assumes "dm_wf m"
  shows "((c, d, r) \<in> set (all_edges m) \<longleftrightarrow> get_rtt m c d = Some r) \<and>
    ((c, d) \<noteq> (a, b) \<longrightarrow>
      ((c, d, r) \<in> set (all_edges (matrix_update now a b rtt m)) \<longleftrightarrow> (c, d, r) \<in> set (all_edges m))) \<and>
    (get_rtt m a b = None \<longrightarrow> get_rtt (matrix_update now a b rtt m) a b = Some rtt)"
  using assms by (auto simp: all_edges_iff get_rtt_entry get_entry_update entry_new_def)

theorem matrix_edges_are_entries_witness:
  "((''a'', ''b'', 30000) \<in> set (all_edges [((''a'', ''b''), entry_new 0 30000)])) \<and>
    get_rtt [((''a'', ''b''), entry_new 0 30000)] ''a'' ''b'' = Some 30000 \<and>
    (''a'', ''b'', 30000) \<in> set (all_edges (matrix_update 4 ''b'' ''a'' 7 [((''a'', ''b''), entry_new 0 30000)]))"
  using matrix_edges_are_entries [of "[((''a'', ''b''), entry_new 0 30000)]" "''a''" "''b''" 30000 "''b''" "''a''" 4 7]
  by (simp add: dm_wf_def all_edges_def entry_new_def)

end
