(* ===== verification/Router.thy ===== *)
theory Router
  imports Latency_Matrix "HOL-Library.Multiset"
begin

text \<open>
  The mesh router of \<open>src/mesh/router.rs\<close>: Dijkstra's algorithm with a binary heap and lazy
  deletion on the live latency matrix, the next hop, and the alternative paths over every
  neighbour.  Costs are \<open>u64\<close> microseconds with saturating addition.

  The order in which \<open>BinaryHeap::pop\<close> returns entries of equal cost is not specified, so the heap's
  \<open>pop\<close> is a parameter with the contract \<open>max_heap\<close>.  The search loop and the walk back over the
  predecessors are partial functions: the value \<open>None\<close> stands for a run that does not return.
\<close>

section \<open>Entries of the heap\<close>

datatype dijkstra_state = Dijkstra_State (cost_us: u64) (dnode: node_name)

datatype ordering = Cmp_Less | Cmp_Equal | Cmp_Greater

definition u64_cmp :: "u64 \<Rightarrow> u64 \<Rightarrow> ordering" where
  \<comment> \<open>\<open>Ord::cmp\<close> of the standard library\<close>
  "u64_cmp x y = (if x < y then Cmp_Less else if x = y then Cmp_Equal else Cmp_Greater)"

text \<open>The order of the source is reversed, so that the largest entry is the cheapest.\<close>

definition state_cmp :: "dijkstra_state \<Rightarrow> dijkstra_state \<Rightarrow> ordering" where
  "state_cmp self other = u64_cmp (cost_us other) (cost_us self)"

instantiation dijkstra_state :: preorder
begin

definition less_eq_dijkstra_state :: "dijkstra_state \<Rightarrow> dijkstra_state \<Rightarrow> bool" where
  "less_eq_dijkstra_state a b \<longleftrightarrow> state_cmp a b \<noteq> Cmp_Greater"

definition less_dijkstra_state :: "dijkstra_state \<Rightarrow> dijkstra_state \<Rightarrow> bool" where
  "less_dijkstra_state a b \<longleftrightarrow> state_cmp a b = Cmp_Less"

instance
  by standard (auto simp: less_eq_dijkstra_state_def less_dijkstra_state_def state_cmp_def u64_cmp_def split: if_splits)

end

lemma state_le_iff: "a \<le> b \<longleftrightarrow> cost_us b \<le> cost_us (a :: dijkstra_state)"
  by (auto simp: less_eq_dijkstra_state_def state_cmp_def u64_cmp_def)

type_synonym 'a heap_pop = "'a list \<Rightarrow> ('a \<times> 'a list) option"

locale max_heap =
  fixes pop :: "'a::preorder heap_pop"
  assumes pop_empty: "pop [] = None"
    and pop_some: "h \<noteq> [] \<Longrightarrow> \<exists>x h'. pop h = Some (x, h')"
    and pop_mset: "pop h = Some (x, h') \<Longrightarrow> mset h = add_mset x (mset h')"
    and pop_max: "pop h = Some (x, h') \<Longrightarrow> y \<in> set h' \<Longrightarrow> y \<le> x"
begin

lemma pop_None_iff: "pop h = None \<longleftrightarrow> h = []"
  using pop_empty pop_some [of h] by (cases "h = []") auto

lemma pop_set: "pop h = Some (x, h') \<Longrightarrow> set h = insert x (set h')"
  using pop_mset [of h x h'] by (metis set_mset_add_mset_insert set_mset_mset)

lemma pop_length: "pop h = Some (x, h') \<Longrightarrow> length h = Suc (length h')"
  using pop_mset [of h x h'] by (metis size_add_mset size_mset)

lemma pop_keeps: "pop h = Some (x, h') \<Longrightarrow> y \<in> set h \<Longrightarrow> y \<noteq> x \<Longrightarrow> y \<in> set h'"
  using pop_set by fastforce

end

text \<open>One heap that fulfils the contract: the first of the cheapest entries.\<close>

fun pop_cheapest :: "dijkstra_state heap_pop" where
  "pop_cheapest [] = None"
| "pop_cheapest (x # xs) =
     (case pop_cheapest xs of
        None \<Rightarrow> Some (x, xs)
      | Some (y, ys) \<Rightarrow> if cost_us x \<le> cost_us y then Some (x, xs) else Some (y, x # ys))"

lemma pop_cheapest_None: "pop_cheapest h = None \<longleftrightarrow> h = []"
  by (cases h) (auto split: option.splits)

lemma pop_cheapest_Some:
  "pop_cheapest h = Some (x, h') \<Longrightarrow>
   mset h = add_mset x (mset h') \<and> (\<forall>y \<in> set h'. cost_us x \<le> cost_us y)"
proof (induction h arbitrary: x h')
  case Nil
  then show ?case by simp
next
  case (Cons a h)
  show ?case
  proof (cases "pop_cheapest h")
    case None
    then have "h = []" by (simp add: pop_cheapest_None)
    with Cons.prems show ?thesis by auto
  next
    case (Some yz)
    obtain y ys where yz: "yz = (y, ys)" by (cases yz)
    have m: "mset h = add_mset y (mset ys)" "\<forall>z \<in> set ys. cost_us y \<le> cost_us z"
      using Cons.IH [of y ys] Some by (simp_all add: yz)
    then have "set h = insert y (set ys)" by (metis set_mset_add_mset_insert set_mset_mset)
    then show ?thesis
      using Cons.prems m Some by (auto simp: yz split: if_splits)
  qed
qed

interpretation cheapest: max_heap pop_cheapest
proof
  show "pop_cheapest [] = None" by simp
  show "\<exists>x h'. pop_cheapest h = Some (x, h')" if "h \<noteq> []" for h
    using that pop_cheapest_None [of h] by auto
  show "mset h = add_mset x (mset h')" "y \<in> set h' \<Longrightarrow> y \<le> x"
    if "pop_cheapest h = Some (x, h')" for h x h' y
    using pop_cheapest_Some [OF that] by (simp_all add: state_le_iff)
qed

section \<open>The search\<close>

type_synonym edges = "(node_name \<times> node_name \<times> duration) list"

definition U64_MAX :: u64 where
  "U64_MAX = - 1"

definition saturating_add :: "u64 \<Rightarrow> u64 \<Rightarrow> u64" where
  "saturating_add a b = (if unat a + unat b < 2 ^ 64 then a + b else U64_MAX)"

definition edge_cost :: "duration \<Rightarrow> u64" where
  \<comment> \<open>\<open>rtt.as_micros() as u64\<close>\<close>
  "edge_cost rtt = word_of_nat (as_micros rtt)"

record search =
  s_dist :: "(node_name, u64) dmap"
  s_prev :: "(node_name, node_name) dmap"
  s_heap :: "dijkstra_state list"

definition dist_of :: "search \<Rightarrow> node_name \<Rightarrow> u64" where
  "dist_of s n = (case dm_get (s_dist s) n of None \<Rightarrow> U64_MAX | Some c \<Rightarrow> c)"

definition search_init :: "node_name list \<Rightarrow> node_name \<Rightarrow> u64 \<Rightarrow> search" where
  "search_init nodes start c0 =
     \<lparr>s_dist = dm_insert start c0 (fold (\<lambda>n. dm_insert n U64_MAX) nodes []),
      s_prev = [], s_heap = [Dijkstra_State c0 start]\<rparr>"

definition relax_edge :: "u64 \<Rightarrow> node_name \<Rightarrow> node_name \<times> node_name \<times> duration \<Rightarrow> search \<Rightarrow> search" where
  "relax_edge cost node e s =
     (case e of (from, to, rtt) \<Rightarrow>
        if from \<noteq> node then s
        else let new_cost = saturating_add cost (edge_cost rtt)
             in if new_cost < dist_of s to
                then s\<lparr>s_dist := dm_insert to new_cost (s_dist s),
                       s_prev := dm_insert to node (s_prev s),
                       s_heap := Dijkstra_State new_cost to # s_heap s\<rparr>
                else s)"

definition relax :: "u64 \<Rightarrow> node_name \<Rightarrow> edges \<Rightarrow> search \<Rightarrow> search" where
  "relax cost node es s = fold (relax_edge cost node) es s"

partial_function (option) search_loop ::
    "dijkstra_state heap_pop \<Rightarrow> edges \<Rightarrow> node_name \<Rightarrow> search \<Rightarrow> search option" where
  "search_loop pop es dest s =
     (case pop (s_heap s) of
        None \<Rightarrow> Some s
      | Some (st, h) \<Rightarrow>
          if dnode st = dest then Some (s\<lparr>s_heap := h\<rparr>)
          else if dist_of s (dnode st) < cost_us st then search_loop pop es dest (s\<lparr>s_heap := h\<rparr>)
          else search_loop pop es dest (relax (cost_us st) (dnode st) es (s\<lparr>s_heap := h\<rparr>)))"

partial_function (option) walk_back ::
    "(node_name, node_name) dmap \<Rightarrow> node_name \<Rightarrow> node_name \<Rightarrow> node_name list \<Rightarrow> node_name list option option" where
  \<comment> \<open>the pushed path, or \<open>Some None\<close> when a predecessor is missing\<close>
  "walk_back prev start current path =
     (if current = start then Some (Some path)
      else case dm_get prev current of
        None \<Rightarrow> Some None
      | Some p \<Rightarrow> walk_back prev start p (path @ [p]))"

definition dijkstra ::
    "dijkstra_state heap_pop \<Rightarrow> latency_matrix \<Rightarrow> node_name \<Rightarrow> node_name \<Rightarrow> node_name list option option" where
  "dijkstra pop m local_node destination =
     (let edges = all_edges m; nodes = matrix_nodes m
      in case search_loop pop edges destination (search_init nodes local_node 0) of
           None \<Rightarrow> None
         | Some s \<Rightarrow> map_option (map_option rev) (walk_back (s_prev s) local_node destination [destination]))"

section \<open>Routes\<close>

record route_entry =
  next_hop_node :: node_name
  total_rtt :: duration
  route_path :: "node_name list"

record mesh_router =
  rt_local :: node_name
  rt_matrix :: latency_matrix

definition DURATION_END :: nat where
  \<comment> \<open>one nanosecond past \<open>Duration::MAX\<close>\<close>
  "DURATION_END = 2 ^ 64 * 10 ^ 9"

fun path_cost_from :: "latency_matrix \<Rightarrow> duration \<Rightarrow> node_name list \<Rightarrow> duration outcome" where
  "path_cost_from m acc (a # b # p) =
     (case get_rtt m a b of
        None \<Rightarrow> path_cost_from m acc (b # p)
      | Some rtt \<Rightarrow>
          if acc + rtt < DURATION_END then path_cost_from m (acc + rtt) (b # p) else Inl Overflow_Panic)"
| "path_cost_from m acc _ = Inr acc"

definition path_cost :: "latency_matrix \<Rightarrow> node_name list \<Rightarrow> duration outcome" where
  "path_cost m p = path_cost_from m 0 p"

definition next_hop ::
    "dijkstra_state heap_pop \<Rightarrow> mesh_router \<Rightarrow> node_name \<Rightarrow> route_entry option outcome option" where
  "next_hop pop rt destination =
     (if destination = rt_local rt then Some (Inr None)
      else case dijkstra pop (rt_matrix rt) (rt_local rt) destination of
        None \<Rightarrow> None
      | Some None \<Rightarrow> Some (Inr None)
      | Some (Some path) \<Rightarrow>
          if length path < 2 then Some (Inr None)
          else Some (rbind (path_cost (rt_matrix rt) path) (\<lambda>cost.
            Inr (Some \<lparr>next_hop_node = path ! 1, total_rtt = cost, route_path = path\<rparr>))))"

definition dijkstra_via ::
    "dijkstra_state heap_pop \<Rightarrow> mesh_router \<Rightarrow> node_name \<Rightarrow> node_name \<Rightarrow> route_entry option option" where
  "dijkstra_via pop rt via destination =
     (case get_rtt (rt_matrix rt) (rt_local rt) via of
        None \<Rightarrow> Some None
      | Some first_hop_cost \<Rightarrow>
          let edges = all_edges (rt_matrix rt); nodes = matrix_nodes (rt_matrix rt)
          in case search_loop pop edges destination (search_init nodes via (edge_cost first_hop_cost)) of
            None \<Rightarrow> None
          | Some s \<Rightarrow>
              if dm_get (s_prev s) destination = None \<and> via \<noteq> destination then Some None
              else case walk_back (s_prev s) via destination [destination] of
                None \<Rightarrow> None
              | Some None \<Rightarrow> Some None
              | Some (Some path) \<Rightarrow>
                  Some (Some \<lparr>next_hop_node = via,
                              total_rtt = from_micros (unat (dist_of s destination)),
                              route_path = rev (path @ [rt_local rt])\<rparr>))"

fun routes_via ::
    "dijkstra_state heap_pop \<Rightarrow> mesh_router \<Rightarrow> node_name \<Rightarrow> node_name list \<Rightarrow> route_entry list option" where
  "routes_via pop rt destination [] = Some []"
| "routes_via pop rt destination (n # ns) =
     (case dijkstra_via pop rt n destination of
        None \<Rightarrow> None
      | Some r \<Rightarrow> map_option (\<lambda>rs. case r of None \<Rightarrow> rs | Some e \<Rightarrow> e # rs) (routes_via pop rt destination ns))"

definition neighbors :: "mesh_router \<Rightarrow> node_name list" where
  "neighbors rt = remdups (map (\<lambda>(from, to, _). to) (filter (\<lambda>(from, to, _). from = rt_local rt) (all_edges (rt_matrix rt))))"

definition top_paths ::
    "dijkstra_state heap_pop \<Rightarrow> mesh_router \<Rightarrow> node_name \<Rightarrow> nat \<Rightarrow> route_entry list option" where
  "top_paths pop rt destination n =
     (if destination = rt_local rt then Some []
      else map_option (\<lambda>routes. take n (sort_key total_rtt routes))
             (routes_via pop rt destination (neighbors rt)))"

end
