(* ===== verification/Router_Correct.thy ===== *)
theory Router_Correct
  imports Router
begin

text \<open>
  Correctness of the router's search for every heap that fulfils \<open>max_heap\<close>: it returns, the
  distance of the destination is the least cost of a walk, and the walk back over the predecessors
  is such a walk without a repeated node.  No bound on the costs is assumed: a cost that saturates
  counts as unreachable.
\<close>

section \<open>Walks and chains of predecessors\<close>

definition cost :: "duration \<Rightarrow> nat" where
  "cost r = unat (edge_cost r)"

inductive walk :: "edges \<Rightarrow> node_name \<Rightarrow> node_name list \<Rightarrow> nat \<Rightarrow> node_name \<Rightarrow> bool" for E s where
  start: "walk E s [s] 0 s"
| step: "walk E s p c u \<Longrightarrow> (u, v, r) \<in> set E \<Longrightarrow> walk E s (p @ [v]) (c + cost r) v"

inductive_cases walk_singleE: "walk E s [x] c v"

lemma walk_ends: "walk E s p c v \<Longrightarrow> p \<noteq> [] \<and> hd p = s \<and> last p = v"
  by (induction rule: walk.induct) auto

inductive chain :: "(node_name \<Rightarrow> node_name option) \<Rightarrow> node_name \<Rightarrow> node_name \<Rightarrow> node_name list \<Rightarrow> bool" for P s where
  root: "chain P s s [s]"
| link: "v \<noteq> s \<Longrightarrow> P v = Some u \<Longrightarrow> chain P s u p \<Longrightarrow> chain P s v (p @ [v])"

inductive_cases chainE: "chain P s v p"

lemma chain_unique: "chain P s v p \<Longrightarrow> chain P s v q \<Longrightarrow> p = q"
proof (induction arbitrary: q rule: chain.induct)
  case root
  then show ?case by (cases rule: chain.cases) simp_all
next
  case (link v u p)
  from link.prems obtain p' where "q = p' @ [v]" "chain P s u p'"
    by (cases rule: chain.cases) (use link.hyps in simp_all)
  with link.IH show ?case by simp
qed

lemma chain_prefix: "chain P s v p \<Longrightarrow> x \<in> set p \<Longrightarrow> \<exists>q. chain P s x q \<and> length q \<le> length p"
  by (induction rule: chain.induct) (fastforce intro: chain.intros)+

lemma chain_distinct: "chain P s v p \<Longrightarrow> distinct p"
proof (induction rule: chain.induct)
  case root
  then show ?case by simp
next
  case (link v u p)
  have "v \<notin> set p"
  proof
    assume "v \<in> set p"
    then obtain q where "chain P s v q" "length q \<le> length p" using chain_prefix link.hyps(3) by blast
    moreover have "chain P s v (p @ [v])" using link.hyps by (rule chain.link)
    ultimately show False using chain_unique by fastforce
  qed
  with link.IH show ?case by simp
qed

text \<open>Redirecting the predecessor of \<open>v\<close> keeps every chain that stays below \<open>v\<close>, and every node
  with a chain keeps one.\<close>

lemma chain_update_below:
  assumes "chain P s x p" and "\<And>a b. P a = Some b \<Longrightarrow> (D b :: u64) \<le> D a" and "D x < D v"
  shows "chain (P(v := w)) s x p"
  using assms(1,3)
proof (induction rule: chain.induct)
  case root
  then show ?case by (simp add: chain.root)
next
  case (link y u p)
  have "D u < D v" using assms(2) [OF link.hyps(2)] link.prems by (rule le_less_trans)
  then show ?case using link by (intro chain.link) auto
qed

lemma chain_update:
  assumes "chain P s y q" and "chain (P(v := w)) s v r"
  shows "\<exists>q'. chain (P(v := w)) s y q'"
  using assms(1)
proof (induction rule: chain.induct)
  case root
  then show ?case using chain.root by blast
next
  case (link y u p)
  show ?case
  proof (cases "y = v")
    case True
    then show ?thesis using assms(2) by blast
  next
    case False
    then have "(P(v := w)) y = Some u" using link.hyps(2) by simp
    then show ?thesis using link.IH chain.link [OF link.hyps(1)] by blast
  qed
qed

lemma walk_back_chain:
  "chain (dm_get prev) s v p \<Longrightarrow> walk_back prev s v path = Some (Some (path @ tl (rev p)))"
proof (induction arbitrary: path rule: chain.induct)
  case root
  then show ?case by (simp add: walk_back.simps)
next
  case (link v u p)
  obtain ps where "p = ps @ [u]" using link.hyps(3) by (cases rule: chain.cases) auto
  then show ?case
    using link by (subst walk_back.simps) simp
qed

section \<open>The invariant of the search\<close>

definition search_inv :: "edges \<Rightarrow> node_name \<Rightarrow> u64 \<Rightarrow> search \<Rightarrow> bool" where
  "search_inv E s c0 S \<longleftrightarrow>
     dist_of S s = c0 \<and> dm_get (s_prev S) s = None \<and> (\<forall>v. c0 \<le> dist_of S v) \<and>
     (\<forall>v u. dm_get (s_prev S) v = Some u \<longrightarrow> dist_of S v < U64_MAX \<and>
        (\<exists>r. (u, v, r) \<in> set E \<and> unat (dist_of S u) + cost r \<le> unat (dist_of S v))) \<and>
     (\<forall>v. dist_of S v < U64_MAX \<or> v = s \<longrightarrow> (\<exists>p. chain (dm_get (s_prev S)) s v p)) \<and>
     (\<forall>x \<in> set (s_heap S). dist_of S (dnode x) \<le> cost_us x)"

definition frontier :: "edges \<Rightarrow> search \<Rightarrow> node_name \<Rightarrow> bool" where
  \<comment> \<open>either waiting in the heap or expanded with its present distance\<close>
  "frontier E S v \<longleftrightarrow> Dijkstra_State (dist_of S v) v \<in> set (s_heap S) \<or>
     (\<forall>t r. (v, t, r) \<in> set E \<longrightarrow> unat (dist_of S t) \<le> unat (dist_of S v) + cost r)"

lemma le_U64_MAX [simp]: "x \<le> U64_MAX"
  by (simp add: U64_MAX_def)

lemma unat_U64_MAX: "unat U64_MAX = 2 ^ 64 - 1"
  by (simp add: U64_MAX_def unsigned_minus_1_eq_mask mask_eq_exp_minus_1)

lemma saturating_add_exact:
  assumes "saturating_add a b < U64_MAX"
  shows "unat (saturating_add a b) = unat a + unat b"
  using assms by (auto simp: saturating_add_def unat_word_ariths split: if_splits)

lemma saturating_add_ge: "a \<le> saturating_add a b"
proof (cases "saturating_add a b < U64_MAX")
  case True
  then show ?thesis using saturating_add_exact [OF True] by (simp add: word_le_nat_alt)
next
  case False
  then have "saturating_add a b = U64_MAX" by (metis le_U64_MAX antisym_conv2)
  then show ?thesis by simp
qed

lemma unat_le_saturating:
  assumes "x \<le> saturating_add a b"
  shows "unat x \<le> unat a + unat b"
proof (cases "unat a + unat b < 2 ^ 64")
  case True
  then have "unat (saturating_add a b) = unat a + unat b"
    by (simp add: saturating_add_def unat_word_ariths)
  with assms show ?thesis by (simp add: word_le_nat_alt)
next
  case False
  moreover have "unat x < 2 ^ 64" using unsigned_less [of x] by simp
  ultimately show ?thesis by linarith
qed

lemma dist_of_simps [simp]:
  "dist_of (S\<lparr>s_heap := h\<rparr>) v = dist_of S v"
  "dist_of (S\<lparr>s_dist := dm_insert t c (s_dist S), s_prev := pr\<rparr>) v =
     (if v = t then c else dist_of S v)"
  by (simp_all add: dist_of_def)

lemma dist_of_init [simp]: "dist_of (search_init nodes s c0) v = (if v = s then c0 else U64_MAX)"
proof -
  have "(case dm_get (fold (\<lambda>n. dm_insert n U64_MAX) nodes m) v of None \<Rightarrow> U64_MAX | Some c \<Rightarrow> c) = U64_MAX"
    if "(case dm_get m v of None \<Rightarrow> U64_MAX | Some c \<Rightarrow> c) = U64_MAX" for m
    using that by (induction nodes arbitrary: m) auto
  from this [of "[]"] show ?thesis by (simp add: dist_of_def search_init_def)
qed

lemma search_inv_init: "search_inv E s c0 (search_init nodes s c0)"
proof -
  have pr: "s_prev (search_init nodes s c0) = []" "s_heap (search_init nodes s c0) = [Dijkstra_State c0 s]"
    by (simp_all add: search_init_def)
  have "\<exists>p. chain (dm_get []) s s p" using chain.root by blast
  then show ?thesis unfolding search_inv_def pr by simp
qed

lemma frontier_init: "frontier E (search_init nodes s c0) v"
proof (cases "v = s")
  case True
  then show ?thesis by (simp add: frontier_def) (simp add: search_init_def)
next
  case False
  have "unat x \<le> unat U64_MAX" for x :: u64 using le_U64_MAX [of x] by (simp only: word_le_nat_alt)
  then show ?thesis using False by (simp add: frontier_def trans_le_add1)
qed

text \<open>One relaxation that improves the target.\<close>

lemma search_inv_improve:
  assumes inv: "search_inv E s c0 S" and e: "(x, t, r) \<in> set E"
    and better: "saturating_add (dist_of S x) (edge_cost r) < dist_of S t"
    and S': "S' = S\<lparr>s_dist := dm_insert t (saturating_add (dist_of S x) (edge_cost r)) (s_dist S),
                    s_prev := dm_insert t x (s_prev S),
                    s_heap := Dijkstra_State (saturating_add (dist_of S x) (edge_cost r)) t # s_heap S\<rparr>"
  shows "search_inv E s c0 S'"
proof -
  let ?n = "saturating_add (dist_of S x) (edge_cost r)" and ?P = "dm_get (s_prev S)"
  note I = inv [unfolded search_inv_def]
  have nm: "?n < U64_MAX" using better le_U64_MAX less_le_trans by blast
  have n: "unat ?n = unat (dist_of S x) + cost r" using saturating_add_exact [OF nm] by (simp add: cost_def)
  have xn: "dist_of S x \<le> ?n" by (rule saturating_add_ge)
  then have xt: "dist_of S x < dist_of S t" using better by (rule le_less_trans)
  have c0n: "c0 \<le> ?n" using I xn by (meson order_trans)
  then have ts: "t \<noteq> s" using better I by auto
  have D': "dist_of S' v = (if v = t then ?n else dist_of S v)" for v by (simp add: S')
  have P': "dm_get (s_prev S') = ?P(t := Some x)" by (auto simp: S')
  have H': "s_heap S' = Dijkstra_State ?n t # s_heap S" by (simp add: S')
  have mono: "dist_of S' v \<le> dist_of S v" for v using better by (simp add: D' less_imp_le)
  have desc: "dist_of S b \<le> dist_of S a" if "?P a = Some b" for a b
    using that I by (metis add_leD1 word_le_nat_alt)
  have "dist_of S x < U64_MAX" using xn nm by (rule le_less_trans)
  then obtain p where "chain ?P s x p" using I by blast
  then have cx: "chain (?P(t := Some x)) s x p" using desc xt by (rule chain_update_below)
  then have ct: "chain (?P(t := Some x)) s t (p @ [t])" using ts by (intro chain.link) simp_all
  have chains: "\<exists>q. chain (?P(t := Some x)) s v q" if "dist_of S' v < U64_MAX \<or> v = s" for v
  proof (cases "v = t")
    case True
    then show ?thesis using ct by blast
  next
    case False
    then have "dist_of S v < U64_MAX \<or> v = s" using that by (simp add: D')
    then obtain q where "chain ?P s v q" using I by blast
    then show ?thesis using ct by (rule chain_update)
  qed
  have prevs: "dist_of S' v < U64_MAX \<and> (\<exists>r. (u, v, r) \<in> set E \<and> unat (dist_of S' u) + cost r \<le> unat (dist_of S' v))"
    if "(?P(t := Some x)) v = Some u" for v u
  proof (cases "v = t")
    case True
    then have "u = x" "x \<noteq> t" using that xt by auto
    then show ?thesis using True e n nm by (auto simp: D')
  next
    case False
    then have "?P v = Some u" using that by simp
    then obtain r' where r': "(u, v, r') \<in> set E" "unat (dist_of S u) + cost r' \<le> unat (dist_of S v)"
      "dist_of S v < U64_MAX"
      using I by blast
    moreover have "unat (dist_of S' u) \<le> unat (dist_of S u)" using mono [of u] by (simp add: word_le_nat_alt)
    moreover have "dist_of S' v = dist_of S v" using False by (simp add: D')
    ultimately show ?thesis by (intro conjI exI [of _ r']) simp_all
  qed
  have heap: "dist_of S' (dnode y) \<le> cost_us y" if y: "y \<in> set (Dijkstra_State ?n t # s_heap S)" for y
  proof (cases "y = Dijkstra_State ?n t")
    case True
    then show ?thesis by (simp add: D')
  next
    case False
    then have "dist_of S (dnode y) \<le> cost_us y" using y I by simp
    with mono [of "dnode y"] show ?thesis by (rule order_trans)
  qed
  have "dist_of S' s = c0" "(?P(t := Some x)) s = None" "\<And>v. c0 \<le> dist_of S' v"
    using I ts c0n by (simp_all add: D')
  then show ?thesis
    unfolding search_inv_def P' H' using chains prevs heap by blast
qed

lemma frontier_improve:
  assumes inv: "search_inv E s c0 S"
    and better: "saturating_add (dist_of S x) (edge_cost r) < dist_of S t"
    and S': "S' = S\<lparr>s_dist := dm_insert t (saturating_add (dist_of S x) (edge_cost r)) (s_dist S),
                    s_prev := dm_insert t x (s_prev S),
                    s_heap := Dijkstra_State (saturating_add (dist_of S x) (edge_cost r)) t # s_heap S\<rparr>"
    and f: "v = t \<or> frontier E S v"
  shows "frontier E S' v"
proof -
  let ?n = "saturating_add (dist_of S x) (edge_cost r)"
  have D': "dist_of S' v = (if v = t then ?n else dist_of S v)" for v by (simp add: S')
  have H': "s_heap S' = Dijkstra_State ?n t # s_heap S" by (simp add: S')
  have mono: "unat (dist_of S' v) \<le> unat (dist_of S v)" for v
    using better by (simp add: D' word_less_nat_alt)
  show ?thesis
  proof (cases "v = t")
    case True
    then show ?thesis by (simp add: frontier_def D' H')
  next
    case False
    then have "frontier E S v" "dist_of S' v = dist_of S v" using f by (simp_all add: D')
    then show ?thesis
      using mono unfolding frontier_def H' by (metis (no_types, lifting) le_trans list.set_intros(2))
  qed
qed

section \<open>Relaxing the edges of a node\<close>

lemma relax_edge_cases:
  obtains "relax_edge c x (a, t, r) S = S" and "a = x \<longrightarrow> dist_of S t \<le> saturating_add c (edge_cost r)"
  | "a = x" and "saturating_add c (edge_cost r) < dist_of S t"
    and "relax_edge c x (a, t, r) S = S\<lparr>s_dist := dm_insert t (saturating_add c (edge_cost r)) (s_dist S),
           s_prev := dm_insert t x (s_prev S),
           s_heap := Dijkstra_State (saturating_add c (edge_cost r)) t # s_heap S\<rparr>"
proof (cases "a = x \<and> saturating_add c (edge_cost r) < dist_of S t")
  case True
  then show thesis by (intro that(2)) (simp_all add: relax_edge_def Let_def)
next
  case False
  then show thesis by (intro that(1)) (auto simp: relax_edge_def Let_def not_less)
qed

text \<open>\<open>relaxed es S x\<close>: no edge of \<open>es\<close> out of \<open>x\<close> improves its target.\<close>

definition relaxed :: "edges \<Rightarrow> search \<Rightarrow> node_name \<Rightarrow> bool" where
  "relaxed es S x \<longleftrightarrow> (\<forall>t r. (x, t, r) \<in> set es \<longrightarrow> unat (dist_of S t) \<le> unat (dist_of S x) + cost r)"

definition potential :: "edges \<Rightarrow> search \<Rightarrow> nat" where
  "potential E S = (\<Sum>v \<in> (fst \<circ> snd) ` set E. unat (dist_of S v))"

definition search_less :: "edges \<Rightarrow> (search \<times> search) set" where
  "search_less E = measures [potential E, \<lambda>S. length (s_heap S)]"

lemma wf_search_less: "wf (search_less E)"
  by (simp add: search_less_def)

lemma relax_edge_step:
  assumes inv: "search_inv E s c0 S" and e: "(a, t, r) \<in> set E" and c: "c = dist_of S x"
    and fr: "\<forall>v. v \<noteq> x \<longrightarrow> frontier E S v"
    and S': "S' = relax_edge c x (a, t, r) S"
  shows "search_inv E s c0 S'" and "dist_of S' x = c" and "\<forall>v. v \<noteq> x \<longrightarrow> frontier E S' v"
    and "relaxed es S x \<Longrightarrow> relaxed (es @ [(a, t, r)]) S' x"
    and "S' = S \<or> potential E S' < potential E S"
proof -
  have "search_inv E s c0 S' \<and> dist_of S' x = c \<and> (\<forall>v. v \<noteq> x \<longrightarrow> frontier E S' v) \<and>
    (relaxed es S x \<longrightarrow> relaxed (es @ [(a, t, r)]) S' x) \<and> (S' = S \<or> potential E S' < potential E S)"
  proof (cases rule: relax_edge_cases [of c x a t r S])
    case 1
    then have "a = x \<Longrightarrow> unat (dist_of S t) \<le> unat (dist_of S x) + cost r"
      using unat_le_saturating c by (auto simp: cost_def)
    with 1 inv c fr show ?thesis by (auto simp: S' relaxed_def)
  next
    case 2
    let ?n = "saturating_add (dist_of S x) (edge_cost r)"
    have ex: "(x, t, r) \<in> set E" and b: "?n < dist_of S t" using e 2 c by simp_all
    have S'': "S' = S\<lparr>s_dist := dm_insert t ?n (s_dist S), s_prev := dm_insert t x (s_prev S),
        s_heap := Dijkstra_State ?n t # s_heap S\<rparr>"
      using 2(3) by (simp only: S' c)
    have D': "dist_of S' v = (if v = t then ?n else dist_of S v)" for v by (simp add: S'')
    have tx: "t \<noteq> x" using b saturating_add_ge [of "dist_of S x" "edge_cost r"] by auto
    have mono: "unat (dist_of S' v) \<le> unat (dist_of S v)" for v
      using b by (simp add: D' word_less_nat_alt)
    have "?n < U64_MAX" using b le_U64_MAX less_le_trans by blast
    then have n: "unat ?n = unat (dist_of S x) + cost r" using saturating_add_exact by (simp add: cost_def)
    have rel: "relaxed (es @ [(a, t, r)]) S' x" if "relaxed es S x"
      unfolding relaxed_def
    proof (intro allI impI)
      fix t' r'
      assume "(x, t', r') \<in> set (es @ [(a, t, r)])"
      then consider "(x, t', r') \<in> set es" | "t' = t" "r' = r" by auto
      then show "unat (dist_of S' t') \<le> unat (dist_of S' x) + cost r'"
      proof cases
        case 1
        then have "unat (dist_of S t') \<le> unat (dist_of S x) + cost r'" using that by (simp add: relaxed_def)
        then show ?thesis using mono [of t'] tx by (simp add: D')
      next
        case 2
        then show ?thesis using n tx by (simp add: D')
      qed
    qed
    have "t \<in> (fst \<circ> snd) ` set E" using e by force
    then have "potential E S' < potential E S"
      unfolding potential_def using mono b
      by (intro sum_strict_mono_ex1) (auto simp: D' word_less_nat_alt)
    then show ?thesis
      using search_inv_improve [OF inv ex b S''] frontier_improve [OF inv b S''] fr rel tx c
      by (auto simp: D')
  qed
  then show "search_inv E s c0 S'" "dist_of S' x = c" "\<forall>v. v \<noteq> x \<longrightarrow> frontier E S' v"
    "relaxed es S x \<Longrightarrow> relaxed (es @ [(a, t, r)]) S' x" "S' = S \<or> potential E S' < potential E S"
    by blast+
qed

lemma relax_step:
  "search_inv E s c0 S \<Longrightarrow> c = dist_of S x \<Longrightarrow> set es \<subseteq> set E \<Longrightarrow> \<forall>v. v \<noteq> x \<longrightarrow> frontier E S v \<Longrightarrow>
   relaxed ds S x \<Longrightarrow>
   search_inv E s c0 (relax c x es S) \<and> dist_of (relax c x es S) x = c \<and>
   (\<forall>v. v \<noteq> x \<longrightarrow> frontier E (relax c x es S) v) \<and> relaxed (ds @ es) (relax c x es S) x \<and>
   (relax c x es S = S \<or> potential E (relax c x es S) < potential E S)"
proof (induction es arbitrary: S ds)
  case Nil
  then show ?case by (simp add: relax_def)
next
  case (Cons e es)
  obtain a t r where e: "e = (a, t, r)" by (cases e)
  define S1 where "S1 = relax_edge c x (a, t, r) S"
  have m: "(a, t, r) \<in> set E" "set es \<subseteq> set E" using Cons.prems(3) by (simp_all add: e)
  note s1 = relax_edge_step [OF Cons.prems(1) m(1) Cons.prems(2,4) S1_def]
  have r: "relax c x (e # es) S = relax c x es S1" by (simp add: relax_def S1_def e)
  have "relaxed (ds @ [e]) S1 x" using s1(4) [OF Cons.prems(5)] by (simp only: e)
  from Cons.IH [OF s1(1) s1(2) [symmetric] m(2) s1(3) this] s1(5) show ?case
    unfolding r by auto
qed


section \<open>The loop\<close>

text \<open>
  With the frontier intact, a cost \<open>k\<close> below every entry of the heap bounds every walk whose
  end is not yet at its least distance.
\<close>

lemma walk_bound:
  assumes inv: "search_inv E s c0 S" and fr: "\<forall>v. frontier E S v"
    and k: "\<forall>y \<in> set (s_heap S). k \<le> unat (cost_us y)"
  shows "walk E s p c v \<Longrightarrow> unat (dist_of S v) \<le> unat c0 + c \<or> k \<le> unat c0 + c"
proof (induction rule: walk.induct)
  case start
  then show ?case using inv by (simp add: search_inv_def)
next
  case (step p c u v r)
  show ?case
  proof (cases "k \<le> unat c0 + c")
    case True
    then show ?thesis by simp
  next
    case False
    then have u: "unat (dist_of S u) \<le> unat c0 + c" using step.IH by blast
    have "Dijkstra_State (dist_of S u) u \<notin> set (s_heap S)"
      using k u False by (metis dijkstra_state.sel(1) le_trans)
    then have "unat (dist_of S v) \<le> unat (dist_of S u) + cost r"
      using fr step.hyps(2) unfolding frontier_def by blast
    with u show ?thesis by simp
  qed
qed

definition search_result :: "edges \<Rightarrow> node_name \<Rightarrow> u64 \<Rightarrow> node_name \<Rightarrow> search \<Rightarrow> bool" where
  "search_result E s c0 dest S \<longleftrightarrow> search_inv E s c0 S \<and>
     (\<forall>p c. walk E s p c dest \<longrightarrow> unat (dist_of S dest) \<le> unat c0 + c)"

lemma search_inv_heap:
  "search_inv E s c0 S \<Longrightarrow> set h \<subseteq> set (s_heap S) \<Longrightarrow> search_inv E s c0 (S\<lparr>s_heap := h\<rparr>)"
  unfolding search_inv_def by (auto simp: dist_of_def)

lemma potential_heap [simp]: "potential E (S\<lparr>s_heap := h\<rparr>) = potential E S"
  by (simp add: potential_def)

lemma relax_all:
  assumes inv: "search_inv E s c0 S" and fr: "\<forall>v. v \<noteq> x \<longrightarrow> frontier E S v"
  shows "search_inv E s c0 (relax (dist_of S x) x E S)" (is ?inv)
    and "\<forall>v. frontier E (relax (dist_of S x) x E S) v" (is ?fr)
    and "relax (dist_of S x) x E S = S \<or> potential E (relax (dist_of S x) x E S) < potential E S" (is ?pot)
proof -
  have "relaxed [] S x" by (simp add: relaxed_def)
  note R = relax_step [OF inv refl order_refl fr this, unfolded append_Nil]
  show ?inv using R by (rule conjunct1)
  show ?pot using R by (elim conjE)
  have "relaxed E (relax (dist_of S x) x E S) x" using R by (elim conjE)
  then have x: "frontier E (relax (dist_of S x) x E S) x" by (simp add: frontier_def relaxed_def)
  have "\<forall>v. v \<noteq> x \<longrightarrow> frontier E (relax (dist_of S x) x E S) v" using R by (elim conjE)
  with x show ?fr by metis
qed

lemma pop_frontier:
  assumes "max_heap pop" "pop (s_heap S) = Some (st, h)" "frontier E S v"
    and "st \<noteq> Dijkstra_State (dist_of S v) v"
  shows "frontier E (S\<lparr>s_heap := h\<rparr>) v"
  using assms(3) max_heap.pop_keeps [OF assms(1,2)] assms(4) unfolding frontier_def by auto

lemma search_loop_result:
  assumes heap: "max_heap pop"
  shows "search_inv E s c0 S \<Longrightarrow> \<forall>v. frontier E S v \<Longrightarrow>
    \<exists>S'. search_loop pop E dest S = Some S' \<and> search_result E s c0 dest S'"
proof (induction S rule: wf_induct_rule [OF wf_search_less [of E]])
  case (1 S)
  note inv = 1(2) and fr = 1(3)
  show ?case
  proof (cases "pop (s_heap S)")
    case None
    then have "s_heap S = []" using max_heap.pop_None_iff [OF heap] by simp
    then have "unat (dist_of S dest) \<le> unat c0 + c" if "walk E s p c dest" for p c
      using walk_bound [OF inv fr _ that, of "Suc (unat c0 + c)"] by simp
    then have "search_result E s c0 dest S" using inv by (auto simp: search_result_def)
    then show ?thesis using None by (subst search_loop.simps) simp
  next
    case (Some xh)
    obtain st h where pop: "pop (s_heap S) = Some (st, h)" using Some by (cases xh) simp
    let ?S = "S\<lparr>s_heap := h\<rparr>" and ?x = "dnode st"
    have set_h: "set (s_heap S) = insert st (set h)" using max_heap.pop_set [OF heap pop] .
    have inv': "search_inv E s c0 ?S" using inv by (rule search_inv_heap) (use set_h in auto)
    have less: "(?S, S) \<in> search_less E"
      using max_heap.pop_length [OF heap pop] by (simp add: search_less_def)
    have low: "\<forall>y \<in> set (s_heap S). unat (cost_us st) \<le> unat (cost_us y)"
      using max_heap.pop_max [OF heap pop] set_h
      by (auto simp: state_le_iff word_le_nat_alt)
    have dx: "dist_of S ?x \<le> cost_us st" using inv set_h by (simp add: search_inv_def)
    consider (found) "?x = dest" | (stale) "?x \<noteq> dest" "dist_of S ?x < cost_us st"
      | (fresh) "?x \<noteq> dest" "cost_us st = dist_of S ?x"
      using dx by force
    then show ?thesis
    proof cases
      case found
      have "unat (dist_of S dest) \<le> unat c0 + c" if "walk E s p c dest" for p c
        using walk_bound [OF inv fr low that] dx found by (auto simp: word_le_nat_alt)
      then have "search_result E s c0 dest ?S" using inv' by (auto simp: search_result_def)
      then show ?thesis using found by (subst search_loop.simps) (simp add: pop)
    next
      case stale
      have "frontier E ?S v" for v
        using stale fr by (intro pop_frontier [OF heap pop]) (auto dest: arg_cong [where f = dnode])
      then have "\<exists>S'. search_loop pop E dest ?S = Some S' \<and> search_result E s c0 dest S'"
        using 1(1) [OF less inv'] by blast
      then show ?thesis using stale by (subst search_loop.simps) (simp add: pop)
    next
      case fresh
      have "frontier E ?S v" if "v \<noteq> ?x" for v
        using that fr by (intro pop_frontier [OF heap pop]) auto
      then have fr': "\<forall>v. v \<noteq> ?x \<longrightarrow> frontier E ?S v" by blast
      note R = relax_all [OF inv' fr']
      have "(relax (dist_of ?S ?x) ?x E ?S, S) \<in> search_less E"
        using R(3) less by (auto simp: search_less_def)
      then have "\<exists>S'. search_loop pop E dest (relax (dist_of ?S ?x) ?x E ?S) = Some S' \<and>
          search_result E s c0 dest S'"
        using 1(1) R(1,2) by blast
      then show ?thesis using fresh by (subst search_loop.simps) (simp add: pop)
    qed
  qed
qed

lemma search_returns:
  assumes "max_heap pop"
  obtains S where "search_loop pop E dest (search_init nodes s c0) = Some S" and "search_result E s c0 dest S"
  using search_loop_result [OF assms search_inv_init] frontier_init by metis

section \<open>From the result to the path\<close>

lemma chain_walk:
  assumes inv: "search_inv E s c0 S"
  shows "chain (dm_get (s_prev S)) s v p \<Longrightarrow>
    \<exists>c. walk E s p c v \<and> unat c0 + c \<le> unat (dist_of S v)"
proof (induction rule: chain.induct)
  case root
  have "dist_of S s = c0" using inv by (simp add: search_inv_def)
  then show ?case using walk.start [of E s] by fastforce
next
  case (link v u p)
  obtain c where c: "walk E s p c u" "unat c0 + c \<le> unat (dist_of S u)" using link.IH by blast
  obtain r where r: "(u, v, r) \<in> set E" "unat (dist_of S u) + cost r \<le> unat (dist_of S v)"
    using inv link.hyps(2) unfolding search_inv_def by blast
  have "walk E s (p @ [v]) (c + cost r) v" using c(1) r(1) by (rule walk.step)
  then show ?case using c(2) r(2) by (intro exI [of _ "c + cost r"]) simp
qed

text \<open>The walk back over a finished search.\<close>

lemma walk_back_result:
  assumes res: "search_result E s c0 dest S"
  obtains (path) p c where "dist_of S dest < U64_MAX \<or> dest = s" and "distinct p" and "walk E s p c dest"
      and "walk_back (s_prev S) s dest [dest] = Some (Some (rev p))" and "unat (dist_of S dest) = unat c0 + c"
    | (unreached) "\<not> (dist_of S dest < U64_MAX \<or> dest = s)"
      and "walk_back (s_prev S) s dest [dest] = Some None" and "dm_get (s_prev S) dest = None"
proof (cases "dist_of S dest < U64_MAX \<or> dest = s")
  case True
  have inv: "search_inv E s c0 S" using res by (simp add: search_result_def)
  then obtain p where p: "chain (dm_get (s_prev S)) s dest p" using True unfolding search_inv_def by blast
  obtain c where c: "walk E s p c dest" "unat c0 + c \<le> unat (dist_of S dest)"
    using chain_walk [OF inv p] by blast
  moreover have "unat (dist_of S dest) \<le> unat c0 + c" using res c(1) by (simp add: search_result_def)
  moreover obtain ps where "p = ps @ [dest]"
    using walk_ends [OF c(1)] by (metis append_butlast_last_id)
  then have "walk_back (s_prev S) s dest [dest] = Some (Some (rev p))"
    using walk_back_chain [OF p, of "[dest]"] by simp
  ultimately show thesis using True chain_distinct [OF p] by (intro path [of p c]) (simp_all only: le_antisym)
next
  case False
  then have "dm_get (s_prev S) dest = None"
    using res unfolding search_result_def search_inv_def by (meson not_None_eq)
  moreover from this have "walk_back (s_prev S) s dest [dest] = Some None"
    using False by (subst walk_back.simps) simp
  ultimately show thesis using False by (intro unreached)
qed

section \<open>The route\<close>

lemma walk_singleton: "walk E s p c v \<Longrightarrow> length p < 2 \<Longrightarrow> v = s \<and> c = 0"
  by (induction rule: walk.induct) (auto dest: walk_ends)

lemma dijkstra_shortest:
  assumes "max_heap pop"
  shows "(\<exists>p c. dijkstra pop m s dest = Some (Some p) \<and> distinct p \<and> walk (all_edges m) s p c dest \<and>
        (c < 2 ^ 64 - 1 \<or> dest = s) \<and> (\<forall>q d. walk (all_edges m) s q d dest \<longrightarrow> c \<le> d)) \<or>
    dijkstra pop m s dest = Some None \<and> dest \<noteq> s \<and>
      (\<forall>q d. walk (all_edges m) s q d dest \<longrightarrow> 2 ^ 64 - 1 \<le> d)"
proof -
  let ?E = "all_edges m"
  obtain S where S: "search_loop pop ?E dest (search_init (matrix_nodes m) s 0) = Some S"
    "search_result ?E s 0 dest S"
    using search_returns [OF assms] .
  have opt: "unat (dist_of S dest) \<le> d" if "walk ?E s q d dest" for q d
    using S(2) that by (simp add: search_result_def)
  have fin: "unat (dist_of S dest) < 2 ^ 64 - 1 \<longleftrightarrow> dist_of S dest < U64_MAX"
    by (simp add: word_less_nat_alt unat_U64_MAX)
  have D: "dijkstra pop m s dest = map_option (map_option rev) (walk_back (s_prev S) s dest [dest])"
    using S(1) by (simp add: dijkstra_def Let_def)
  consider p c where "dist_of S dest < U64_MAX \<or> dest = s" "distinct p" "walk ?E s p c dest"
      "walk_back (s_prev S) s dest [dest] = Some (Some (rev p))" "unat (dist_of S dest) = unat (0 :: u64) + c"
    | "\<not> (dist_of S dest < U64_MAX \<or> dest = s)" "walk_back (s_prev S) s dest [dest] = Some None"
    by (rule walk_back_result [OF S(2)])
  then show ?thesis
  proof cases
    case r: (1 p c)
    have "dijkstra pop m s dest = Some (Some p)" using r(4) by (simp add: D)
    moreover have "\<forall>q d. walk ?E s q d dest \<longrightarrow> c \<le> d" using opt r(5) by simp
    moreover have "c < 2 ^ 64 - 1 \<or> dest = s" using r(1) r(5) fin by (metis add_0 unat_0)
    ultimately show ?thesis using r(2,3) by blast
  next
    case r: 2
    then have "\<forall>q d. walk ?E s q d dest \<longrightarrow> 2 ^ 64 - 1 \<le> d" using opt fin by (meson le_trans not_less)
    with r show ?thesis by (simp add: D)
  qed
qed

text \<open>The hops of a route and the sum of their round-trip times.\<close>

fun hops_rtt :: "latency_matrix \<Rightarrow> node_name list \<Rightarrow> duration" where
  "hops_rtt m (a # b # p) = (case get_rtt m a b of None \<Rightarrow> 0 | Some r \<Rightarrow> r) + hops_rtt m (b # p)"
| "hops_rtt m _ = 0"

lemma path_cost_from_eq:
  "acc + hops_rtt m p < DURATION_END \<Longrightarrow> path_cost_from m acc p = Inr (acc + hops_rtt m p)"
  by (induction m acc p rule: path_cost_from.induct) (auto split: option.splits)

lemma path_cost_from_overflow:
  "acc < DURATION_END \<Longrightarrow> DURATION_END \<le> acc + hops_rtt m p \<Longrightarrow> path_cost_from m acc p = Inl Overflow_Panic"
  by (induction m acc p rule: path_cost_from.induct) (auto split: option.splits)

lemma hops_rtt_snoc:
  "p \<noteq> [] \<Longrightarrow> hops_rtt m (p @ [v]) = hops_rtt m p + (case get_rtt m (last p) v of None \<Rightarrow> 0 | Some r \<Rightarrow> r)"
  by (induction m p rule: hops_rtt.induct) auto

text \<open>The cost of a walk in the matrix is, up to truncation of each hop to microseconds, its time.\<close>

lemma walk_cost_micros:
  assumes "dm_wf m" "\<forall>a b r. get_rtt m a b = Some r \<longrightarrow> as_micros r < 2 ^ 64"
  shows "walk (all_edges m) s p c v \<Longrightarrow>
    from_micros c \<le> hops_rtt m p \<and> hops_rtt m p < from_micros (c + length p)"
proof (induction rule: walk.induct)
  case start
  then show ?case by (simp add: from_micros_def)
next
  case (step p c u v r)
  have r: "get_rtt m u v = Some r" using step.hyps(2) assms(1) by (simp add: all_edges_iff)
  have "cost r = as_micros r"
    using assms(2) r by (simp add: cost_def edge_cost_def unat_of_nat)
  then have "from_micros (cost r) \<le> r" "r < from_micros (cost r) + 1000"
    by (simp_all add: from_micros_def as_micros_def)
  moreover have "p \<noteq> []" "last p = u" using walk_ends [OF step.hyps(1)] by simp_all
  ultimately show ?case using step.IH r by (simp add: hops_rtt_snoc from_micros_def)
qed

lemma next_hop_total:
  assumes "max_heap pop" and "dest \<noteq> rt_local rt"
  obtains (route) p c where "walk (all_edges (rt_matrix rt)) (rt_local rt) p c dest" and "distinct p"
      and "2 \<le> length p" and "\<forall>q d. walk (all_edges (rt_matrix rt)) (rt_local rt) q d dest \<longrightarrow> c \<le> d"
      and "c < 2 ^ 64 - 1"
      and "next_hop pop rt dest = Some (if hops_rtt (rt_matrix rt) p < DURATION_END
        then Inr (Some \<lparr>next_hop_node = p ! 1, total_rtt = hops_rtt (rt_matrix rt) p, route_path = p\<rparr>)
        else Inl Overflow_Panic)"
    | (none) "next_hop pop rt dest = Some (Inr None)"
      and "\<forall>q d. walk (all_edges (rt_matrix rt)) (rt_local rt) q d dest \<longrightarrow> 2 ^ 64 - 1 \<le> d"
proof -
  let ?m = "rt_matrix rt" and ?s = "rt_local rt"
  consider p c where "dijkstra pop ?m ?s dest = Some (Some p)" "distinct p" "walk (all_edges ?m) ?s p c dest"
      "c < 2 ^ 64 - 1 \<or> dest = ?s" "\<forall>q d. walk (all_edges ?m) ?s q d dest \<longrightarrow> c \<le> d"
    | "dijkstra pop ?m ?s dest = Some None" "\<forall>q d. walk (all_edges ?m) ?s q d dest \<longrightarrow> 2 ^ 64 - 1 \<le> d"
    using dijkstra_shortest [OF assms(1), of ?m ?s dest] by blast
  then show thesis
  proof cases
    case 1
    have len: "2 \<le> length p" using walk_singleton [OF 1(3)] assms(2) by (meson not_less)
    have cost: "path_cost ?m p = (if hops_rtt ?m p < DURATION_END then Inr (hops_rtt ?m p) else Inl Overflow_Panic)"
      using path_cost_from_eq [of 0 ?m p] path_cost_from_overflow [of 0 ?m p]
      by (simp add: path_cost_def DURATION_END_def)
    have "next_hop pop rt dest = Some (if hops_rtt ?m p < DURATION_END
        then Inr (Some \<lparr>next_hop_node = p ! 1, total_rtt = hops_rtt ?m p, route_path = p\<rparr>)
        else Inl Overflow_Panic)"
      using 1(1) len assms(2) cost by (simp add: next_hop_def)
    then show thesis using 1 len assms(2) by (intro route [of p c]) simp_all
  next
    case 2
    then show thesis using assms(2) by (intro none) (simp_all add: next_hop_def)
  qed
qed

lemma dijkstra_via_total:
  assumes "max_heap pop" and via: "get_rtt (rt_matrix rt) (rt_local rt) via = Some first"
  obtains (route) p c where "walk (all_edges (rt_matrix rt)) via p c dest" and "distinct p"
      and "\<forall>q d. walk (all_edges (rt_matrix rt)) via q d dest \<longrightarrow> c \<le> d"
      and "dijkstra_via pop rt via dest = Some (Some \<lparr>next_hop_node = via,
        total_rtt = from_micros (unat (edge_cost first) + c), route_path = rt_local rt # p\<rparr>)"
    | (none) "dijkstra_via pop rt via dest = Some None"
      and "\<forall>q d. walk (all_edges (rt_matrix rt)) via q d dest \<longrightarrow> 2 ^ 64 - 1 \<le> unat (edge_cost first) + d"
proof -
  let ?E = "all_edges (rt_matrix rt)" and ?c0 = "edge_cost first"
  obtain S where S: "search_loop pop ?E dest (search_init (matrix_nodes (rt_matrix rt)) via ?c0) = Some S"
    "search_result ?E via ?c0 dest S"
    using search_returns [OF assms(1)] .
  have opt: "unat (dist_of S dest) \<le> unat ?c0 + d" if "walk ?E via q d dest" for q d
    using S(2) that by (simp add: search_result_def)
  consider p c where "dist_of S dest < U64_MAX \<or> dest = via" "distinct p" "walk ?E via p c dest"
      "walk_back (s_prev S) via dest [dest] = Some (Some (rev p))" "unat (dist_of S dest) = unat ?c0 + c"
    | "\<not> (dist_of S dest < U64_MAX \<or> dest = via)" "walk_back (s_prev S) via dest [dest] = Some None"
      "dm_get (s_prev S) dest = None"
    by (rule walk_back_result [OF S(2)])
  then show thesis
  proof cases
    case 1
    have "dm_get (s_prev S) dest \<noteq> None" if "via \<noteq> dest"
    proof
      assume "dm_get (s_prev S) dest = None"
      then have "walk_back (s_prev S) via dest [dest] = Some None"
        using that by (subst walk_back.simps) simp
      with 1(4) show False by simp
    qed
    then have "dijkstra_via pop rt via dest = Some (Some \<lparr>next_hop_node = via,
        total_rtt = from_micros (unat ?c0 + c), route_path = rt_local rt # p\<rparr>)"
      using via S(1) 1(4,5) by (auto simp: dijkstra_via_def Let_def)
    moreover have "\<forall>q d. walk ?E via q d dest \<longrightarrow> c \<le> d" using opt 1(5) by fastforce
    ultimately show thesis using 1(2,3) by (intro route)
  next
    case 2
    have "unat (dist_of S dest) = 2 ^ 64 - 1"
      using 2(1) le_U64_MAX [of "dist_of S dest"] unat_U64_MAX by (metis antisym_conv2)
    then have "\<forall>q d. walk ?E via q d dest \<longrightarrow> 2 ^ 64 - 1 \<le> unat ?c0 + d" using opt by metis
    moreover have "dijkstra_via pop rt via dest = Some None"
      using via S(1) 2 by (auto simp: dijkstra_via_def Let_def)
    ultimately show thesis by (intro none)
  qed
qed

text \<open>The alternative routes.\<close>

definition via_routes :: "dijkstra_state heap_pop \<Rightarrow> mesh_router \<Rightarrow> node_name \<Rightarrow> node_name list \<Rightarrow> route_entry list" where
  "via_routes pop rt dest ns =
     concat (map (\<lambda>n. case dijkstra_via pop rt n dest of Some (Some e) \<Rightarrow> [e] | _ \<Rightarrow> []) ns)"

lemma dijkstra_via_returns:
  assumes "max_heap pop"
  obtains (none) "dijkstra_via pop rt via dest = Some None"
    | (route) e where "dijkstra_via pop rt via dest = Some (Some e)" and "next_hop_node e = via"
proof (cases "get_rtt (rt_matrix rt) (rt_local rt) via")
  case None
  then show thesis by (intro none) (simp add: dijkstra_via_def)
next
  case (Some first)
  show thesis
    by (rule dijkstra_via_total [OF assms Some, where dest = dest]) (auto intro: none route)
qed

lemma routes_via_eq:
  assumes "max_heap pop"
  shows "routes_via pop rt dest ns = Some (via_routes pop rt dest ns)"
proof (induction ns)
  case Nil
  then show ?case by (simp add: via_routes_def)
next
  case (Cons n ns)
  show ?case
    by (rule dijkstra_via_returns [OF assms, of rt n dest]) (simp_all add: Cons via_routes_def)
qed

lemma via_routes_mem:
  assumes "max_heap pop" "e \<in> set (via_routes pop rt dest ns)"
  shows "next_hop_node e \<in> set ns \<and> dijkstra_via pop rt (next_hop_node e) dest = Some (Some e)"
proof -
  obtain n where n: "n \<in> set ns" "dijkstra_via pop rt n dest = Some (Some e)"
    using assms(2) by (auto simp: via_routes_def split: option.splits)
  have "next_hop_node e = n"
    by (rule dijkstra_via_returns [OF assms(1), of rt n dest]) (use n(2) in auto)
  with n show ?thesis by simp
qed

lemma via_routes_distinct:
  assumes "max_heap pop"
  shows "distinct ns \<Longrightarrow> distinct (map next_hop_node (via_routes pop rt dest ns))"
proof (induction ns)
  case Nil
  then show ?case by (simp add: via_routes_def)
next
  case (Cons n ns)
  have split: "via_routes pop rt dest (n # ns) =
      (case dijkstra_via pop rt n dest of Some (Some e) \<Rightarrow> [e] | _ \<Rightarrow> []) @ via_routes pop rt dest ns"
    by (simp add: via_routes_def)
  have "n \<notin> next_hop_node ` set (via_routes pop rt dest ns)"
    using via_routes_mem [OF assms] Cons.prems by auto
  with Cons show ?case
    unfolding split by (cases rule: dijkstra_via_returns [OF assms, of rt n dest]) simp_all
qed

lemma take_sorted_best:
  assumes "sorted (map f xs)" "x \<in> set xs" "x \<notin> set (take n xs)"
  shows "length (take n xs) = n \<and> (\<forall>y \<in> set (take n xs). (f y :: nat) \<le> f x)"
proof -
  have "x \<in> set (drop n xs)" using assms(2,3) by (metis Un_iff append_take_drop_id set_append)
  moreover have "sorted (map f (take n xs @ drop n xs))" using assms(1) by simp
  then have "\<forall>y \<in> set (take n xs). \<forall>z \<in> set (drop n xs). f y \<le> f z"
    by (simp only: map_append sorted_append) simp
  moreover have "n \<le> length xs" using calculation(1) by (cases "n \<le> length xs") auto
  ultimately show ?thesis by simp
qed

lemmas search_eval = search_loop.simps walk_back.simps search_init_def relax_def relax_edge_def dist_of_def
  saturating_add_def edge_cost_def as_micros_def from_micros_def U64_MAX_def dm_get_def dm_insert_def
  all_edges_def matrix_nodes_def entry_new_def get_rtt_def Let_def

section \<open>Properties\<close>

text \<open>C8. The router finds the shortest route, whichever of several cheapest entries the heap returns
  first: for any other node, \<open>next_hop\<close> returns; either with a walk over edges of the matrix from the
  local node to the destination that visits no node twice, has the least cost in microseconds of all
  such walks, names its second node as next hop and the sum of its round-trip times as total; or with
  no route, and then every walk costs at least the saturated maximum. It panics only when the sum of
  the times of the best route does not fit a \<open>Duration\<close>.\<close>

theorem next_hop_shortest:
  assumes "max_heap pop" and "dest \<noteq> rt_local rt"
  shows "(\<exists>p c. walk (all_edges (rt_matrix rt)) (rt_local rt) p c dest \<and> distinct p \<and> 2 \<le> length p \<and>
      (\<forall>q d. walk (all_edges (rt_matrix rt)) (rt_local rt) q d dest \<longrightarrow> c \<le> d) \<and>
      next_hop pop rt dest = Some (if hops_rtt (rt_matrix rt) p < DURATION_END
        then Inr (Some \<lparr>next_hop_node = p ! 1, total_rtt = hops_rtt (rt_matrix rt) p, route_path = p\<rparr>)
        else Inl Overflow_Panic)) \<or>
    (next_hop pop rt dest = Some (Inr None) \<and>
      (\<forall>q d. walk (all_edges (rt_matrix rt)) (rt_local rt) q d dest \<longrightarrow> 2 ^ 64 - 1 \<le> d))"
  using assms by (rule next_hop_total) blast+

definition demo_router :: mesh_router where
  "demo_router = \<lparr>rt_local = ''syd'', rt_matrix =
     [((''syd'', ''sgp''), entry_new 0 50000000), ((''sgp'', ''lon''), entry_new 0 80000000),
      ((''syd'', ''lon''), entry_new 0 200000000)]\<rparr>"

theorem next_hop_shortest_witness:
  "(\<exists>p c. walk (all_edges (rt_matrix demo_router)) (rt_local demo_router) p c ''lon'' \<and> distinct p \<and> 2 \<le> length p \<and>
      (\<forall>q d. walk (all_edges (rt_matrix demo_router)) (rt_local demo_router) q d ''lon'' \<longrightarrow> c \<le> d) \<and>
      next_hop pop_cheapest demo_router ''lon'' = Some (if hops_rtt (rt_matrix demo_router) p < DURATION_END
        then Inr (Some \<lparr>next_hop_node = p ! 1, total_rtt = hops_rtt (rt_matrix demo_router) p, route_path = p\<rparr>)
        else Inl Overflow_Panic)) \<or>
    (next_hop pop_cheapest demo_router ''lon'' = Some (Inr None) \<and>
      (\<forall>q d. walk (all_edges (rt_matrix demo_router)) (rt_local demo_router) q d ''lon'' \<longrightarrow> 2 ^ 64 - 1 \<le> d))"
  by (rule next_hop_shortest [OF cheapest.max_heap_axioms]) (simp add: demo_router_def)

text \<open>C27. The measured time of the route that is chosen is less than one microsecond per node on it above
  the time of any other walk: the loss is the truncation of every hop to whole microseconds.\<close>

theorem next_hop_near_optimal_rtt:
  assumes "max_heap pop" "dest \<noteq> rt_local rt" "dm_wf (rt_matrix rt)"
    and "\<forall>a b r. get_rtt (rt_matrix rt) a b = Some r \<longrightarrow> as_micros r < 2 ^ 64"
    and "next_hop pop rt dest = Some (Inr (Some r))"
    and "walk (all_edges (rt_matrix rt)) (rt_local rt) q d dest"
  shows "total_rtt r < hops_rtt (rt_matrix rt) q + 1000 * length (route_path r)"
  using assms(1,2)
proof (rule next_hop_total)
  fix p c
  assume w: "walk (all_edges (rt_matrix rt)) (rt_local rt) p c dest"
    and opt: "\<forall>q d. walk (all_edges (rt_matrix rt)) (rt_local rt) q d dest \<longrightarrow> c \<le> d"
    and n: "next_hop pop rt dest = Some (if hops_rtt (rt_matrix rt) p < DURATION_END
        then Inr (Some \<lparr>next_hop_node = p ! 1, total_rtt = hops_rtt (rt_matrix rt) p, route_path = p\<rparr>)
        else Inl Overflow_Panic)"
  have r: "total_rtt r = hops_rtt (rt_matrix rt) p" "route_path r = p"
    using n assms(5) by (auto split: if_splits)
  have "c \<le> d" using opt assms(6) by blast
  then show ?thesis
    using walk_cost_micros [OF assms(3,4) w] walk_cost_micros [OF assms(3,4,6)] unfolding r
    by (simp add: from_micros_def)
next
  assume "next_hop pop rt dest = Some (Inr None)"
  with assms(5) show ?thesis by simp
qed

theorem next_hop_near_optimal_rtt_witness:
  "\<exists>r. next_hop pop_cheapest demo_router ''lon'' = Some (Inr (Some r)) \<and> route_path r = [''syd'', ''sgp'', ''lon''] \<and>
    total_rtt r < 200000000 + 1000 * 3"
proof -
  let ?r = "\<lparr>next_hop_node = ''sgp'', total_rtt = 130000000, route_path = [''syd'', ''sgp'', ''lon'']\<rparr>"
  let ?E = "all_edges (rt_matrix demo_router)"
  have n: "next_hop pop_cheapest demo_router ''lon'' = Some (Inr (Some ?r))"
    by (simp add: next_hop_def dijkstra_def path_cost_def DURATION_END_def demo_router_def search_eval)
  have "(''syd'', ''lon'', 200000000) \<in> set ?E" by (simp add: demo_router_def all_edges_def entry_new_def)
  from walk.step [OF walk.start this]
  have w: "walk ?E (rt_local demo_router) [''syd'', ''lon''] (0 + cost 200000000) ''lon''"
    by (simp add: demo_router_def)
  have "total_rtt ?r < hops_rtt (rt_matrix demo_router) [''syd'', ''lon''] + 1000 * length (route_path ?r)"
    by (rule next_hop_near_optimal_rtt [OF cheapest.max_heap_axioms _ _ _ n w])
      (auto simp: demo_router_def dm_wf_def get_rtt_def dm_get_def entry_new_def as_micros_def split: if_splits)
  with n show ?thesis by (simp add: demo_router_def get_rtt_def dm_get_def entry_new_def)
qed

text \<open>C25. A route forced over a neighbour is the local node in front of the cheapest walk from that
  neighbour, and its total is the truncated time of the first hop plus the cost of that walk.\<close>

theorem dijkstra_via_shortest:
  assumes "max_heap pop" and "get_rtt (rt_matrix rt) (rt_local rt) via = Some first"
  shows "(\<exists>p c. walk (all_edges (rt_matrix rt)) via p c dest \<and> distinct p \<and>
      (\<forall>q d. walk (all_edges (rt_matrix rt)) via q d dest \<longrightarrow> c \<le> d) \<and>
      dijkstra_via pop rt via dest = Some (Some \<lparr>next_hop_node = via,
        total_rtt = from_micros (unat (edge_cost first) + c), route_path = rt_local rt # p\<rparr>)) \<or>
    (dijkstra_via pop rt via dest = Some None \<and>
      (\<forall>q d. walk (all_edges (rt_matrix rt)) via q d dest \<longrightarrow> 2 ^ 64 - 1 \<le> unat (edge_cost first) + d))"
  using assms by (rule dijkstra_via_total) blast+

theorem dijkstra_via_shortest_witness:
  "(\<exists>p c. walk (all_edges (rt_matrix demo_router)) ''sgp'' p c ''lon'' \<and> distinct p \<and>
      (\<forall>q d. walk (all_edges (rt_matrix demo_router)) ''sgp'' q d ''lon'' \<longrightarrow> c \<le> d) \<and>
      dijkstra_via pop_cheapest demo_router ''sgp'' ''lon'' = Some (Some \<lparr>next_hop_node = ''sgp'',
        total_rtt = from_micros (unat (edge_cost 50000000) + c), route_path = rt_local demo_router # p\<rparr>)) \<or>
    (dijkstra_via pop_cheapest demo_router ''sgp'' ''lon'' = Some None \<and>
      (\<forall>q d. walk (all_edges (rt_matrix demo_router)) ''sgp'' q d ''lon'' \<longrightarrow>
         2 ^ 64 - 1 \<le> unat (edge_cost 50000000) + d))"
  by (rule dijkstra_via_shortest [OF cheapest.max_heap_axioms])
    (simp add: demo_router_def get_rtt_def dm_get_def entry_new_def)

text \<open>C26. \<open>top_paths\<close> returns; its routes are at most \<open>n\<close>, cheapest first, over distinct neighbours, each
  the route forced over that neighbour, and a neighbour's route is left out only when \<open>n\<close> routes at
  least as cheap are returned.\<close>

theorem top_paths_best:
  assumes "max_heap pop" and "dest \<noteq> rt_local rt"
  shows "\<exists>rs. top_paths pop rt dest n = Some rs \<and> length rs \<le> n \<and> sorted (map total_rtt rs) \<and>
    distinct (map next_hop_node rs) \<and>
    (\<forall>e \<in> set rs. next_hop_node e \<in> set (neighbors rt) \<and>
       dijkstra_via pop rt (next_hop_node e) dest = Some (Some e)) \<and>
    (\<forall>v \<in> set (neighbors rt). \<forall>e. dijkstra_via pop rt v dest = Some (Some e) \<longrightarrow>
       e \<in> set rs \<or> length rs = n \<and> (\<forall>f \<in> set rs. total_rtt f \<le> total_rtt e))"
proof -
  let ?rs = "via_routes pop rt dest (neighbors rt)"
  let ?ss = "sort_key total_rtt ?rs"
  have top: "top_paths pop rt dest n = Some (take n ?ss)"
    using assms(2) by (simp add: top_paths_def routes_via_eq [OF assms(1)])
  have "sorted (map total_rtt (take n ?ss))" 
    unfolding take_map [symmetric] by (intro sorted_wrt_take) simp
  moreover have "distinct (map next_hop_node ?rs)"
    by (rule via_routes_distinct [OF assms(1)]) (simp add: neighbors_def)
  then have "distinct (map next_hop_node ?ss)"
    by (simp add: distinct_map distinct_sort)
  then have "distinct (map next_hop_node (take n ?ss))" by (simp add: take_map [symmetric])
  moreover have "\<forall>e \<in> set (take n ?ss). next_hop_node e \<in> set (neighbors rt) \<and>
      dijkstra_via pop rt (next_hop_node e) dest = Some (Some e)"
    using via_routes_mem [OF assms(1)] by (metis in_set_takeD set_sort)
  moreover have "e \<in> set (take n ?ss) \<or>
      length (take n ?ss) = n \<and> (\<forall>f \<in> set (take n ?ss). total_rtt f \<le> total_rtt e)"
    if "v \<in> set (neighbors rt)" "dijkstra_via pop rt v dest = Some (Some e)" for v e
  proof -
    have "e \<in> set ?rs" using that by (force simp: via_routes_def)
    then show ?thesis using take_sorted_best [of total_rtt ?ss e n] by auto
  qed
  ultimately show ?thesis using top by (intro exI [of _ "take n ?ss"]) simp
qed

theorem top_paths_best_witness:
  "\<exists>rs. top_paths pop_cheapest demo_router ''lon'' 5 = Some rs \<and> length rs \<le> 5 \<and> sorted (map total_rtt rs)"
  using top_paths_best [OF cheapest.max_heap_axioms, of "''lon''" demo_router 5]
  by (auto simp: demo_router_def)

text \<open>C12. The searches return: whatever the matrix holds (cycles, zero costs, saturating costs, unknown
  names), and however the heap orders entries of equal cost, \<open>next_hop\<close>, \<open>dijkstra_via\<close> and \<open>top_paths\<close>
  have a result; the loops that pop the heap and that walk back over the predecessors both end.\<close>

theorem router_terminates:
  assumes "max_heap pop"
  shows "\<exists>route via_route paths. next_hop pop rt dest = Some route \<and>
    dijkstra_via pop rt via dest = Some via_route \<and> top_paths pop rt dest n = Some paths"
proof -
  have "\<exists>route. next_hop pop rt dest = Some route"
  proof (cases "dest = rt_local rt")
    case True
    then show ?thesis by (simp add: next_hop_def)
  next
    case False
    from assms False show ?thesis by (cases rule: next_hop_total) auto
  qed
  moreover have "\<exists>via_route. dijkstra_via pop rt via dest = Some via_route"
    by (rule dijkstra_via_returns [OF assms, of rt via dest]) auto
  moreover have "\<exists>paths. top_paths pop rt dest n = Some paths"
    by (simp add: top_paths_def routes_via_eq [OF assms])
  ultimately show ?thesis by simp
qed

theorem router_terminates_witness:
  "\<exists>route via_route paths. next_hop pop_cheapest demo_router ''nowhere'' = Some route \<and>
    dijkstra_via pop_cheapest demo_router ''syd'' ''nowhere'' = Some via_route \<and>
    top_paths pop_cheapest demo_router ''nowhere'' 3 = Some paths"
  by (rule router_terminates [OF cheapest.max_heap_axioms])

definition loop_router :: mesh_router where
  "loop_router = \<lparr>rt_local = ''a'', rt_matrix =
     [((''a'', ''b''), entry_new 0 1000), ((''b'', ''a''), entry_new 0 1000),
      ((''a'', ''c''), entry_new 0 1000)]\<rparr>"

text \<open>A route forced over a neighbour may come back through the local node: the search from the
  neighbour does not leave the local node out.\<close>

theorem dijkstra_via_through_local:
  "dijkstra_via pop_cheapest loop_router ''b'' ''c'' =
     Some (Some \<lparr>next_hop_node = ''b'', total_rtt = 3000, route_path = [''a'', ''b'', ''a'', ''c'']\<rparr>)"
  by (simp add: dijkstra_via_def loop_router_def search_eval)

end
