(* ===== verification/Probe.thy ===== *)
theory Probe
  imports Latency_Matrix Tunnel
begin

text \<open>
  The prober of \<open>src/mesh/probe.rs\<close>: it numbers the probes it sends, remembers each with its peer and
  its time, and turns the echoed payload of a pong into a measurement of both directions in the
  latency matrix.  The matrix is shared with the router; here it is a field of the prober.
\<close>

section \<open>State and operations\<close>

record prober =
  pr_node :: node_name
  pr_matrix :: latency_matrix
  pr_pending :: "(u32, node_name \<times> instant) dmap"
  pr_next_id :: u32

definition prober_new :: "node_name \<Rightarrow> latency_matrix \<Rightarrow> prober" where
  "prober_new node m = \<lparr>pr_node = node, pr_matrix = m, pr_pending = [], pr_next_id = 1\<rparr>"

definition next_probe :: "prober \<Rightarrow> u32 \<times> prober" where
  "next_probe p = (case fetch_add (pr_next_id p) of (i, c) \<Rightarrow> (i, p\<lparr>pr_next_id := c\<rparr>))"

interpretation probe_ids: ticket_counter next_probe pr_next_id
  by unfold_locales (simp_all add: next_probe_def fetch_add_def)

definition PROBE_MAX_AGE :: nat where
  "PROBE_MAX_AGE = 10 * 10 ^ 9"

definition create_ping :: "instant \<Rightarrow> node_name \<Rightarrow> prober \<Rightarrow> bytes \<times> prober" where
  "create_ping now peer p =
     (case next_probe p of (probe_id, p) \<Rightarrow>
        (u32_to_le probe_id,
         p\<lparr>pr_pending := dm_retain (\<lambda>_ (_, t). now - t < PROBE_MAX_AGE)
                           (dm_insert probe_id (peer, now) (pr_pending p))\<rparr>))"

definition create_pong :: "bytes \<Rightarrow> bytes" where
  "create_pong ping_payload = ping_payload"

definition handle_pong :: "instant \<Rightarrow> node_name \<Rightarrow> bytes \<Rightarrow> prober \<Rightarrow> prober" where
  "handle_pong now from_peer payload p =
     (if length payload < 4 then p
      else let probe_id = u32_from_le [payload ! 0, payload ! 1, payload ! 2, payload ! 3]
           in case dm_get (pr_pending p) probe_id of
                None \<Rightarrow> p
              | Some (peer_id, send_time) \<Rightarrow>
                  let rtt = now - send_time
                  in p\<lparr>pr_pending := dm_remove probe_id (pr_pending p),
                       pr_matrix := matrix_update now peer_id (pr_node p) rtt
                                      (matrix_update now (pr_node p) peer_id rtt (pr_matrix p))\<rparr>)"

definition pending_count :: "prober \<Rightarrow> nat" where
  "pending_count p = length (pr_pending p)"

text \<open>
  One tick of \<open>probe_loop\<close>: the ping is recorded whether or not it can be sent.  The loop never ends; the list
  is the times of the ticks so far.
\<close>

definition probe_tick ::
    "aead_lib \<Rightarrow> udp_socket \<Rightarrow> instant \<Rightarrow> node_name \<Rightarrow> prober \<Rightarrow> tunnel \<Rightarrow> (bytes \<times> prober \<times> tunnel) outcome" where
  "probe_tick lib sock now peer p t =
     (case create_ping now peer p of (payload, p) \<Rightarrow>
        rbind (send lib sock PACKET_PING payload t) (\<lambda>(frame, _, t). Inr (frame, p, t)))"

definition zero_period :: panic where
  \<comment> \<open>\<open>tokio::time::interval\<close> panics on a period of zero\<close>
  "zero_period = Expect_Panic ''`period` must be non-zero.''"

fun probe_ticks ::
    "aead_lib \<Rightarrow> udp_socket \<Rightarrow> instant list \<Rightarrow> node_name \<Rightarrow> prober \<Rightarrow> tunnel \<Rightarrow> (bytes list \<times> prober \<times> tunnel) outcome" where
  "probe_ticks lib sock [] peer p t = Inr ([], p, t)"
| "probe_ticks lib sock (now # nows) peer p t =
     rbind (probe_tick lib sock now peer p t) (\<lambda>(frame, p, t).
     rbind (probe_ticks lib sock nows peer p t) (\<lambda>(frames, p, t). Inr (frame # frames, p, t)))"

definition probe_loop ::
    "aead_lib \<Rightarrow> udp_socket \<Rightarrow> u64 \<Rightarrow> instant list \<Rightarrow> node_name \<Rightarrow> prober \<Rightarrow> tunnel \<Rightarrow> (bytes list \<times> prober \<times> tunnel) outcome" where
  "probe_loop lib sock interval_ms nows peer p t =
     (if interval_ms = 0 then Inl zero_period else probe_ticks lib sock nows peer p t)"

section \<open>Lemmas\<close>

lemma prober_new_simps [simp]:
  "pr_node (prober_new n m) = n" "pr_matrix (prober_new n m) = m" "pr_pending (prober_new n m) = []"
  "pr_next_id (prober_new n m) = 1"
  by (simp_all add: prober_new_def)

lemma u32_le_list: "\<exists>a b c d. u32_to_le w = [a, b, c, d]"
  by (simp add: u32_to_le_def)

lemma u32_from_le_prefix:
  "u32_from_le [(u32_to_le w @ xs) ! 0, (u32_to_le w @ xs) ! 1, (u32_to_le w @ xs) ! 2, (u32_to_le w @ xs) ! 3] = w"
proof -
  obtain a b c d where "u32_to_le w = [a, b, c, d]" using u32_le_list by blast
  moreover from this have "u32_from_le [a, b, c, d] = w" by (metis from_to_le(2))
  ultimately show ?thesis by (simp add: eval_nat_numeral)
qed

lemma create_ping_fields:
  assumes "create_ping now peer p = (payload, p')"
  shows "payload = u32_to_le (pr_next_id p)" "pr_next_id p' = pr_next_id p + 1"
    "pr_matrix p' = pr_matrix p" "pr_node p' = pr_node p"
    "pr_pending p' = dm_retain (\<lambda>_ (_, t). now - t < PROBE_MAX_AGE)
       (dm_insert (pr_next_id p) (peer, now) (pr_pending p))"
  using assms by (auto simp: create_ping_def next_probe_def fetch_add_def)

text \<open>Every identifier of a probe in flight was drawn from the counter; the map is one.\<close>

definition prober_ok :: "prober \<Rightarrow> bool" where
  "prober_ok p \<longleftrightarrow> dm_wf (pr_pending p) \<and> dm_wf (pr_matrix p)"

lemma prober_ok_new: "dm_wf m \<Longrightarrow> prober_ok (prober_new node m)"
  by (simp add: prober_ok_def)

lemma prober_ok_ping: "prober_ok p \<Longrightarrow> create_ping now peer p = (payload, p') \<Longrightarrow> prober_ok p'"
  using create_ping_fields [of now peer p payload p'] by (auto simp: prober_ok_def)

lemma prober_ok_pong: "prober_ok p \<Longrightarrow> prober_ok (handle_pong now from payload p)"
  by (auto simp: prober_ok_def handle_pong_def Let_def split: option.splits)

lemma handle_pong_node [simp]: "pr_node (handle_pong now from payload p) = pr_node p"
  by (simp add: handle_pong_def Let_def split: option.splits)

lemma handle_pong_hit:
  assumes "dm_get (pr_pending p) i = Some (peer, t)"
  shows "handle_pong now from (u32_to_le i @ xs) p = p\<lparr>pr_pending := dm_remove i (pr_pending p),
     pr_matrix := matrix_update now peer (pr_node p) (now - t)
                    (matrix_update now (pr_node p) peer (now - t) (pr_matrix p))\<rparr>"
  using assms u32_from_le_prefix [of i xs] by (simp add: handle_pong_def Let_def)

lemma handle_pong_miss:
  assumes "dm_get (pr_pending p) i = None"
  shows "handle_pong now from (u32_to_le i @ xs) p = p"
  using assms u32_from_le_prefix [of i xs] by (simp add: handle_pong_def)

text \<open>The matrix of a prober only ever holds edges at its own node.\<close>

definition star_matrix :: "node_name \<Rightarrow> latency_matrix \<Rightarrow> bool" where
  "star_matrix n m \<longleftrightarrow> (\<forall>a b e. get_entry m a b = Some e \<longrightarrow> a = n \<or> b = n)"

lemma star_matrix_new: "star_matrix n matrix_new"
  by (simp add: star_matrix_def matrix_new_def get_entry_def)

lemma star_matrix_update: "star_matrix n m \<Longrightarrow> a = n \<or> b = n \<Longrightarrow> star_matrix n (matrix_update now a b r m)"
  by (auto simp: star_matrix_def get_entry_update)

lemma star_matrix_pong:
  "star_matrix (pr_node p) (pr_matrix p) \<Longrightarrow> star_matrix (pr_node p) (pr_matrix (handle_pong now from payload p))"
  by (auto simp: handle_pong_def Let_def star_matrix_update split: option.splits)

section \<open>Properties\<close>

text \<open>A probe answered in time is measured: when the payload of a ping comes back, with whatever
  bytes behind it, the time since the ping becomes the first round-trip time of both directions,
  and the probe is no longer pending.\<close>

theorem probe_measures_rtt:
  assumes "prober_ok p" "create_ping t0 peer p = (payload, p')"
    and "get_rtt (pr_matrix p) (pr_node p) peer = None" "get_rtt (pr_matrix p) peer (pr_node p) = None"
    and "peer \<noteq> pr_node p"
  shows "let q = handle_pong t1 from (create_pong payload @ xs) p' in
    get_rtt (pr_matrix q) (pr_node p) peer = Some (t1 - t0) \<and>
    get_rtt (pr_matrix q) peer (pr_node p) = Some (t1 - t0) \<and>
    dm_get (pr_pending q) (pr_next_id p) = None"
proof -
  note f = create_ping_fields [OF assms(2)]
  have "dm_get (pr_pending p') (pr_next_id p) = Some (peer, t0)"
    unfolding f(5) using assms(1)
    by (intro dm.retain_keeps) (auto simp: prober_ok_def PROBE_MAX_AGE_def)
  from handle_pong_hit [OF this, of t1 "from" xs] show ?thesis
    using assms(3-5) by (simp add: Let_def create_pong_def f get_rtt_entry get_entry_update entry_new_def)
qed

theorem probe_measures_rtt_witness:
  "get_rtt (pr_matrix (handle_pong 70 ''evil'' (create_pong (fst (create_ping 20 ''lon'' (prober_new ''syd'' matrix_new))) @ [9])
      (snd (create_ping 20 ''lon'' (prober_new ''syd'' matrix_new))))) ''syd'' ''lon'' = Some 50"
  using probe_measures_rtt [of "prober_new ''syd'' matrix_new" 20 "''lon''" "fst (create_ping 20 ''lon'' (prober_new ''syd'' matrix_new))"
      "snd (create_ping 20 ''lon'' (prober_new ''syd'' matrix_new))" 70 "''evil''" "[9]"]
  by (simp add: prober_ok_new matrix_new_def get_rtt_def Let_def)

text \<open>A probe loop sends one ping per tick, and nothing stops it: the \<open>k\<close>-th carries the \<open>k\<close>-th identifier under the
  \<open>k\<close>-th sequence number, whatever the socket does, and the pending probes it leaves behind are those of its
  last ten seconds at most.\<close>

theorem probe_loop_pings:
  assumes lib: "aead_lawful lib" and ms: "interval_ms \<noteq> 0"
  shows "length (cipher_key (tun_crypto t)) = 32 \<Longrightarrow>
    \<exists>frames p' t'. probe_loop lib sock interval_ms nows peer p t = Inr (frames, p', t') \<and> length frames = length nows \<and>
      pr_next_id p' = pr_next_id p + word_of_nat (length nows) \<and>
      (\<forall>k < length nows. build_frame lib (tun_crypto t) PACKET_PING (tun_tx_seq t + word_of_nat k)
         (u32_to_le (pr_next_id p + word_of_nat k)) = Inr (frames ! k)) \<and>
      (nows \<noteq> [] \<longrightarrow> (\<forall>(i, q, s) \<in> set (pr_pending p'). last nows - s < PROBE_MAX_AGE))"
proof (induction nows arbitrary: p t)
  case Nil
  then show ?case using ms by (simp add: probe_loop_def)
next
  case (Cons now nows)
  obtain payload p1 where ping: "create_ping now peer p = (payload, p1)" by fastforce
  note f = create_ping_fields [OF ping]
  have "length payload < 2 ^ 32" by (simp add: f(1))
  then obtain frame where frame: "build_frame lib (tun_crypto t) PACKET_PING (tun_tx_seq t) payload = Inr frame"
    using build_frame_ok [OF lib Cons.prems] by metis
  let ?t = "snd (next_seq t)"
  have seq: "tun_tx_seq ?t = tun_tx_seq t + 1" "tun_crypto ?t = tun_crypto t"
    by (simp_all add: next_seq_def fetch_add_def)
  have tick: "probe_tick lib sock now peer p t = Inr (frame, p1, ?t)"
    using frame by (simp add: probe_tick_def ping send_def next_seq_def fetch_add_def)
  have "length (cipher_key (tun_crypto ?t)) = 32" using Cons.prems seq(2) by simp
  from Cons.IH [OF this, of p1] obtain frames p' t' where
    IH: "probe_ticks lib sock nows peer p1 ?t = Inr (frames, p', t')" "length frames = length nows"
      "pr_next_id p' = pr_next_id p + 1 + word_of_nat (length nows)"
      "\<forall>k < length nows. build_frame lib (tun_crypto t) PACKET_PING (tun_tx_seq t + 1 + word_of_nat k)
         (u32_to_le (pr_next_id p + 1 + word_of_nat k)) = Inr (frames ! k)"
      "nows \<noteq> [] \<longrightarrow> (\<forall>(i, q, s) \<in> set (pr_pending p'). last nows - s < PROBE_MAX_AGE)"
    unfolding seq f(2) using ms by (auto simp: probe_loop_def)
  have young: "\<forall>(i, q, s) \<in> set (pr_pending p1). now - s < PROBE_MAX_AGE" by (auto simp: f(5) dm_retain_def)
  have "nows = [] \<Longrightarrow> p' = p1" using IH(1) by simp
  with IH young show ?case
    using tick ms frame f(1)
    by (intro exI [of _ "frame # frames"] exI [of _ p'] exI [of _ t'])
      (auto simp: probe_loop_def nth_Cons add_ac split: nat.split)
qed

text \<open>A pong is believed whoever sends it: the measurement goes to the peer the probe was sent to,
  and the peer the pong came from makes no difference. A pong that answers no pending probe, a
  second answer for instance, changes nothing.\<close>

theorem handle_pong_ignores_sender:
  "handle_pong now from1 payload p = handle_pong now from2 payload p \<and>
   (\<forall>i. dm_get (pr_pending p) i = None \<longrightarrow> handle_pong now from1 (u32_to_le i @ xs) p = p) \<and>
   (\<forall>i. dm_get (pr_pending (handle_pong now from1 (u32_to_le i @ xs) p)) i = None)"
proof (intro conjI allI impI)
  show "handle_pong now from1 payload p = handle_pong now from2 payload p" by (simp add: handle_pong_def)
  show "handle_pong now from1 (u32_to_le i @ xs) p = p" if "dm_get (pr_pending p) i = None" for i
    using that by (rule handle_pong_miss)
  show "dm_get (pr_pending (handle_pong now from1 (u32_to_le i @ xs) p)) i = None" for i
    using handle_pong_hit [of p i _ _ now from1 xs] handle_pong_miss [of p i now from1 xs]
    by (cases "dm_get (pr_pending p) i") auto
qed

theorem handle_pong_ignores_sender_witness:
  "handle_pong 5 ''lon'' (u32_to_le 7 @ [1]) (prober_new ''syd'' matrix_new) = prober_new ''syd'' matrix_new"
  using handle_pong_ignores_sender [of 5 "''lon''" "[]" "prober_new ''syd'' matrix_new" "''x''" "[1]"]
  by simp

text \<open>After every ping, the pending probes are those younger than ten seconds, and nothing else is
  forgotten: a probe survives a later ping exactly while its age is below the limit, as long as the
  32-bit counter has not come round to its identifier.\<close>

theorem create_ping_expires_stale:
  assumes "prober_ok p" "create_ping now peer p = (payload, p')" "i \<noteq> pr_next_id p"
  shows "dm_get (pr_pending p') i =
    (case dm_get (pr_pending p) i of None \<Rightarrow> None
     | Some (q, t) \<Rightarrow> if now - t < PROBE_MAX_AGE then Some (q, t) else None)"
proof -
  have "dm_wf (dm_insert (pr_next_id p) (peer, now) (pr_pending p))"
    using assms(1) by (simp add: prober_ok_def)
  from dm.get_retain [OF this] show ?thesis
    using assms(3) by (simp add: create_ping_fields(5) [OF assms(2)] split: option.splits)
qed

definition demo_prober :: prober where
  "demo_prober = \<lparr>pr_node = ''syd'', pr_matrix = [], pr_pending = [(1, ''lon'', 0), (2, ''sgp'', 9000000000)], pr_next_id = 3\<rparr>"

theorem create_ping_expires_stale_witness:
  "dm_get (pr_pending (snd (create_ping 10000000000 ''lon'' demo_prober))) 1 = None \<and>
   dm_get (pr_pending (snd (create_ping 10000000000 ''lon'' demo_prober))) 2 = Some (''sgp'', 9000000000)"
  using create_ping_expires_stale [of demo_prober 10000000000 "''lon''" "fst (create_ping 10000000000 ''lon'' demo_prober)"
      "snd (create_ping 10000000000 ''lon'' demo_prober)" 1]
    create_ping_expires_stale [of demo_prober 10000000000 "''lon''" "fst (create_ping 10000000000 ''lon'' demo_prober)"
      "snd (create_ping 10000000000 ''lon'' demo_prober)" 2]
  by (simp add: demo_prober_def prober_ok_def dm_wf_def PROBE_MAX_AGE_def dm_get_def)

end
