(* ===== verification/Relay_Header.thy ===== *)
theory Relay_Header
  imports Prelude
begin

text \<open>
  The relay header of \<open>src/relay/forwarder.rs\<close>: flow identifier, destination node and data.  A Rust
  string is represented by the string of its UTF-8 bytes, one \<open>char\<close> for each byte, and
  \<open>utf8_valid\<close> is the check of \<open>std::str::from_utf8\<close>.
\<close>

section \<open>Strings as UTF-8\<close>

definition str_bytes :: "string \<Rightarrow> bytes" where
  "str_bytes s = map (\<lambda>c. word_of_nat (of_char c)) s"

definition bytes_str :: "bytes \<Rightarrow> string" where
  "bytes_str bs = map (\<lambda>b. char_of (unat b)) bs"

definition utf8_cont :: "byte \<Rightarrow> bool" where
  "utf8_cont b \<longleftrightarrow> 0x80 \<le> b \<and> b \<le> 0xBF"

definition utf8_second :: "byte \<Rightarrow> byte \<Rightarrow> bool" where
  \<comment> \<open>the second byte after the lead byte \<open>b\<close>: no overlong form, no surrogate, at most U+10FFFF\<close>
  "utf8_second b c \<longleftrightarrow> utf8_cont c \<and> (b = 0xE0 \<longrightarrow> 0xA0 \<le> c) \<and> (b = 0xED \<longrightarrow> c \<le> 0x9F) \<and>
     (b = 0xF0 \<longrightarrow> 0x90 \<le> c) \<and> (b = 0xF4 \<longrightarrow> c \<le> 0x8F)"

fun utf8_valid :: "bytes \<Rightarrow> bool" where
  "utf8_valid [] = True"
| "utf8_valid (b # bs) =
     (if b < 0x80 then utf8_valid bs
      else if 0xC2 \<le> b \<and> b \<le> 0xDF then
        (case bs of c # bs \<Rightarrow> utf8_cont c \<and> utf8_valid bs | _ \<Rightarrow> False)
      else if 0xE0 \<le> b \<and> b \<le> 0xEF then
        (case bs of c # d # bs \<Rightarrow> utf8_second b c \<and> utf8_cont d \<and> utf8_valid bs | _ \<Rightarrow> False)
      else if 0xF0 \<le> b \<and> b \<le> 0xF4 then
        (case bs of c # d # e # bs \<Rightarrow> utf8_second b c \<and> utf8_cont d \<and> utf8_cont e \<and> utf8_valid bs | _ \<Rightarrow> False)
      else False)"

lemma length_str_bytes [simp]: "length (str_bytes s) = length s"
  by (simp add: str_bytes_def)

lemma length_bytes_str [simp]: "length (bytes_str bs) = length bs"
  by (simp add: bytes_str_def)

lemma bytes_str_bytes [simp]: "bytes_str (str_bytes s) = s"
proof -
  have "char_of (unat (word_of_nat (of_char c) :: byte)) = c" for c :: char
    by (simp add: unat_of_nat)
  then show ?thesis by (simp add: bytes_str_def str_bytes_def map_idI)
qed

lemma unat_byte_less: "unat (b :: byte) < 256"
  by (rule order_less_le_trans [OF unsigned_less]) simp

lemma str_bytes_str [simp]: "str_bytes (bytes_str bs) = bs"
proof -
  have "(word_of_nat (of_char (char_of (unat b) :: char)) :: byte) = b" for b :: byte
  proof -
    have "unat b < 256" by (rule unat_byte_less)
    then show ?thesis by (simp add: of_char_of)
  qed
  then show ?thesis by (simp add: bytes_str_def str_bytes_def map_idI)
qed

lemma str_bytes_inject: "str_bytes s = str_bytes t \<longleftrightarrow> s = t"
  by (metis bytes_str_bytes)

section \<open>Header\<close>

definition encode_relay_header :: "u32 \<Rightarrow> node_name \<Rightarrow> bytes \<Rightarrow> bytes" where
  "encode_relay_header flow_id dest_node data =
     (let dest_bytes = str_bytes dest_node;
          dest_len = min (length dest_bytes) 255
      in u32_to_le flow_id @ [word_of_nat dest_len] @ take dest_len dest_bytes @ data)"

definition decode_relay_header :: "bytes \<Rightarrow> (u32 \<times> node_name \<times> bytes) option" where
  "decode_relay_header buf =
     (if length buf < 5 then None
      else let flow_id = u32_from_le [buf ! 0, buf ! 1, buf ! 2, buf ! 3];
               dest_len = unat (buf ! 4)
           in if length buf < 5 + dest_len then None
              else let dest = take dest_len (drop 5 buf)
                   in if utf8_valid dest then Some (flow_id, bytes_str dest, drop (5 + dest_len) buf)
                      else None)"

lemma u32_to_le_four: "u32_to_le w = [u32_to_le w ! 0, u32_to_le w ! 1, u32_to_le w ! 2, u32_to_le w ! 3]"
  by (simp add: u32_to_le_def)

lemma drop_five: "drop (5 + k) (a # b # c # d # e # xs) = drop k xs"
  by (simp add: eval_nat_numeral)

lemma decode_encode_relay:
  assumes "utf8_valid (take 255 (str_bytes dest))"
  shows "decode_relay_header (encode_relay_header flow dest data) = Some (flow, take 255 dest, data)"
proof -
  obtain a b c d where f: "u32_to_le flow = [a, b, c, d]" using u32_to_le_four by blast
  then have w: "u32_from_le [a, b, c, d] = flow" by (metis from_to_le(2))
  define n where "n = min (length dest) 255"
  have n: "unat (word_of_nat n :: byte) = n" by (simp add: n_def unat_of_nat)
  have t: "take n (str_bytes dest) = take 255 (str_bytes dest)" "take n dest = take 255 dest"
    by (auto simp: n_def min_def)
  have e: "encode_relay_header flow dest data = a # b # c # d # word_of_nat n # take n (str_bytes dest) @ data"
    by (simp add: encode_relay_header_def f n_def Let_def)
  have l: "length (take n (str_bytes dest)) = n" by (simp add: n_def)
  have "bytes_str (take n (str_bytes dest)) = take n dest"
    by (metis bytes_str_bytes str_bytes_def take_map)
  then show ?thesis
    using assms n w l t drop_five [of n a b c d "word_of_nat n" "take n (str_bytes dest) @ data"]
    by (simp add: e decode_relay_header_def)
qed

type_synonym relay_header = "u32 \<times> node_name"

definition relay_ok :: "relay_header \<Rightarrow> bool" where
  "relay_ok h \<longleftrightarrow> length (snd h) \<le> 255 \<and> utf8_valid (str_bytes (snd h))"

definition relay_enc :: "relay_header \<Rightarrow> bytes \<Rightarrow> bytes" where
  "relay_enc h data = encode_relay_header (fst h) (snd h) data"

definition relay_dec :: "bytes \<Rightarrow> (relay_header \<times> bytes) option" where
  "relay_dec buf = map_option (\<lambda>(flow, dest, data). ((flow, dest), data)) (decode_relay_header buf)"

interpretation relay_codec: frame_codec relay_ok "\<lambda>h. 5 + length (snd h)" relay_enc relay_dec
proof
  fix h :: relay_header and p :: bytes
  assume ok: "relay_ok h"
  then have "take 255 (str_bytes (snd h)) = str_bytes (snd h)" "take 255 (snd h) = snd h"
    by (simp_all add: relay_ok_def)
  with ok show "relay_dec (relay_enc h p) = Some (h, p)"
    by (simp add: relay_dec_def relay_enc_def decode_encode_relay relay_ok_def)
  show "length (relay_enc h p) = 5 + length (snd h) + length p"
    using ok by (simp add: relay_enc_def encode_relay_header_def relay_ok_def)
next
  fix bs :: bytes and h :: relay_header and p
  assume dec: "relay_dec bs = Some (h, p)"
  then have "5 \<le> length bs"
    by (auto simp: relay_dec_def decode_relay_header_def split: if_splits)
  then obtain a b c d n rest where bs: "bs = a # b # c # d # n # rest"
    by (auto simp: Suc_le_length_iff numeral_eq_Suc)
  have r: "unat n \<le> length rest" "utf8_valid (take (unat n) rest)"
    "h = (u32_from_le [a, b, c, d], bytes_str (take (unat n) rest))" "p = drop (unat n) rest"
    using dec by (auto simp: bs relay_dec_def decode_relay_header_def Let_def drop_five split: if_splits)
  have n: "unat n \<le> 255" using unat_byte_less [of n] by simp
  have "u32_to_le (u32_from_le [a, b, c, d]) = [a, b, c, d]" by (simp add: to_from_le)
  then have "relay_enc h p = bs"
    using r n by (simp add: relay_enc_def encode_relay_header_def bs min_def)
  moreover have "relay_ok h" using r n by (simp add: relay_ok_def)
  ultimately show "relay_ok h \<and> relay_enc h p = bs" by simp
qed

lemma length_encode_relay:
  "length dest \<le> 255 \<Longrightarrow> length (encode_relay_header flow dest data) = 5 + length dest + length data"
  by (simp add: encode_relay_header_def)

section \<open>Properties\<close>

text \<open>Relay header round trip, both ways: for a destination of at most 255 bytes, decoding an
  encoded payload returns the flow, the destination and the data; and whatever decodes is the
  encoding of its parts, so distinct payloads never decode to the same packet.\<close>

theorem relay_header_roundtrip:
  "(length dest \<le> 255 \<and> utf8_valid (str_bytes dest) \<longrightarrow>
     decode_relay_header (encode_relay_header flow dest data) = Some (flow, dest, data)) \<and>
   (decode_relay_header buf = Some (flow', dest', data') \<longrightarrow>
     encode_relay_header flow' dest' data' = buf)"
proof -
  have "decode_relay_header (encode_relay_header flow dest data) = Some (flow, dest, data)"
    if "length dest \<le> 255" "utf8_valid (str_bytes dest)"
    using relay_codec.dec_enc [of "(flow, dest)" data] that
    by (simp add: relay_ok_def relay_dec_def relay_enc_def split_def prod_eq_iff)
  moreover have "encode_relay_header flow' dest' data' = buf"
    if "decode_relay_header buf = Some (flow', dest', data')"
    using relay_codec.enc_dec [of buf "(flow', dest')" data'] that
    by (simp add: relay_dec_def relay_enc_def)
  ultimately show ?thesis by blast
qed

theorem relay_header_roundtrip_witness:
  "decode_relay_header (encode_relay_header 42 ''syd-01'' [104, 105]) = Some (42, ''syd-01'', [104, 105])"
  using relay_header_roundtrip [of "''syd-01''" 42 "[104, 105]"] by (simp add: str_bytes_def)

text \<open>A destination longer than 255 bytes is cut: when the cut falls between characters the packet
  decodes, addressed to the first 255 bytes of the name, which is another node.\<close>

theorem relay_header_long_name_cut:
  assumes "255 < length dest" "utf8_valid (take 255 (str_bytes dest))"
  shows "decode_relay_header (encode_relay_header flow dest data) = Some (flow, take 255 dest, data) \<and>
    take 255 dest \<noteq> dest"
proof -
  have "length (take 255 dest) \<noteq> length dest" using assms(1) by simp
  then show ?thesis using decode_encode_relay [OF assms(2)] by fastforce
qed

lemma utf8_ascii: "\<forall>b \<in> set bs. b < 0x80 \<Longrightarrow> utf8_valid bs"
  by (induction bs) auto

theorem relay_header_long_name_cut_witness:
  "decode_relay_header (encode_relay_header 1 (replicate 256 CHR ''n'') [7]) =
    Some (1, replicate 255 CHR ''n'', [7])"
  using relay_header_long_name_cut [of "replicate 256 CHR ''n''" 1 "[7]"]
  by (simp add: str_bytes_def utf8_ascii)

end
