(* ===== verification/Forwarder.thy ===== *)
theory Forwarder
  imports Fec_Block Router Probe Relay_Header
begin

text \<open>
  The packet forwarder of \<open>src/relay/forwarder.rs\<close>: it registers tunnels, handles inbound packets,
  routes payloads to the local edge or to the next hop, and flushes partial blocks.  The state
  holds what the \<open>Forwarder\<close> owns or shares: the prober with the latency matrix, the tunnels (an
  arena, so that a map entry and a spawned task may share one), the FEC senders and receivers, the
  channel to the local edge, the spawned send tasks, and the frames given to the socket.

  A run can panic (\<open>Inl\<close>) and, through the router's search, fail to return (\<open>None\<close>).
\<close>

type_synonym 'a run = "'a outcome option"

definition obind :: "'a run \<Rightarrow> ('a \<Rightarrow> 'b run) \<Rightarrow> 'b run" where
  "obind m f = (case m of None \<Rightarrow> None | Some (Inl p) \<Rightarrow> Some (Inl p) | Some (Inr x) \<Rightarrow> f x)"

lemma obind_simps [simp]:
  "obind None f = None" "obind (Some (Inl p)) f = Some (Inl p)" "obind (Some (Inr x)) f = f x"
  by (simp_all add: obind_def)

lemma obind_Some_Inr: "obind m f = Some (Inr y) \<longleftrightarrow> (\<exists>x. m = Some (Inr x) \<and> f x = Some (Inr y))"
  by (auto simp: obind_def split: option.splits sum.splits)

section \<open>State\<close>

record local_delivery =
  ld_flow_id :: u32
  ld_data :: bytes
  ld_source :: node_name

datatype forwarder_error = No_Route node_name | Send_Failed | No_Tunnel node_name

fun forwarder_error_display :: "string \<Rightarrow> forwarder_error \<Rightarrow> string" where
  \<comment> \<open>\<open>io\<close> is the text of the socket's error\<close>
  "forwarder_error_display io (No_Route dest) = ''no route to '' @ dest"
| "forwarder_error_display io Send_Failed = ''send failed: '' @ io"
| "forwarder_error_display io (No_Tunnel peer) = ''no tunnel to peer '' @ peer"

lemma forwarder_error_display_inject:
  "forwarder_error_display io e = forwarder_error_display io' e' \<Longrightarrow> e = e' \<and> (e = Send_Failed \<longrightarrow> io = io')"
  by (cases e; cases e') simp_all

record env =
  env_aead :: aead_lib
  env_rs :: rs_lib
  env_sock :: udp_socket
  env_pop :: "dijkstra_state heap_pop"

type_synonym send_task = "nat \<times> (byte \<times> bytes) list"

record forwarder =
  fw_node_id :: node_name
  fw_router_node :: node_name
  fw_prober :: prober
  fw_arena :: "tunnel list"
  fw_tunnels :: "(node_name, nat) dmap"
  fw_local_open :: bool
  fw_local :: "local_delivery list"
  fw_fec_config :: fec_config
  fw_senders :: "(node_name, fec_sender) dmap"
  fw_receivers :: "(node_name, fec_receiver) dmap"
  fw_tasks :: "send_task list"
  fw_sent :: "(sock_addr \<times> bytes) list"

definition forwarder_new :: "node_name \<Rightarrow> node_name \<Rightarrow> prober \<Rightarrow> fec_config \<Rightarrow> forwarder" where
  "forwarder_new node_id router_node p cfg =
     \<lparr>fw_node_id = node_id, fw_router_node = router_node, fw_prober = p, fw_arena = [], fw_tunnels = [],
      fw_local_open = True, fw_local = [], fw_fec_config = cfg, fw_senders = [], fw_receivers = [],
      fw_tasks = [], fw_sent = []\<rparr>"

definition fw_router :: "forwarder \<Rightarrow> mesh_router" where
  "fw_router fw = \<lparr>rt_local = fw_router_node fw, rt_matrix = pr_matrix (fw_prober fw)\<rparr>"

definition or_insert_with :: "'k \<Rightarrow> 'v outcome \<Rightarrow> ('k, 'v) dmap \<Rightarrow> ('k, 'v) dmap outcome" where
  "or_insert_with k v m =
     (case dm_get m k of None \<Rightarrow> rbind v (\<lambda>v. Inr (dm_insert k v m)) | Some _ \<Rightarrow> Inr m)"

definition add_tunnel :: "node_name \<Rightarrow> tunnel \<Rightarrow> forwarder \<Rightarrow> forwarder outcome" where
  "add_tunnel peer_id t fw =
     rbind (or_insert_with peer_id (fec_sender_new (fw_fec_config fw)) (fw_senders fw)) (\<lambda>senders.
     rbind (or_insert_with peer_id (Inr fec_receiver_new) (fw_receivers fw)) (\<lambda>receivers.
     Inr (fw\<lparr>fw_senders := senders, fw_receivers := receivers,
            fw_arena := fw_arena fw @ [t],
            fw_tunnels := dm_insert peer_id (length (fw_arena fw)) (fw_tunnels fw)\<rparr>)))"

text \<open>What \<open>add_tunnel\<close> makes of the forwarder when the sender's buffers fit.\<close>

definition or_insert :: "'k \<Rightarrow> 'v \<Rightarrow> ('k, 'v) dmap \<Rightarrow> ('k, 'v) dmap" where
  "or_insert k v m = (case dm_get m k of None \<Rightarrow> dm_insert k v m | Some _ \<Rightarrow> m)"

definition tunnel_added :: "node_name \<Rightarrow> tunnel \<Rightarrow> forwarder \<Rightarrow> forwarder" where
  "tunnel_added peer_id t fw =
     fw\<lparr>fw_senders := or_insert peer_id (empty_sender (fw_fec_config fw)) (fw_senders fw),
        fw_receivers := or_insert peer_id fec_receiver_new (fw_receivers fw),
        fw_arena := fw_arena fw @ [t],
        fw_tunnels := dm_insert peer_id (length (fw_arena fw)) (fw_tunnels fw)\<rparr>"

lemma add_tunnel_eq:
  "add_tunnel peer_id t fw =
     (if dm_get (fw_senders fw) peer_id = None \<and> \<not> sender_fits (fw_fec_config fw) then Inl Capacity_Panic
      else Inr (tunnel_added peer_id t fw))"
  by (auto simp: add_tunnel_def tunnel_added_def or_insert_with_def or_insert_def fec_sender_new_eq split: option.split)

definition peer_count :: "forwarder \<Rightarrow> nat" where
  "peer_count fw = length (fw_tunnels fw)"

section \<open>Sending\<close>

definition tunnel_send ::
    "env \<Rightarrow> nat \<Rightarrow> byte \<Rightarrow> bytes \<Rightarrow> forwarder \<Rightarrow> (bool \<times> forwarder) outcome" where
  \<comment> \<open>\<open>tunnel.send\<close> on the tunnel \<open>i\<close> of the arena\<close>
  "tunnel_send env i ptype payload fw =
     (let t = fw_arena fw ! i
      in rbind (send (env_aead env) (env_sock env) ptype payload t) (\<lambda>(frame, ok, t').
         Inr (ok, fw\<lparr>fw_arena := (fw_arena fw)[i := t'],
                     fw_sent := fw_sent fw @ [(tun_peer_addr t, frame)]\<rparr>)))"

definition forward_to ::
    "env \<Rightarrow> node_name \<Rightarrow> bytes \<Rightarrow> forwarder \<Rightarrow> ((forwarder_error + unit) \<times> forwarder) run" where
  "forward_to env dest_node relay_payload fw =
     obind (next_hop (env_pop env) (fw_router fw) dest_node) (\<lambda>route.
       case route of
         None \<Rightarrow> Some (Inr (Inl (No_Route dest_node), fw))
       | Some r \<Rightarrow>
           (case dm_get (fw_tunnels fw) (next_hop_node r) of
              None \<Rightarrow> Some (Inr (Inl (No_Tunnel (next_hop_node r)), fw))
            | Some i \<Rightarrow>
                (case dm_get (fw_senders fw) (next_hop_node r) of
                   Some s \<Rightarrow>
                     obind (Some (submit (env_rs env) relay_payload s)) (\<lambda>(out, s').
                       let fw = fw\<lparr>fw_senders := dm_insert (next_hop_node r) s' (fw_senders fw)\<rparr>
                       in case out of
                            None \<Rightarrow> Some (Inr (Inr (), fw))
                          | Some shards \<Rightarrow> Some (Inr (Inr (), fw\<lparr>fw_tasks := fw_tasks fw @ [(i, shards)]\<rparr>)))
                 | None \<Rightarrow>
                     obind (Some (tunnel_send env i PACKET_DATA relay_payload fw)) (\<lambda>(ok, fw).
                       Some (Inr (if ok then Inr () else Inl Send_Failed, fw))))))"

definition send_to_node ::
    "env \<Rightarrow> node_name \<Rightarrow> u32 \<Rightarrow> bytes \<Rightarrow> forwarder \<Rightarrow> ((forwarder_error + unit) \<times> forwarder) run" where
  "send_to_node env dest_node flow_id data fw =
     forward_to env dest_node (encode_relay_header flow_id dest_node data) fw"

section \<open>Receiving\<close>

definition route_data :: "env \<Rightarrow> node_name \<Rightarrow> bytes \<Rightarrow> forwarder \<Rightarrow> forwarder run" where
  "route_data env from_peer payload fw =
     (case decode_relay_header payload of
        None \<Rightarrow> Some (Inr fw)
      | Some (flow_id, dest_node, data) \<Rightarrow>
          if dest_node = fw_node_id fw
          then Some (Inr (if fw_local_open fw
                 then fw\<lparr>fw_local := fw_local fw @
                        [\<lparr>ld_flow_id = flow_id, ld_data = data, ld_source = from_peer\<rparr>]\<rparr>
                 else fw))
          else obind (forward_to env dest_node payload fw) (\<lambda>(_, fw). Some (Inr fw)))"

fun route_all :: "env \<Rightarrow> node_name \<Rightarrow> bytes list \<Rightarrow> forwarder \<Rightarrow> forwarder run" where
  "route_all env from_peer [] fw = Some (Inr fw)"
| "route_all env from_peer (p # ps) fw = obind (route_data env from_peer p fw) (route_all env from_peer ps)"

definition handle_inbound ::
    "env \<Rightarrow> instant \<Rightarrow> node_name \<Rightarrow> received_packet \<Rightarrow> forwarder \<Rightarrow> forwarder run" where
  "handle_inbound env now from_peer packet fw =
     (if rp_type packet = PACKET_PING then
        (case dm_get (fw_tunnels fw) from_peer of
           None \<Rightarrow> Some (Inr fw)
         | Some i \<Rightarrow> Some (map_sum id snd (tunnel_send env i PACKET_PONG (create_pong (rp_payload packet)) fw)))
      else if rp_type packet = PACKET_PONG then
        Some (Inr (fw\<lparr>fw_prober := handle_pong now from_peer (rp_payload packet) (fw_prober fw)\<rparr>))
      else if rp_type packet = PACKET_DATA \<or> rp_type packet = PACKET_PARITY then
        (case dm_get (fw_receivers fw) from_peer of
           Some r \<Rightarrow>
             obind (Some (receive_shard (env_rs env) now (rp_payload packet) r)) (\<lambda>(res, r').
               let fw = fw\<lparr>fw_receivers := dm_insert from_peer r' (fw_receivers fw)\<rparr>
               in case res of None \<Rightarrow> Some (Inr fw) | Some payloads \<Rightarrow> route_all env from_peer payloads fw)
         | None \<Rightarrow> route_data env from_peer (rp_payload packet) fw)
      else Some (Inr fw))"

section \<open>The timer and the spawned tasks\<close>

fun flush_senders :: "env \<Rightarrow> (node_name \<times> fec_sender) list \<Rightarrow> forwarder \<Rightarrow> forwarder outcome" where
  "flush_senders env [] fw = Inr fw"
| "flush_senders env ((peer_id, s) # ss) fw =
     rbind (flush_partial (env_rs env) s) (\<lambda>(out, s').
       let fw = fw\<lparr>fw_senders := dm_insert peer_id s' (fw_senders fw)\<rparr>
       in flush_senders env ss
            (case out of
               None \<Rightarrow> fw
             | Some shards \<Rightarrow>
                 (case dm_get (fw_tunnels fw) peer_id of
                    None \<Rightarrow> fw
                  | Some i \<Rightarrow> fw\<lparr>fw_tasks := fw_tasks fw @ [(i, shards)]\<rparr>)))"

definition flush_fec :: "env \<Rightarrow> instant \<Rightarrow> forwarder \<Rightarrow> forwarder outcome" where
  "flush_fec env now fw =
     rbind (flush_senders env (fw_senders fw) fw) (\<lambda>fw.
     Inr (fw\<lparr>fw_receivers := map (\<lambda>(k, r). (k, expire_old now 500 r)) (fw_receivers fw)\<rparr>))"

definition task_step :: "env \<Rightarrow> nat \<Rightarrow> forwarder \<Rightarrow> forwarder outcome" where
  \<comment> \<open>the task \<open>j\<close> sends its next shard; a socket error is ignored\<close>
  "task_step env j fw =
     (if j < length (fw_tasks fw)
      then (case fw_tasks fw ! j of
              (i, []) \<Rightarrow> Inr fw
            | (i, (ptype, shard) # rest) \<Rightarrow>
                rbind (tunnel_send env i ptype shard fw) (\<lambda>(_, fw).
                Inr (fw\<lparr>fw_tasks := (fw_tasks fw)[j := (i, rest)]\<rparr>)))
      else Inr fw)"

text \<open>
  What can happen to a forwarder, in any order: a packet taken from the queue by \<open>run\<close> (whether by
  \<open>recv\<close> or by the draining \<open>try_recv\<close>), a tick of its 5 ms timer, data from a local edge, a step of
  a spawned task, a tick of a probe loop.
\<close>

datatype fw_event =
    Ev_Packet instant node_name received_packet
  | Ev_Flush instant
  | Ev_Send node_name u32 bytes
  | Ev_Task nat
  | Ev_Probe instant node_name nat

definition fw_step :: "env \<Rightarrow> fw_event \<Rightarrow> forwarder \<Rightarrow> forwarder run" where
  "fw_step env e fw =
     (case e of
        Ev_Packet now from packet \<Rightarrow> handle_inbound env now from packet fw
      | Ev_Flush now \<Rightarrow> Some (flush_fec env now fw)
      | Ev_Send dest flow data \<Rightarrow> obind (send_to_node env dest flow data fw) (\<lambda>(_, fw). Some (Inr fw))
      | Ev_Task j \<Rightarrow> Some (task_step env j fw)
      | Ev_Probe now peer i \<Rightarrow>
          Some (case create_ping now peer (fw_prober fw) of (payload, p) \<Rightarrow>
            map_sum id snd (tunnel_send env i PACKET_PING payload (fw\<lparr>fw_prober := p\<rparr>))))"

fun fw_run :: "env \<Rightarrow> fw_event list \<Rightarrow> forwarder \<Rightarrow> forwarder run" where
  "fw_run env [] fw = Some (Inr fw)"
| "fw_run env (e # es) fw = obind (fw_step env e fw) (fw_run env es)"

end
