(* ===== verification/Forwarder_Safe.thy ===== *)
theory Forwarder_Safe
  imports Forwarder Router_Correct Tunnel_Correct
begin

text \<open>
  Safety of the forwarder: the invariant \<open>fw_ok\<close>, its preservation by every event, and the absence
  of panics from every state that events reach.  The router part: a matrix that only holds edges at
  the local node makes every route direct, and the sum of a route's times fits a \<open>Duration\<close> when the
  sum of all entries does.
\<close>

section \<open>Routes in a star\<close>

lemma star_walk_direct:
  assumes "dm_wf m" "star_matrix n m"
  shows "walk (all_edges m) n p c v \<Longrightarrow> distinct p \<Longrightarrow> v \<noteq> n \<Longrightarrow> p = [n, v]"
proof (induction rule: walk.induct)
  case start
  then show ?case by simp
next
  case (step p c u v r)
  have p: "hd p = n" "last p = u" "p \<noteq> []" using walk_ends [OF step.hyps(1)] by simp_all
  have "u = n \<or> v = n"
    using step.hyps(2) assms by (auto simp: all_edges_iff get_rtt_entry star_matrix_def)
  then have u: "u = n" using step.prems(2) by simp
  have "p = [n]"
  proof (rule ccontr)
    assume "p \<noteq> [n]"
    then obtain x q where "p = n # x # q" using p(1,3) by (cases p; cases "tl p") auto
    then have "n \<in> set (x # q)" using p(2) u last_in_set [of "x # q"] by auto
    with \<open>p = n # x # q\<close> step.prems(1) show False by simp
  qed
  then show ?case by simp
qed

section \<open>Route times that fit\<close>

definition matrix_fits :: "latency_matrix \<Rightarrow> bool" where
  "matrix_fits m \<longleftrightarrow> sum_list (map (smoothed_rtt \<circ> snd) m) < DURATION_END"

definition out_rtts :: "latency_matrix \<Rightarrow> node_name set \<Rightarrow> duration" where
  "out_rtts m A = sum_list (map (\<lambda>e. if fst (fst e) \<in> A then smoothed_rtt (snd e) else 0) m)"

lemma out_rtts_insert: "a \<notin> A \<Longrightarrow> out_rtts m (insert a A) = out_rtts m {a} + out_rtts m A"
  by (induction m) (auto simp: out_rtts_def)

lemma out_rtts_le: "out_rtts m A \<le> sum_list (map (smoothed_rtt \<circ> snd) m)"
  by (induction m) (auto simp: out_rtts_def)

lemma hop_le_out: "(case get_rtt m a b of None \<Rightarrow> 0 | Some r \<Rightarrow> r) \<le> out_rtts m {a}"
  by (induction m) (auto simp: get_rtt_def dm_get_def out_rtts_def split: option.splits if_splits)

lemma hops_le_out: "distinct p \<Longrightarrow> hops_rtt m p \<le> out_rtts m (set p)"
proof (induction m p rule: hops_rtt.induct)
  case (1 m a b p)
  have "hops_rtt m (b # p) \<le> out_rtts m (set (b # p))" using 1 by simp
  moreover have "out_rtts m (set (a # b # p)) = out_rtts m {a} + out_rtts m (set (b # p))"
    using "1.prems" out_rtts_insert [of a "set (b # p)" m] by simp
  ultimately show ?case using hop_le_out [of m a b] by simp
qed simp_all

lemma next_hop_returns:
  assumes "max_heap pop" "matrix_fits (rt_matrix rt)"
  obtains "next_hop pop rt dest = Some (Inr None)"
  | p where "next_hop pop rt dest = Some (Inr (Some
      \<lparr>next_hop_node = p ! 1, total_rtt = hops_rtt (rt_matrix rt) p, route_path = p\<rparr>))"
    and "distinct p" and "\<exists>c. walk (all_edges (rt_matrix rt)) (rt_local rt) p c dest"
proof (cases "dest = rt_local rt")
  case True
  then show thesis by (intro that(1)) (simp add: next_hop_def)
next
  case False
  from assms(1) False show thesis
  proof (cases rule: next_hop_total)
    case (route p c)
    have "hops_rtt (rt_matrix rt) p < DURATION_END"
      using hops_le_out [OF route(2), of "rt_matrix rt"] out_rtts_le [of "rt_matrix rt" "set p"] assms(2)
      by (simp add: matrix_fits_def)
    then show thesis using route by (intro that(2) [of p]) auto
  next
    case none
    then show thesis by (intro that(1))
  qed
qed

lemma next_hop_star:
  assumes "max_heap pop" "matrix_fits (rt_matrix rt)" "dm_wf (rt_matrix rt)"
    and "star_matrix (rt_local rt) (rt_matrix rt)"
    and "next_hop pop rt dest = Some (Inr (Some r))"
  shows "next_hop_node r = dest \<and> route_path r = [rt_local rt, dest]"
proof -
  have ne: "dest \<noteq> rt_local rt" using assms(5) by (auto simp: next_hop_def)
  from assms(1,2) show ?thesis
  proof (cases rule: next_hop_returns [of pop rt dest])
    case 1
    then show ?thesis using assms(5) by simp
  next
    case (2 p)
    then have "p = [rt_local rt, dest]" using star_walk_direct [OF assms(3,4)] ne by blast
    then show ?thesis using 2(1) assms(5) by simp
  qed
qed

section \<open>Senders and receivers\<close>

definition small :: "bytes \<Rightarrow> bool" where
  "small b \<longleftrightarrow> length b < 2 ^ 31"

definition sender_ok :: "nat \<Rightarrow> nat \<Rightarrow> fec_sender \<Rightarrow> bool" where
  "sender_ok d p s \<longleftrightarrow> snd_config s = shards_cfg d p \<and> length (snd_buffer s) < d \<and>
     (\<forall>b \<in> set (snd_buffer s). small b)"

definition frames_ok :: "(byte \<times> bytes) list \<Rightarrow> bool" where
  "frames_ok fs \<longleftrightarrow> (\<forall>(ty, s) \<in> set fs. length s < 2 ^ 32 \<and> (ty = PACKET_DATA \<or> ty = PACKET_PARITY))"

lemma flush_total:
  assumes law: "rs_lawful rs d p" and s: "snd_config s = shards_cfg d p" "snd_buffer s \<noteq> []"
    "length (snd_buffer s) \<le> d" "\<forall>b \<in> set (snd_buffer s). small b"
  obtains out s' where "flush rs s = Inr (out, s')" and "sender_ok d p s'" and "frames_ok out"
proof -
  obtain ys where code: "codeword rs d p (snd_buffer s) ys"
    and f: "flush rs s = Inr (map (shard_frame (shards_cfg d p) (snd_block_id s) ys) [0..<d + p],
           s\<lparr>snd_block_id := snd_block_id s + 1, snd_buffer := [], snd_payload_lens := []\<rparr>)"
    using flush_ok [OF law s(1-3)] .
  have "max_shard_len (map prefix_len (snd_buffer s)) = 2 + Max (set (map length (snd_buffer s)))"
    using s(2) by (rule max_shard_len_prefixed)
  moreover have "Max (set (map length (snd_buffer s))) < 2 ^ 31"
    using s(2,4) by (auto simp: small_def)
  ultimately have m: "7 + max_shard_len (map prefix_len (snd_buffer s)) < 2 ^ 32" by simp
  have y: "length (ys ! i) = max_shard_len (map prefix_len (snd_buffer s))" if "i < d + p" for i
    using that code by (simp add: codeword_def)
  have "frames_ok (map (shard_frame (shards_cfg d p) (snd_block_id s) ys) [0..<d + p])"
    using y m by (auto simp: frames_ok_def shard_frame_def simp del: upt_Suc)
  moreover have "0 < d" using law by (simp add: rs_lawful_def)
  ultimately show thesis using s(1) by (intro that [OF f]) (simp_all add: sender_ok_def)
qed

lemma submit_total:
  assumes law: "rs_lawful rs d p" and s: "sender_ok d p s" and small: "small payload"
  obtains out s' where "submit rs payload s = Inr (out, s')" and "sender_ok d p s'"
    and "\<forall>fs. out = Some fs \<longrightarrow> frames_ok fs"
proof -
  define s1 where "s1 = s\<lparr>snd_payload_lens := snd_payload_lens s @ [word_of_nat (length payload)],
                          snd_buffer := snd_buffer s @ [payload]\<rparr>"
  have s1: "snd_config s1 = shards_cfg d p" "snd_buffer s1 \<noteq> []" "\<forall>b \<in> set (snd_buffer s1). small b"
    "length (snd_buffer s1) \<le> d"
    using s small by (auto simp: s1_def sender_ok_def)
  have sub: "submit rs payload s = (if d \<le> length (snd_buffer s1)
       then rbind (flush rs s1) (\<lambda>(out, s2). Inr (Some out, s2)) else Inr (None, s1))"
    using s by (simp add: submit_def Let_def s1_def sender_ok_def)
  show thesis
  proof (cases "d \<le> length (snd_buffer s1)")
    case True
    obtain out s' where "flush rs s1 = Inr (out, s')" "sender_ok d p s'" "frames_ok out"
      using flush_total [OF law s1(1,2,4,3)] .
    then show thesis using True sub by (intro that [of "Some out" s']) simp_all
  next
    case False
    then show thesis using sub s1 by (intro that [of None s1]) (simp_all add: sender_ok_def)
  qed
qed

lemma flush_partial_total:
  assumes law: "rs_lawful rs d p" and s: "sender_ok d p s"
  obtains out s' where "flush_partial rs s = Inr (out, s')" and "sender_ok d p s'"
    and "\<forall>fs. out = Some fs \<longrightarrow> frames_ok fs"
proof (cases "snd_buffer s = []")
  case True
  then show thesis using s by (intro that [of None s]) (simp_all add: flush_partial_def)
next
  case False
  obtain out s' where "flush rs s = Inr (out, s')" "sender_ok d p s'" "frames_ok out"
    using flush_total [OF law _ False] s by (metis less_imp_le sender_ok_def)
  then show thesis using False by (intro that [of "Some out" s']) (simp_all add: flush_partial_def)
qed

lemma shard_payload_small: "b \<in> set (shard_payload os) \<Longrightarrow> small b"
proof (cases os)
  case None
  then show "b \<in> set (shard_payload os) \<Longrightarrow> small b" by (simp add: shard_payload_def)
next
  case (Some s)
  have "unat (u16_from_le [s ! 0, s ! 1]) < 2 ^ 16" by (rule order_less_le_trans [OF unsigned_less]) simp
  then show "b \<in> set (shard_payload os) \<Longrightarrow> small b"
    by (auto simp: Some shard_payload_def small_def Let_def split: if_splits)
qed

lemma pending_reconstruct_small:
  "pending_reconstruct rs b = Inr (Some ps) \<Longrightarrow> \<forall>q \<in> set ps. small q"
  by (auto simp: pending_reconstruct_def fec_encoder_new_def shard_payload_small
      split: if_splits sum.splits)

lemma receive_shard_small:
  assumes "receive_shard rs now payload r = Inr (Some ps, r')"
  shows "\<forall>q \<in> set ps. small q"
proof -
  obtain b where "pending_reconstruct rs b = Inr (Some ps)"
    using assms
    by (auto simp: receive_shard_def rbind_eq_Inr_iff Let_def split: option.splits if_splits prod.splits)
  then show ?thesis by (rule pending_reconstruct_small)
qed

section \<open>The invariant\<close>

definition tunnel_ok :: "tunnel \<Rightarrow> bool" where
  "tunnel_ok t \<longleftrightarrow> length (cipher_key (tun_crypto t)) = 32"

definition task_ok :: "nat \<Rightarrow> send_task \<Rightarrow> bool" where
  "task_ok n t \<longleftrightarrow> fst t < n \<and> frames_ok (snd t)"

definition fw_ok :: "nat \<Rightarrow> nat \<Rightarrow> forwarder \<Rightarrow> bool" where
  "fw_ok d p fw \<longleftrightarrow> fw_fec_config fw = shards_cfg d p \<and> fw_router_node fw = pr_node (fw_prober fw) \<and>
     prober_ok (fw_prober fw) \<and> matrix_fits (pr_matrix (fw_prober fw)) \<and>
     star_matrix (pr_node (fw_prober fw)) (pr_matrix (fw_prober fw)) \<and>
     (\<forall>t \<in> set (fw_arena fw). tunnel_ok t) \<and>
     (\<forall>k i. dm_get (fw_tunnels fw) k = Some i \<longrightarrow> i < length (fw_arena fw)) \<and>
     dm_wf (fw_senders fw) \<and> (\<forall>k s. dm_get (fw_senders fw) k = Some s \<longrightarrow> sender_ok d p s) \<and>
     dm_wf (fw_receivers fw) \<and>
     (\<forall>k r. dm_get (fw_receivers fw) k = Some r \<longrightarrow> dm_wf (rcv_blocks r) \<and> receiver_ok r) \<and>
     (\<forall>t \<in> set (fw_tasks fw). task_ok (length (fw_arena fw)) t)"

definition env_ok :: "nat \<Rightarrow> nat \<Rightarrow> env \<Rightarrow> bool" where
  "env_ok d p env \<longleftrightarrow> aead_lawful (env_aead env) \<and> rs_valid (env_rs env) \<and> rs_lawful (env_rs env) d p \<and>
     max_heap (env_pop env)"

lemma fw_okD:
  assumes "fw_ok d p fw"
  shows "fw_fec_config fw = shards_cfg d p" "fw_router_node fw = pr_node (fw_prober fw)"
    "prober_ok (fw_prober fw)" "matrix_fits (pr_matrix (fw_prober fw))"
    "star_matrix (pr_node (fw_prober fw)) (pr_matrix (fw_prober fw))"
    "\<And>i. i < length (fw_arena fw) \<Longrightarrow> tunnel_ok (fw_arena fw ! i)"
    "\<And>k i. dm_get (fw_tunnels fw) k = Some i \<Longrightarrow> i < length (fw_arena fw)"
    "dm_wf (fw_senders fw)" "\<And>k s. dm_get (fw_senders fw) k = Some s \<Longrightarrow> sender_ok d p s"
    "dm_wf (fw_receivers fw)"
    "\<And>k r. dm_get (fw_receivers fw) k = Some r \<Longrightarrow> dm_wf (rcv_blocks r) \<and> receiver_ok r"
    "\<And>t. t \<in> set (fw_tasks fw) \<Longrightarrow> task_ok (length (fw_arena fw)) t"
  using assms nth_mem unfolding fw_ok_def by blast+

lemma fw_ok_new:
  "prober_ok pr \<Longrightarrow> matrix_fits (pr_matrix pr) \<Longrightarrow> star_matrix (pr_node pr) (pr_matrix pr) \<Longrightarrow>
   fw_ok d p (forwarder_new n (pr_node pr) pr (shards_cfg d p))"
  by (simp add: fw_ok_def forwarder_new_def)

lemma fw_ok_add_tunnel:
  assumes "fw_ok d p fw" "tunnel_ok t" "0 < d"
  shows "fw_ok d p (tunnel_added peer t fw)"
proof -
  have s: "sender_ok d p (empty_sender (shards_cfg d p))"
    using assms(3) by (simp add: sender_ok_def empty_sender_def)
  have r: "dm_wf (rcv_blocks fec_receiver_new) \<and> receiver_ok fec_receiver_new"
    by (simp add: fec_receiver_new_def receiver_ok_def)
  have "task_ok (Suc (length (fw_arena fw))) x" if "x \<in> set (fw_tasks fw)" for x
    using fw_okD(12) [OF assms(1) that] by (simp add: task_ok_def)
  moreover have "\<And>k i. dm_get (fw_tunnels fw) k = Some i \<Longrightarrow> i < Suc (length (fw_arena fw))"
    using fw_okD(7) [OF assms(1)] less_SucI by blast
  ultimately show ?thesis
    using fw_okD [OF assms(1)] assms(1,2) s r
    by (auto simp: fw_ok_def tunnel_added_def or_insert_def split: option.splits)
qed

text \<open>Sending on a tunnel of the arena.\<close>

lemma tunnel_send_total:
  assumes env: "aead_lawful (env_aead env)" and ok: "fw_ok d p fw" and i: "i < length (fw_arena fw)"
    and len: "length payload < 2 ^ 32"
  obtains ok' fw' where "tunnel_send env i ty payload fw = Inr (ok', fw')" and "fw_ok d p fw'"
    and "fw_tasks fw' = fw_tasks fw" and "length (fw_arena fw') = length (fw_arena fw)"
proof -
  let ?t = "fw_arena fw ! i"
  have k: "length (cipher_key (tun_crypto ?t)) = 32" using fw_okD(6) [OF ok i] by (simp add: tunnel_ok_def)
  obtain f where f: "send (env_aead env) (env_sock env) ty payload ?t =
      Inr (f, env_sock env (tun_peer_addr ?t) f, snd (next_seq ?t))"
    using send_ok [OF env k len] by metis
  let ?fw = "fw\<lparr>fw_arena := (fw_arena fw)[i := snd (next_seq ?t)],
                fw_sent := fw_sent fw @ [(tun_peer_addr ?t, f)]\<rparr>"
  have "tunnel_ok (snd (next_seq ?t))" using k by (simp add: tunnel_ok_def)
  then have "\<forall>t \<in> set ((fw_arena fw)[i := snd (next_seq ?t)]). tunnel_ok t"
    using ok set_update_subset_insert [of "fw_arena fw" i "snd (next_seq ?t)"] by (auto simp: fw_ok_def)
  then have "fw_ok d p ?fw" using ok by (simp add: fw_ok_def)
  then show thesis
    using f by (intro that [of "env_sock env (tun_peer_addr ?t) f" ?fw]) (simp_all add: tunnel_send_def Let_def)
qed

lemma fw_ok_sender:
  "fw_ok d p fw \<Longrightarrow> sender_ok d p s \<Longrightarrow> fw_ok d p (fw\<lparr>fw_senders := dm_insert k s (fw_senders fw)\<rparr>)"
  by (auto simp: fw_ok_def)

lemma fw_ok_receiver:
  "fw_ok d p fw \<Longrightarrow> receiver_ok r \<Longrightarrow> dm_wf (rcv_blocks r) \<Longrightarrow>
   fw_ok d p (fw\<lparr>fw_receivers := dm_insert k r (fw_receivers fw)\<rparr>)"
  by (auto simp: fw_ok_def)

lemma fw_ok_task:
  "fw_ok d p fw \<Longrightarrow> i < length (fw_arena fw) \<Longrightarrow> frames_ok fs \<Longrightarrow>
   fw_ok d p (fw\<lparr>fw_tasks := fw_tasks fw @ [(i, fs)]\<rparr>)"
  by (auto simp: fw_ok_def task_ok_def)

lemma fw_ok_local: "fw_ok d p fw \<Longrightarrow> fw_ok d p (fw\<lparr>fw_local := l\<rparr>)"
  by (simp add: fw_ok_def)

lemma forward_to_total:
  assumes env: "env_ok d p env" and ok: "fw_ok d p fw" and small: "small payload"
  obtains res fw' where "forward_to env dest payload fw = Some (Inr (res, fw'))" and "fw_ok d p fw'"
proof -
  have e: "aead_lawful (env_aead env)" "rs_lawful (env_rs env) d p" "max_heap (env_pop env)"
    using env by (simp_all add: env_ok_def)
  have fit: "matrix_fits (rt_matrix (fw_router fw))" using fw_okD(4) [OF ok] by (simp add: fw_router_def)
  obtain o1 where nh: "next_hop (env_pop env) (fw_router fw) dest = Some (Inr o1)"
    using next_hop_returns [OF e(3) fit] by metis
  show thesis
  proof (cases o1)
    case None
    then show thesis using nh ok by (intro that [of "Inl (No_Route dest)" fw]) (simp_all add: forward_to_def)
  next
    case (Some r)
    show thesis
    proof (cases "dm_get (fw_tunnels fw) (next_hop_node r)")
      case None
      then show thesis
        using nh ok Some by (intro that [of "Inl (No_Tunnel (next_hop_node r))" fw]) (simp_all add: forward_to_def)
    next
      case t: (Some i)
      have i: "i < length (fw_arena fw)" using fw_okD(7) [OF ok t] .
      show thesis
      proof (cases "dm_get (fw_senders fw) (next_hop_node r)")
        case None
        have "length payload < 2 ^ 32" using small by (simp add: small_def)
        from tunnel_send_total [OF e(1) ok i this, of PACKET_DATA]
        obtain b fw' where "tunnel_send env i PACKET_DATA payload fw = Inr (b, fw')" "fw_ok d p fw'" by metis
        then show thesis
          using nh Some t None
          by (intro that [of "if b then Inr () else Inl Send_Failed" fw']) (simp_all add: forward_to_def)
      next
        case s: (Some s)
        obtain out s' where sub: "submit (env_rs env) payload s = Inr (out, s')" "sender_ok d p s'"
          "\<forall>fs. out = Some fs \<longrightarrow> frames_ok fs"
          using submit_total [OF e(2) fw_okD(9) [OF ok s] small] .
        let ?fw = "fw\<lparr>fw_senders := dm_insert (next_hop_node r) s' (fw_senders fw)\<rparr>"
        have ok': "fw_ok d p ?fw" using ok sub(2) by (rule fw_ok_sender)
        show thesis
        proof (cases out)
          case None
          then show thesis
            using nh Some t s sub(1) ok' by (intro that [of "Inr ()" ?fw]) (simp_all add: forward_to_def)
        next
          case (Some fs)
          have "fw_ok d p (?fw\<lparr>fw_tasks := fw_tasks ?fw @ [(i, fs)]\<rparr>)"
            using ok' i sub(3) Some by (intro fw_ok_task) simp_all
          then show thesis
            using nh \<open>o1 = Some r\<close> t s sub(1) Some
            by (intro that [of "Inr ()" "?fw\<lparr>fw_tasks := fw_tasks ?fw @ [(i, fs)]\<rparr>"])
              (simp_all add: forward_to_def)
        qed
      qed
    qed
  qed
qed

lemma route_data_total:
  assumes env: "env_ok d p env" and ok: "fw_ok d p fw" and small: "small payload"
  obtains fw' where "route_data env from payload fw = Some (Inr fw')" and "fw_ok d p fw'"
proof (cases "decode_relay_header payload")
  case None
  then show thesis using ok by (intro that [of fw]) (simp_all add: route_data_def)
next
  case (Some h)
  obtain flow dest data where h: "h = (flow, dest, data)" by (cases h)
  show thesis
  proof (cases "dest = fw_node_id fw")
    case True
    let ?fw = "if fw_local_open fw then fw\<lparr>fw_local := fw_local fw @
        [\<lparr>ld_flow_id = flow, ld_data = data, ld_source = from\<rparr>]\<rparr> else fw"
    have "route_data env from payload fw = Some (Inr ?fw)" using Some h True by (simp add: route_data_def)
    moreover have "fw_ok d p ?fw" using ok fw_ok_local [OF ok] by simp
    ultimately show thesis by (rule that)
  next
    case False
    obtain res fw' where "forward_to env dest payload fw = Some (Inr (res, fw'))" "fw_ok d p fw'"
      using forward_to_total [OF env ok small] .
    then show thesis using Some h False by (intro that [of fw']) (simp_all add: route_data_def)
  qed
qed

lemma route_all_total:
  "env_ok d p env \<Longrightarrow> fw_ok d p fw \<Longrightarrow> \<forall>q \<in> set ps. small q \<Longrightarrow>
   \<exists>fw'. route_all env from ps fw = Some (Inr fw') \<and> fw_ok d p fw'"
proof (induction ps arbitrary: fw)
  case Nil
  then show ?case by simp
next
  case (Cons q ps)
  have "small q" using Cons.prems(3) by simp
  from route_data_total [OF Cons.prems(1,2) this]
  obtain fw1 where fw1: "route_data env from q fw = Some (Inr fw1)" "fw_ok d p fw1" .
  have "\<forall>q \<in> set ps. small q" using Cons.prems(3) by simp
  from Cons.IH [OF Cons.prems(1) fw1(2) this] fw1(1) show ?case by simp
qed

section \<open>Every event\<close>

text \<open>
  What is asked of an event: an inbound payload is below \<open>2^31\<close> bytes and, for a shard, names an
  acceptable code; a pong keeps the sum of the matrix within a \<open>Duration\<close>; data from an edge is
  below \<open>2^30\<close> bytes; a probe loop runs on a registered tunnel.
\<close>

definition event_ok :: "fw_event \<Rightarrow> forwarder \<Rightarrow> bool" where
  "event_ok e fw =
     (case e of
        Ev_Packet now from pkt \<Rightarrow> small (rp_payload pkt) \<and>
          (rp_type pkt = PACKET_DATA \<or> rp_type pkt = PACKET_PARITY \<longrightarrow> sane_header (rp_payload pkt)) \<and>
          (rp_type pkt = PACKET_PONG \<longrightarrow>
             matrix_fits (pr_matrix (handle_pong now from (rp_payload pkt) (fw_prober fw))))
      | Ev_Send dest flow data \<Rightarrow> length data < 2 ^ 30
      | Ev_Probe now peer i \<Rightarrow> i < length (fw_arena fw)
      | _ \<Rightarrow> True)"

lemma receive_shard_wf:
  "receive_shard rs now payload r = Inr (out, r') \<Longrightarrow> dm_wf (rcv_blocks r) \<Longrightarrow> dm_wf (rcv_blocks r')"
  by (auto simp: receive_shard_def rbind_eq_Inr_iff Let_def split: option.splits if_splits prod.splits)

lemma fw_ok_prober:
  assumes "fw_ok d p fw" "prober_ok pr" "pr_node pr = pr_node (fw_prober fw)"
    and "matrix_fits (pr_matrix pr)" "star_matrix (pr_node pr) (pr_matrix pr)"
  shows "fw_ok d p (fw\<lparr>fw_prober := pr\<rparr>)"
  using assms by (simp add: fw_ok_def)

lemma handle_inbound_total:
  assumes env: "env_ok d p env" and ok: "fw_ok d p fw"
    and small: "small (rp_payload pkt)"
    and sane: "rp_type pkt = PACKET_DATA \<or> rp_type pkt = PACKET_PARITY \<Longrightarrow> sane_header (rp_payload pkt)"
    and fits: "rp_type pkt = PACKET_PONG \<Longrightarrow>
      matrix_fits (pr_matrix (handle_pong now from (rp_payload pkt) (fw_prober fw)))"
  shows "\<exists>fw'. handle_inbound env now from pkt fw = Some (Inr fw') \<and> fw_ok d p fw'"
proof -
  have e: "aead_lawful (env_aead env)" "rs_valid (env_rs env)" using env by (simp_all add: env_ok_def)
  note pt = packet_types
  consider (ping) "rp_type pkt = PACKET_PING" | (pong) "rp_type pkt = PACKET_PONG"
    | (shard) "rp_type pkt = PACKET_DATA \<or> rp_type pkt = PACKET_PARITY"
    | (other) "rp_type pkt \<noteq> PACKET_PING" "rp_type pkt \<noteq> PACKET_PONG"
        "\<not> (rp_type pkt = PACKET_DATA \<or> rp_type pkt = PACKET_PARITY)"
    by blast
  then show ?thesis
  proof cases
    case ping
    show ?thesis
    proof (cases "dm_get (fw_tunnels fw) from")
      case None
      then show ?thesis using ping ok by (simp add: handle_inbound_def)
    next
      case (Some i)
      have "length (create_pong (rp_payload pkt)) < 2 ^ 32"
        using small by (simp add: create_pong_def small_def)
      from tunnel_send_total [OF e(1) ok fw_okD(7) [OF ok Some] this, of PACKET_PONG]
      obtain b fw' where
        "tunnel_send env i PACKET_PONG (create_pong (rp_payload pkt)) fw = Inr (b, fw')" "fw_ok d p fw'"
        by metis
      then show ?thesis using ping Some by (simp add: handle_inbound_def)
    qed
  next
    case pong
    let ?p = "handle_pong now from (rp_payload pkt) (fw_prober fw)"
    have "fw_ok d p (fw\<lparr>fw_prober := ?p\<rparr>)"
      using ok prober_ok_pong [OF fw_okD(3) [OF ok]] fits [OF pong] star_matrix_pong [OF fw_okD(5) [OF ok]]
      by (intro fw_ok_prober) simp_all
    then show ?thesis using pong by (simp add: handle_inbound_def pt)
  next
    case shard
    then have ne: "rp_type pkt \<noteq> PACKET_PING" "rp_type pkt \<noteq> PACKET_PONG" by (auto simp: pt)
    show ?thesis
    proof (cases "dm_get (fw_receivers fw) from")
      case None
      obtain fw' where "route_data env from (rp_payload pkt) fw = Some (Inr fw')" "fw_ok d p fw'"
        using route_data_total [OF env ok small] .
      then show ?thesis using None shard ne by (simp add: handle_inbound_def)
    next
      case (Some r)
      have r: "dm_wf (rcv_blocks r)" "receiver_ok r" using fw_okD(11) [OF ok Some] by simp_all
      obtain out r' where rs: "receive_shard (env_rs env) now (rp_payload pkt) r = Inr (out, r')" "receiver_ok r'"
        using receive_shard_total [OF e(2) r(2) sane [OF shard]] .
      let ?fw = "fw\<lparr>fw_receivers := dm_insert from r' (fw_receivers fw)\<rparr>"
      have ok': "fw_ok d p ?fw" using ok rs(2) receive_shard_wf [OF rs(1) r(1)] by (rule fw_ok_receiver)
      show ?thesis
      proof (cases out)
        case None
        then show ?thesis using Some rs(1) shard ne ok' by (simp add: handle_inbound_def Let_def)
      next
        case o: (Some ps)
        have "\<forall>q \<in> set ps. small q" using receive_shard_small rs(1) o by blast
        then show ?thesis
          using route_all_total [OF env ok', of ps "from"] Some rs(1) shard ne o
          by (simp add: handle_inbound_def Let_def)
      qed
    qed
  next
    case other
    then show ?thesis using ok by (simp add: handle_inbound_def)
  qed
qed

lemma flush_senders_total:
  "env_ok d p env \<Longrightarrow> fw_ok d p fw \<Longrightarrow> \<forall>(k, s) \<in> set ss. sender_ok d p s \<Longrightarrow>
   \<exists>fw'. flush_senders env ss fw = Inr fw' \<and> fw_ok d p fw'"
proof (induction ss arbitrary: fw)
  case Nil
  then show ?case by simp
next
  case (Cons x ss)
  obtain k s where x: "x = (k, s)" by (cases x)
  have s: "sender_ok d p s" and ss: "\<forall>(k, s) \<in> set ss. sender_ok d p s" using Cons.prems(3) by (simp_all add: x)
  have law: "rs_lawful (env_rs env) d p" using Cons.prems(1) by (simp add: env_ok_def)
  obtain out s' where fp: "flush_partial (env_rs env) s = Inr (out, s')" "sender_ok d p s'"
    "\<forall>fs. out = Some fs \<longrightarrow> frames_ok fs"
    using flush_partial_total [OF law s] .
  let ?fw = "fw\<lparr>fw_senders := dm_insert k s' (fw_senders fw)\<rparr>"
  have ok: "fw_ok d p ?fw" using Cons.prems(2) fp(2) by (rule fw_ok_sender)
  define fw1 where "fw1 = (case out of None \<Rightarrow> ?fw | Some shards \<Rightarrow>
      (case dm_get (fw_tunnels ?fw) k of None \<Rightarrow> ?fw
       | Some i \<Rightarrow> ?fw\<lparr>fw_tasks := fw_tasks ?fw @ [(i, shards)]\<rparr>))"
  have ok1: "fw_ok d p fw1"
  proof (cases "\<exists>shards i. out = Some shards \<and> dm_get (fw_tunnels ?fw) k = Some i")
    case True
    then obtain shards i where o: "out = Some shards" "dm_get (fw_tunnels ?fw) k = Some i" by blast
    have "fw_ok d p (?fw\<lparr>fw_tasks := fw_tasks ?fw @ [(i, shards)]\<rparr>)"
      using ok fw_okD(7) [OF ok o(2)] fp(3) o(1) by (intro fw_ok_task) simp_all
    then show ?thesis using o by (simp add: fw1_def)
  next
    case False
    then show ?thesis using ok by (auto simp: fw1_def split: option.splits)
  qed
  have "flush_senders env (x # ss) fw = flush_senders env ss fw1"
    using fp(1) by (simp add: x fw1_def Let_def)
  with Cons.IH [OF Cons.prems(1) ok1 ss] show ?case by simp
qed

lemma expire_old_ok:
  assumes "dm_wf (rcv_blocks r)" "receiver_ok r"
  shows "dm_wf (rcv_blocks (expire_old now limit r)) \<and> receiver_ok (expire_old now limit r)"
proof -
  have "pending_ok b" if "dm_get (rcv_blocks (expire_old now limit r)) k = Some b" for k b
    using that dm.retain_sound [OF assms(1)] assms(2)
    by (simp add: expire_old_def receiver_ok_def) blast
  then show ?thesis using assms(1) by (simp add: receiver_ok_def) (simp add: expire_old_def)
qed

lemma dm_get_map_values: "dm_get (map (\<lambda>(k, v). (k, f v)) m) k = map_option f (dm_get m k)"
  by (simp add: dm_get_def map_of_map)

lemma flush_fec_total:
  assumes "env_ok d p env" "fw_ok d p fw"
  shows "\<exists>fw'. flush_fec env now fw = Inr fw' \<and> fw_ok d p fw'"
proof -
  have "\<forall>(k, s) \<in> set (fw_senders fw). sender_ok d p s"
    using fw_okD(8,9) [OF assms(2)] by (auto simp: dm_get_in_set [symmetric])
  from flush_senders_total [OF assms this]
  obtain fw1 where f: "flush_senders env (fw_senders fw) fw = Inr fw1" "fw_ok d p fw1" by blast
  let ?rs = "map (\<lambda>(k, r). (k, expire_old now 500 r)) (fw_receivers fw1)"
  have "dm_wf ?rs" using fw_okD(10) [OF f(2)] by (simp add: dm_wf_def split_def comp_def)
  moreover have "dm_wf (rcv_blocks r) \<and> receiver_ok r" if "dm_get ?rs k = Some r" for k r
    using that fw_okD(11) [OF f(2)] expire_old_ok by (auto simp: dm_get_map_values)
  ultimately have "fw_ok d p (fw1\<lparr>fw_receivers := ?rs\<rparr>)" using f(2) by (simp add: fw_ok_def)
  then show ?thesis using f(1) by (simp add: flush_fec_def)
qed

lemma task_step_total:
  assumes "env_ok d p env" and ok: "fw_ok d p fw"
  shows "\<exists>fw'. task_step env j fw = Inr fw' \<and> fw_ok d p fw'"
proof (cases "j < length (fw_tasks fw)")
  case False
  then show ?thesis using ok by (simp add: task_step_def)
next
  case True
  obtain i fs where j: "fw_tasks fw ! j = (i, fs)" by fastforce
  have t: "i < length (fw_arena fw)" "frames_ok fs"
    using fw_okD(12) [OF ok, of "(i, fs)"] True j nth_mem [OF True] by (simp_all add: task_ok_def)
  have lib: "aead_lawful (env_aead env)" using assms(1) by (simp add: env_ok_def)
  show ?thesis
  proof (cases fs)
    case Nil
    then show ?thesis using True j ok by (simp add: task_step_def)
  next
    case (Cons f rest)
    obtain ty s where f: "f = (ty, s)" by (cases f)
    have fr: "length s < 2 ^ 32" "frames_ok rest" using t(2) by (auto simp: Cons f frames_ok_def)
    obtain b fw1 where s: "tunnel_send env i ty s fw = Inr (b, fw1)" "fw_ok d p fw1"
      "fw_tasks fw1 = fw_tasks fw" "length (fw_arena fw1) = length (fw_arena fw)"
      using tunnel_send_total [OF lib ok t(1) fr(1)] by metis
    have "\<forall>t \<in> set ((fw_tasks fw1)[j := (i, rest)]). task_ok (length (fw_arena fw1)) t"
      using fw_okD(12) [OF s(2)] t(1) fr(2) s(4) set_update_subset_insert [of "fw_tasks fw1" j "(i, rest)"]
      by (auto simp: task_ok_def)
    then have "fw_ok d p (fw1\<lparr>fw_tasks := (fw_tasks fw1)[j := (i, rest)]\<rparr>)"
      using s(2) by (simp add: fw_ok_def)
    then show ?thesis using True j s(1,3) by (simp add: task_step_def Cons f)
  qed
qed

lemma fw_step_total:
  assumes env: "env_ok d p env" and ok: "fw_ok d p fw" and ev: "event_ok e fw"
  shows "\<exists>fw'. fw_step env e fw = Some (Inr fw') \<and> fw_ok d p fw'"
proof (cases e)
  case (Ev_Packet now src pkt)
  then have "small (rp_payload pkt)"
    "rp_type pkt = PACKET_DATA \<or> rp_type pkt = PACKET_PARITY \<Longrightarrow> sane_header (rp_payload pkt)"
    "rp_type pkt = PACKET_PONG \<Longrightarrow>
       matrix_fits (pr_matrix (handle_pong now src (rp_payload pkt) (fw_prober fw)))"
    using ev by (auto simp: event_ok_def)
  from handle_inbound_total [OF env ok this] Ev_Packet show ?thesis by (simp add: fw_step_def)
next
  case (Ev_Flush now)
  then show ?thesis using flush_fec_total [OF env ok] by (simp add: fw_step_def)
next
  case (Ev_Send dest flow data)
  have "length data < 2 ^ 30" using ev Ev_Send by (simp add: event_ok_def)
  then have small: "small (encode_relay_header flow dest data)"
    by (simp add: small_def encode_relay_header_def Let_def)
  obtain res fw' where "forward_to env dest (encode_relay_header flow dest data) fw = Some (Inr (res, fw'))"
    "fw_ok d p fw'"
    using forward_to_total [OF env ok small] .
  then show ?thesis using Ev_Send by (simp add: fw_step_def send_to_node_def)
next
  case (Ev_Task j)
  then show ?thesis using task_step_total [OF env ok] by (simp add: fw_step_def)
next
  case (Ev_Probe now peer i)
  obtain payload pr where cp: "create_ping now peer (fw_prober fw) = (payload, pr)" by fastforce
  note f = create_ping_fields [OF cp]
  have "fw_ok d p (fw\<lparr>fw_prober := pr\<rparr>)"
    using ok prober_ok_ping [OF fw_okD(3) [OF ok] cp] f fw_okD(4,5) [OF ok]
    by (intro fw_ok_prober) simp_all
  moreover have "i < length (fw_arena (fw\<lparr>fw_prober := pr\<rparr>))" using ev Ev_Probe by (simp add: event_ok_def)
  moreover have "length payload < 2 ^ 32" using f(1) by simp
  ultimately obtain b fw' where "tunnel_send env i PACKET_PING payload (fw\<lparr>fw_prober := pr\<rparr>) = Inr (b, fw')"
    "fw_ok d p fw'"
    using tunnel_send_total env unfolding env_ok_def by metis
  then show ?thesis using Ev_Probe cp by (simp add: fw_step_def)
qed

section \<open>Reachable states\<close>

inductive fw_reachable :: "env \<Rightarrow> forwarder \<Rightarrow> forwarder \<Rightarrow> bool" for env fw0 where
  init: "fw_reachable env fw0 fw0"
| step: "fw_reachable env fw0 fw \<Longrightarrow> event_ok e fw \<Longrightarrow> fw_step env e fw = Some (Inr fw') \<Longrightarrow> fw_reachable env fw0 fw'"

lemma fw_reachable_ok:
  "fw_reachable env fw0 fw \<Longrightarrow> env_ok d p env \<Longrightarrow> fw_ok d p fw0 \<Longrightarrow> fw_ok d p fw"
proof (induction rule: fw_reachable.induct)
  case init
  then show ?case by simp
next
  case (step fw e fw')
  then show ?case using fw_step_total [OF step.prems(1) _ step.hyps(2)] by fastforce
qed

section \<open>Properties\<close>

text \<open>The forwarder never panics and never fails to return. From a state that satisfies \<open>fw_ok\<close>
  (a fresh forwarder with its tunnels does), after any sequence of inbound packets, timer ticks,
  data from the edges, steps of the send tasks and probes, in any order and with any interleaving
  of the tasks, the next such event is handled and leaves a state that satisfies it; of the events
  it is only asked that a shard names an acceptable code, that payloads are below 1 GiB and that the
  matrix's times still sum to a \<open>Duration\<close>.\<close>

theorem forwarder_safe:
  assumes "env_ok d p env" "fw_ok d p fw0" "fw_reachable env fw0 fw" "event_ok e fw"
  shows "\<exists>fw'. fw_step env e fw = Some (Inr fw') \<and> fw_ok d p fw' \<and> fw_reachable env fw0 fw'"
  using fw_step_total [OF assms(1) fw_reachable_ok [OF assms(3,1,2)] assms(4)] fw_reachable.step [OF assms(3,4)]
  by blast

definition demo_env :: env where
  "demo_env = \<lparr>env_aead = demo_aead, env_rs = xor_rs, env_sock = (\<lambda>_ _. True), env_pop = pop_cheapest\<rparr>"

lemma demo_env_simps [simp]:
  "env_aead demo_env = demo_aead" "env_rs demo_env = xor_rs" "env_pop demo_env = pop_cheapest"
  "env_sock demo_env a f"
  by (simp_all add: demo_env_def)

lemma demo_env_ok: "env_ok 2 1 demo_env"
  using rs_lawful_xor
  by (simp add: env_ok_def demo_aead_lawful rs_valid_xor cheapest.max_heap_axioms)

definition fresh_forwarder :: "node_name \<Rightarrow> fec_config \<Rightarrow> forwarder" where
  "fresh_forwarder n cfg = forwarder_new n n (prober_new n matrix_new) cfg"

lemma fresh_forwarder_ok: "fw_ok d p (fresh_forwarder n (shards_cfg d p))"
proof -
  have "prober_ok (prober_new n matrix_new)" by (rule prober_ok_new) (simp add: matrix_new_def)
  moreover have "matrix_fits matrix_new" by (simp add: matrix_fits_def matrix_new_def DURATION_END_def)
  ultimately show ?thesis
    using fw_ok_new [of "prober_new n matrix_new" d p n] star_matrix_new by (simp add: fresh_forwarder_def)
qed

definition demo_forwarder :: forwarder where
  "demo_forwarder = tunnel_added ''lon'' demo_tunnel (fresh_forwarder ''syd'' (shards_cfg 2 1))"

lemma demo_forwarder_ok: "fw_ok 2 1 demo_forwarder"
  unfolding demo_forwarder_def
  by (rule fw_ok_add_tunnel [OF fresh_forwarder_ok]) (simp_all add: tunnel_ok_def)

theorem forwarder_safe_witness:
  "\<exists>fw'. fw_step demo_env (Ev_Packet 7 ''lon'' \<lparr>rp_type = PACKET_PING, rp_seq = 0, rp_payload = [1, 0, 0, 0],
      rp_from = (2, 9001)\<rparr>) demo_forwarder = Some (Inr fw') \<and> fw_ok 2 1 fw'"
  using forwarder_safe [OF demo_env_ok demo_forwarder_ok fw_reachable.init, of "Ev_Packet 7 ''lon'' \<lparr>rp_type = PACKET_PING,
      rp_seq = 0, rp_payload = [1, 0, 0, 0], rp_from = (2, 9001)\<rparr>"]
  by (auto simp: event_ok_def small_def packet_types)

text \<open>C30. Every route is direct: in every reachable state the matrix holds only edges at the local node,
  since it is fed by the node's own probes alone, so whatever route \<open>next_hop\<close> finds to a node is the
  single hop to that node; no traffic is ever relayed over a third node on the router's own account.\<close>

theorem routes_are_direct:
  assumes "env_ok d p env" "fw_ok d p fw0" "fw_reachable env fw0 fw"
    and "next_hop (env_pop env) (fw_router fw) dest = Some (Inr (Some r))"
  shows "next_hop_node r = dest \<and> route_path r = [fw_router_node fw, dest]"
proof -
  have ok: "fw_ok d p fw" using fw_reachable_ok [OF assms(3,1,2)] .
  have "max_heap (env_pop env)" using assms(1) by (simp add: env_ok_def)
  then have "next_hop_node r = dest \<and> route_path r = [rt_local (fw_router fw), dest]"
    by (rule next_hop_star [OF _ _ _ _ assms(4)])
      (use fw_okD(2-5) [OF ok] in \<open>simp_all add: fw_router_def prober_ok_def\<close>)
  then show ?thesis by (simp add: fw_router_def)
qed

definition measured_forwarder :: forwarder where
  "measured_forwarder = demo_forwarder\<lparr>fw_prober := (prober_new ''syd'' [((''syd'', ''lon''), entry_new 0 50000000),
     ((''lon'', ''syd''), entry_new 0 50000000)])\<rparr>"

lemma measured_forwarder_ok: "fw_ok 2 1 measured_forwarder"
proof -
  let ?m = "[((''syd'', ''lon''), entry_new 0 50000000), ((''lon'', ''syd''), entry_new 0 50000000)]"
  have "prober_ok (prober_new ''syd'' ?m)" by (rule prober_ok_new) (simp add: dm_wf_def)
  moreover have "matrix_fits ?m" by (simp add: matrix_fits_def entry_new_def DURATION_END_def)
  moreover have "star_matrix ''syd'' ?m" by (auto simp: star_matrix_def get_entry_def dm_get_def split: if_splits)
  moreover have "pr_node (fw_prober demo_forwarder) = ''syd''"
    by (simp add: demo_forwarder_def tunnel_added_def fresh_forwarder_def forwarder_new_def)
  ultimately show ?thesis
    unfolding measured_forwarder_def by (intro fw_ok_prober [OF demo_forwarder_ok]) simp_all
qed

theorem routes_are_direct_witness:
  "next_hop (env_pop demo_env) (fw_router measured_forwarder) ''lon'' = Some (Inr (Some \<lparr>next_hop_node = ''lon'',
      total_rtt = 50000000, route_path = [''syd'', ''lon'']\<rparr>)) \<and>
   route_path \<lparr>next_hop_node = ''lon'', total_rtt = 50000000, route_path = [''syd'', ''lon'']\<rparr> =
     [fw_router_node measured_forwarder, ''lon'']"
proof -
  have r: "fw_router measured_forwarder = \<lparr>rt_local = ''syd'', rt_matrix = [((''syd'', ''lon''), entry_new 0 50000000),
     ((''lon'', ''syd''), entry_new 0 50000000)]\<rparr>"
    by (simp add: fw_router_def measured_forwarder_def demo_forwarder_def tunnel_added_def fresh_forwarder_def
        forwarder_new_def)
  have n: "next_hop (env_pop demo_env) (fw_router measured_forwarder) ''lon'' = Some (Inr (Some
      \<lparr>next_hop_node = ''lon'', total_rtt = 50000000, route_path = [''syd'', ''lon'']\<rparr>))"
    unfolding r by (simp add: next_hop_def dijkstra_def path_cost_def DURATION_END_def search_eval)
  from routes_are_direct [OF demo_env_ok measured_forwarder_ok fw_reachable.init n] n show ?thesis by simp
qed

end
