(* ===== verification/Config.thy ===== *)
theory Config
  imports Tunnel
begin

text \<open>
  The configuration of a node, \<open>src/config.rs\<close>: its records, the checks of \<open>validate\<close> in their order,
  the decoding of a peer's key, and \<open>load\<close>.  Reading the file, the TOML parser and the base64 decoder are
  parameters.  The properties: what exactly \<open>validate\<close> accepts, and that an accepted configuration
  decodes.
\<close>

section \<open>Records\<close>

record listen_config =
  lc_relay_addr :: sock_addr
  lc_tcp_addr :: sock_addr
  lc_quic_addr :: sock_addr
  lc_admin_addr :: sock_addr
  lc_admin_token :: "string option"
  lc_tls_cert_path :: "string option"
  lc_tls_key_path :: "string option"

record mesh_config =
  mc_probe_interval_ms :: u64

record relay_config =
  rc_default_dest :: node_name
  rc_fec_data_shards :: "u64 option"
  rc_fec_parity_shards :: "u64 option"

record peer_config =
  pc_node_id :: node_name
  pc_region :: string
  pc_addr :: sock_addr
  pc_shared_key :: string

record config =
  cfg_node_id :: node_name
  cfg_region :: string
  cfg_listen :: listen_config
  cfg_mesh :: mesh_config
  cfg_relay :: relay_config
  cfg_peers :: "peer_config list"

datatype config_error = Config_Io string | Config_Parse string | Config_Validation string

section \<open>Checking and decoding\<close>

fun show_nat :: "nat \<Rightarrow> string" where
  "show_nat n = (if n < 10 then [char_of (48 + n)] else show_nat (n div 10) @ [char_of (48 + n mod 10)])"

declare show_nat.simps [simp del]

definition bad_base64 :: "peer_config \<Rightarrow> config_error" where
  "bad_base64 peer = Config_Validation (''invalid base64 shared_key for peer '' @ pc_node_id peer)"

definition bad_key_length :: "peer_config \<Rightarrow> nat \<Rightarrow> config_error" where
  "bad_key_length peer n =
     Config_Validation (''shared_key for peer '' @ pc_node_id peer @ '' must be 32 bytes (got '' @ show_nat n @ '')'')"

type_synonym base64_lib = "string \<Rightarrow> bytes option"

fun validate_peers :: "base64_lib \<Rightarrow> peer_config list \<Rightarrow> config_error + unit" where
  "validate_peers b64 [] = Inr ()"
| "validate_peers b64 (peer # peers) =
     (case b64 (pc_shared_key peer) of
        None \<Rightarrow> Inl (bad_base64 peer)
      | Some key_bytes \<Rightarrow>
          if length key_bytes \<noteq> 32 then Inl (bad_key_length peer (length key_bytes))
          else validate_peers b64 peers)"

definition validate :: "base64_lib \<Rightarrow> config \<Rightarrow> config_error + unit" where
  "validate b64 c =
     (if cfg_node_id c = [] then Inl (Config_Validation ''node_id cannot be empty'')
      else if cfg_peers c = [] then Inl (Config_Validation ''at least one peer required'')
      else rbind (validate_peers b64 (cfg_peers c)) (\<lambda>_.
        case (lc_tls_cert_path (cfg_listen c), lc_tls_key_path (cfg_listen c)) of
          (Some _, None) \<Rightarrow> Inl (Config_Validation ''tls_cert_path set without tls_key_path'')
        | (None, Some _) \<Rightarrow> Inl (Config_Validation ''tls_key_path set without tls_cert_path'')
        | _ \<Rightarrow> Inr ()))"

definition load ::
    "(string \<Rightarrow> string + string) \<Rightarrow> (string \<Rightarrow> string + config) \<Rightarrow> base64_lib \<Rightarrow> string \<Rightarrow> config_error + config" where
  "load read_file from_toml b64 path =
     (case read_file path of
        Inl e \<Rightarrow> Inl (Config_Io e)
      | Inr content \<Rightarrow>
          (case from_toml content of
             Inl e \<Rightarrow> Inl (Config_Parse e)
           | Inr c \<Rightarrow> rbind (validate b64 c) (\<lambda>_. Inr c)))"

definition decode_key :: "base64_lib \<Rightarrow> peer_config \<Rightarrow> config_error + bytes" where
  "decode_key b64 peer =
     (case b64 (pc_shared_key peer) of
        None \<Rightarrow> Inl (bad_base64 peer)
      | Some bs \<Rightarrow> if length bs \<noteq> 32 then Inl (bad_key_length peer (length bs)) else Inr bs)"

definition show_config_error :: "config_error \<Rightarrow> string" where
  "show_config_error e =
     (case e of
        Config_Io m \<Rightarrow> ''config I/O error: '' @ m
      | Config_Parse m \<Rightarrow> ''config parse error: '' @ m
      | Config_Validation m \<Rightarrow> ''config validation: '' @ m)"

definition error_source :: "config_error \<Rightarrow> string option" where
  "error_source e = (case e of Config_Io m \<Rightarrow> Some m | _ \<Rightarrow> None)"

section \<open>Which configurations are accepted\<close>

lemma decode_key_Inr_iff: "decode_key b64 peer = Inr key \<longleftrightarrow> b64 (pc_shared_key peer) = Some key \<and> length key = 32"
  by (auto simp: decode_key_def split: option.splits if_splits)

lemma decode_key_Inl: "decode_key b64 peer = Inl e \<Longrightarrow> \<exists>m. e = Config_Validation m"
  by (auto simp: decode_key_def bad_base64_def bad_key_length_def split: option.splits if_splits)

text \<open>The peers are checked by decoding their keys; the first that fails gives the error.\<close>

lemma validate_peers_Inr_iff:
  "validate_peers b64 peers = Inr u \<longleftrightarrow> (\<forall>peer \<in> set peers. \<exists>key. decode_key b64 peer = Inr key)"
  by (induction peers) (auto simp: decode_key_def split: option.splits if_splits)

lemma validate_peers_first:
  "\<forall>p \<in> set good. \<exists>key. decode_key b64 p = Inr key \<Longrightarrow> decode_key b64 peer = Inl e \<Longrightarrow>
   validate_peers b64 (good @ peer # rest) = Inl e"
  by (induction good) (auto simp: decode_key_def split: option.splits if_splits)

definition config_ok :: "base64_lib \<Rightarrow> config \<Rightarrow> bool" where
  \<comment> \<open>what a valid configuration is\<close>
  "config_ok b64 c \<longleftrightarrow> cfg_node_id c \<noteq> [] \<and> cfg_peers c \<noteq> [] \<and>
     (\<forall>peer \<in> set (cfg_peers c). \<exists>key. b64 (pc_shared_key peer) = Some key \<and> length key = 32) \<and>
     (lc_tls_cert_path (cfg_listen c) = None \<longleftrightarrow> lc_tls_key_path (cfg_listen c) = None)"

lemma validate_Inr_iff: "validate b64 c = Inr u \<longleftrightarrow> config_ok b64 c"
  by (auto simp: validate_def config_ok_def rbind_eq_Inr_iff validate_peers_Inr_iff decode_key_Inr_iff
      split: option.splits)

section \<open>Properties\<close>

text \<open>C13. Loading accepts exactly the valid configurations: \<open>load\<close> returns \<open>c\<close> if and only if the file was read and
  parsed to \<open>c\<close>, its node has a name and at least one peer, every peer's key decodes to 32 bytes, and
  the TLS certificate and key are given together or not at all; and every peer of a loaded
  configuration then decodes its key without error.\<close>

theorem config_load_exact:
  "(load read_file from_toml b64 path = Inr c \<longleftrightarrow>
      (\<exists>content. read_file path = Inr content \<and> from_toml content = Inr c) \<and> config_ok b64 c) \<and>
   (load read_file from_toml b64 path = Inr c \<longrightarrow>
      (\<forall>peer \<in> set (cfg_peers c). \<exists>key. decode_key b64 peer = Inr key \<and> length key = 32))"
  by (auto simp: load_def rbind_eq_Inr_iff validate_Inr_iff config_ok_def decode_key_Inr_iff split: sum.splits)

definition demo_b64 :: base64_lib where
  "demo_b64 k = (if k = ''k32'' then Some (replicate 32 5) else if k = ''k1'' then Some [5] else None)"

definition demo_config :: config where
  "demo_config = \<lparr>cfg_node_id = ''syd'', cfg_region = ''au'',
     cfg_listen = \<lparr>lc_relay_addr = (0, 4433), lc_tcp_addr = (0, 8443), lc_quic_addr = (0, 4434), lc_admin_addr = (1, 9090),
       lc_admin_token = Some ''secret'', lc_tls_cert_path = None, lc_tls_key_path = None\<rparr>,
     cfg_mesh = \<lparr>mc_probe_interval_ms = 500\<rparr>,
     cfg_relay = \<lparr>rc_default_dest = ''lon'', rc_fec_data_shards = Some 2, rc_fec_parity_shards = Some 1\<rparr>,
     cfg_peers = [\<lparr>pc_node_id = ''lon'', pc_region = ''uk'', pc_addr = (1, 9000), pc_shared_key = ''k32''\<rparr>]\<rparr>"

lemma demo_config_ok: "config_ok demo_b64 demo_config"
  by (simp add: config_ok_def demo_config_def demo_b64_def)

theorem config_load_exact_witness:
  "load (\<lambda>_. Inr ''toml'') (\<lambda>_. Inr demo_config) demo_b64 ''config.toml'' = Inr demo_config \<and>
   (\<exists>key. decode_key demo_b64 (hd (cfg_peers demo_config)) = Inr key \<and> length key = 32)"
proof -
  have "hd (cfg_peers demo_config) \<in> set (cfg_peers demo_config)" by (simp add: demo_config_def)
  then show ?thesis
    using config_load_exact [of "\<lambda>_. Inr ''toml''" "\<lambda>_. Inr demo_config" demo_b64 "''config.toml''" demo_config] demo_config_ok
    by blast
qed

text \<open>The error of a rejected peer list is that of its first bad peer: \<open>validate\<close> of a named node with peers
  reports the decoding error of the peer whose predecessors all decode, before it looks at the TLS
  paths.\<close>

theorem config_first_bad_peer:
  assumes "cfg_node_id c \<noteq> []" "cfg_peers c = good @ peer # rest"
    and "\<forall>p \<in> set good. \<exists>key. decode_key b64 p = Inr key" "decode_key b64 peer = Inl e"
  shows "validate b64 c = Inl e \<and> (\<exists>m. e = Config_Validation m)"
proof -
  have "validate_peers b64 (cfg_peers c) = Inl e"
    unfolding assms(2) using assms(3,4) by (rule validate_peers_first)
  then show ?thesis using assms(1,2) decode_key_Inl [OF assms(4)] by (simp add: validate_def)
qed

theorem config_first_bad_peer_witness:
  "validate demo_b64 (demo_config\<lparr>cfg_peers := cfg_peers demo_config @
     [\<lparr>pc_node_id = ''sgp'', pc_region = ''sg'', pc_addr = (2, 1), pc_shared_key = ''k1''\<rparr>]\<rparr>) =
   Inl (Config_Validation ''shared_key for peer sgp must be 32 bytes (got 1)'')"
proof -
  let ?p = "\<lparr>pc_node_id = ''sgp'', pc_region = ''sg'', pc_addr = (2, 1), pc_shared_key = ''k1''\<rparr>"
  have "decode_key demo_b64 ?p = Inl (Config_Validation ''shared_key for peer sgp must be 32 bytes (got 1)'')"
    by (simp add: decode_key_def demo_b64_def bad_key_length_def show_nat.simps char_of_eq_iff)
  from config_first_bad_peer [OF _ _ _ this, of "demo_config\<lparr>cfg_peers := cfg_peers demo_config @ [?p]\<rparr>"
      "cfg_peers demo_config" "[]"]
  show ?thesis using demo_config_ok by (simp add: decode_key_Inr_iff config_ok_def)
qed

end
