(* ===== verification/Edge.thy ===== *)
theory Edge
  imports Forwarder_Safe
begin

text \<open>
  The edges of a node, \<open>src/edge/tcp_split.rs\<close> and \<open>src/edge/quic_acceptor.rs\<close>: each accepted TCP
  connection or QUIC stream gets a flow identifier and a bounded channel for the data coming back,
  a read task that hands the client's bytes to the forwarder, and a write task that writes the
  channel to the client.  The handlers run concurrently; here they are an arena, and every await
  point ends a step.  Accepting and TLS are the environment's: an accepted stream is a step.

  A handler ends as soon as one of its tasks does.  The other task is detached, not stopped: its
  steps stay possible.
\<close>

section \<open>State\<close>

record flow_conn =
  cn_flow :: u32
  cn_reading :: bool
  cn_todo :: "bytes list"
  cn_chan :: "bytes list"
  cn_writing :: bool
  cn_written :: "bytes list"
  cn_ended :: bool

definition conn_new :: "u32 \<Rightarrow> flow_conn" where
  "conn_new f = \<lparr>cn_flow = f, cn_reading = True, cn_todo = [], cn_chan = [], cn_writing = True,
     cn_written = [], cn_ended = False\<rparr>"

record acceptor =
  ac_dest :: node_name
  ac_active :: "(u32, nat) dmap"
  ac_next :: u32
  ac_conns :: "flow_conn list"

record tcp_splitter = acceptor +
  ts_tls :: bool

type_synonym quic_acceptor = acceptor

definition MAX_RELAY_DATA :: nat where "MAX_RELAY_DATA = 1400"
definition READ_BUF :: nat where "READ_BUF = 16384"
definition TCP_CHANNEL :: nat where "TCP_CHANNEL = 2048"
definition QUIC_CHANNEL :: nat where "QUIC_CHANNEL = 256"

definition tcp_splitter_new :: "node_name \<Rightarrow> tcp_splitter" where
  "tcp_splitter_new dest =
     \<lparr>ac_dest = dest, ac_active = [], ac_next = 1, ac_conns = [], ts_tls = False\<rparr>"

definition with_tls :: "tcp_splitter \<Rightarrow> tcp_splitter" where
  "with_tls s = s\<lparr>ts_tls := True\<rparr>"

definition quic_acceptor_new :: "node_name \<Rightarrow> quic_acceptor" where
  "quic_acceptor_new dest =
     \<lparr>ac_dest = dest, ac_active = [], ac_next = 1000000, ac_conns = []\<rparr>"

section \<open>A connection\<close>

definition next_flow :: "'a acceptor_scheme \<Rightarrow> u32 \<times> 'a acceptor_scheme" where
  "next_flow s = (case fetch_add (ac_next s) of (f, c) \<Rightarrow> (f, s\<lparr>ac_next := c\<rparr>))"

interpretation flow_ids: ticket_counter next_flow ac_next
  by unfold_locales (simp_all add: next_flow_def fetch_add_def)

definition open_flow :: "'a acceptor_scheme \<Rightarrow> 'a acceptor_scheme" where
  \<comment> \<open>the head of \<open>handle_connection\<close> and of \<open>handle_stream\<close>: registers the flow, spawns the tasks\<close>
  "open_flow s =
     (case next_flow s of (f, s) \<Rightarrow>
        s\<lparr>ac_active := dm_insert f (length (ac_conns s)) (ac_active s),
          ac_conns := ac_conns s @ [conn_new f]\<rparr>)"

definition tcp_accept :: "bool \<Rightarrow> tcp_splitter \<Rightarrow> tcp_splitter" where
  \<comment> \<open>one accepted TCP connection; \<open>tls_ok\<close> is the result of its TLS handshake\<close>
  "tcp_accept tls_ok s = (if ts_tls s then if tls_ok then open_flow s else s else open_flow s)"

definition upd_conn :: "nat \<Rightarrow> (flow_conn \<Rightarrow> flow_conn) \<Rightarrow> 'a acceptor_scheme \<Rightarrow> 'a acceptor_scheme" where
  "upd_conn i f s = (if i < length (ac_conns s) then s\<lparr>ac_conns := (ac_conns s)[i := f (ac_conns s ! i)]\<rparr> else s)"

datatype read_result = Read_Data bytes | Read_End | Read_Error

definition tcp_read :: "read_result \<Rightarrow> flow_conn \<Rightarrow> flow_conn" where
  \<comment> \<open>\<open>reader.read\<close> into a buffer of \<open>READ_BUF\<close> bytes; zero bytes are the end of the stream\<close>
  "tcp_read r c =
     (if \<not> cn_reading c \<or> cn_todo c \<noteq> [] then c
      else case r of
             Read_Data bs \<Rightarrow>
               (let n = min (length bs) READ_BUF
                in if n = 0 then c\<lparr>cn_reading := False\<rparr>
                   else c\<lparr>cn_todo := chunks MAX_RELAY_DATA (take n bs)\<rparr>)
           | Read_End \<Rightarrow> c\<lparr>cn_reading := False\<rparr>
           | Read_Error \<Rightarrow> c\<lparr>cn_reading := False\<rparr>)"

definition quic_read :: "read_result \<Rightarrow> flow_conn \<Rightarrow> flow_conn" where
  "quic_read r c =
     (if \<not> cn_reading c \<or> cn_todo c \<noteq> [] then c
      else case r of
             Read_Data bs \<Rightarrow> c\<lparr>cn_todo := [take READ_BUF bs]\<rparr>
           | Read_End \<Rightarrow> c\<lparr>cn_reading := False\<rparr>
           | Read_Error \<Rightarrow> c\<lparr>cn_reading := False\<rparr>)"

definition send_next ::
    "env \<Rightarrow> nat \<Rightarrow> 'a acceptor_scheme \<times> forwarder \<Rightarrow> ('a acceptor_scheme \<times> forwarder) run" where
  \<comment> \<open>the read task of handler \<open>i\<close> gives its next piece to the forwarder; an error ends the task\<close>
  "send_next env i st =
     (case st of (s, fw) \<Rightarrow>
        if i < length (ac_conns s) then
          (case cn_todo (ac_conns s ! i) of
             [] \<Rightarrow> Some (Inr (s, fw))
           | piece # rest \<Rightarrow>
               obind (send_to_node env (ac_dest s) (cn_flow (ac_conns s ! i)) piece fw) (\<lambda>(res, fw).
                 case res of
                   Inl _ \<Rightarrow> Some (Inr (upd_conn i (\<lambda>c. c\<lparr>cn_reading := False, cn_todo := []\<rparr>) s, fw))
                 | Inr _ \<Rightarrow> Some (Inr (upd_conn i (\<lambda>c. c\<lparr>cn_todo := rest\<rparr>) s, fw))))
        else Some (Inr (s, fw)))"

definition write_next :: "nat \<Rightarrow> bool \<Rightarrow> 'a acceptor_scheme \<Rightarrow> 'a acceptor_scheme" where
  \<comment> \<open>the write task of handler \<open>i\<close>: \<open>recv\<close> yields \<open>None\<close> when the channel is empty and its sender gone\<close>
  "write_next i ok s =
     upd_conn i (\<lambda>c.
       if \<not> cn_writing c then c
       else case cn_chan c of
              [] \<Rightarrow> if dm_get (ac_active s) (cn_flow c) = Some i then c else c\<lparr>cn_writing := False\<rparr>
            | data # rest \<Rightarrow>
                if ok then c\<lparr>cn_chan := rest, cn_written := cn_written c @ [data]\<rparr>
                else c\<lparr>cn_chan := [], cn_writing := False\<rparr>) s"

definition end_flow :: "nat \<Rightarrow> 'a acceptor_scheme \<Rightarrow> 'a acceptor_scheme" where
  \<comment> \<open>\<open>select!\<close> of the two tasks, then the flow is removed\<close>
  "end_flow i s =
     (if i < length (ac_conns s) then
        let c = ac_conns s ! i
        in if \<not> cn_ended c \<and> (\<not> cn_reading c \<or> \<not> cn_writing c)
           then (upd_conn i (\<lambda>c. c\<lparr>cn_ended := True\<rparr>) s)\<lparr>ac_active := dm_remove (cn_flow c) (ac_active s)\<rparr>
           else s
      else s)"

section \<open>Deliveries\<close>

definition try_send :: "nat \<Rightarrow> bytes \<Rightarrow> flow_conn \<Rightarrow> flow_conn" where
  \<comment> \<open>refused when the receiver is gone or the channel full\<close>
  "try_send cap data c =
     (if cn_writing c \<and> length (cn_chan c) < cap then c\<lparr>cn_chan := cn_chan c @ [data]\<rparr> else c)"

definition deliver :: "nat \<Rightarrow> u32 \<Rightarrow> bytes \<Rightarrow> 'a acceptor_scheme \<Rightarrow> 'a acceptor_scheme" where
  "deliver cap f data s =
     (case dm_get (ac_active s) f of None \<Rightarrow> s | Some i \<Rightarrow> upd_conn i (try_send cap data) s)"

definition tcp_deliver :: "u32 \<Rightarrow> bytes \<Rightarrow> tcp_splitter \<Rightarrow> tcp_splitter" where
  "tcp_deliver = deliver TCP_CHANNEL"

definition quic_deliver :: "u32 \<Rightarrow> bytes \<Rightarrow> quic_acceptor \<Rightarrow> quic_acceptor" where
  "quic_deliver = deliver QUIC_CHANNEL"

definition tcp_delivery_loop :: "local_delivery list \<Rightarrow> tcp_splitter \<Rightarrow> tcp_splitter" where
  "tcp_delivery_loop ds = fold (\<lambda>d. tcp_deliver (ld_flow_id d) (ld_data d)) ds"

definition quic_delivery_loop :: "local_delivery list \<Rightarrow> quic_acceptor \<Rightarrow> quic_acceptor" where
  "quic_delivery_loop ds = fold (\<lambda>d. quic_deliver (ld_flow_id d) (ld_data d)) ds"

definition active_flow_count :: "'a acceptor_scheme \<Rightarrow> nat" where
  "active_flow_count s = length (ac_active s)"

end
