(* ===== verification/Edge_Correct.thy ===== *)
theory Edge_Correct
  imports Edge Tunnel_Correct
begin

text \<open>
  What the edges promise.  \<open>flow_edge\<close> is the interface the delivery loop uses: bounded queues by
  flow, and a delivery that touches the queue of its flow alone.  Both edges implement it.  The
  invariant \<open>ac_ok\<close> holds of every state an edge can reach.
\<close>

section \<open>The interface of an edge\<close>

locale flow_edge =
  fixes ef_ok :: "'e \<Rightarrow> bool"
    and ef_queue :: "'e \<Rightarrow> u32 \<Rightarrow> bytes list option"
    and ef_deliver :: "u32 \<Rightarrow> bytes \<Rightarrow> 'e \<Rightarrow> 'e"
    and ef_cap :: nat
  assumes deliver_ok: "ef_ok e \<Longrightarrow> ef_ok (ef_deliver f d e)"
    and deliver_queue: "ef_ok e \<Longrightarrow> ef_queue (ef_deliver f d e) g =
      (if g = f then map_option (\<lambda>q. if length q < ef_cap then q @ [d] else q) (ef_queue e f)
       else ef_queue e g)"
    and queue_bound: "ef_ok e \<Longrightarrow> ef_queue e f = Some q \<Longrightarrow> length q \<le> ef_cap"
begin

abbreviation deliver_all :: "(u32 \<times> bytes) list \<Rightarrow> 'e \<Rightarrow> 'e" where
  "deliver_all ds \<equiv> fold (\<lambda>(f, d). ef_deliver f d) ds"

lemma deliver_all_ok: "ef_ok e \<Longrightarrow> ef_ok (deliver_all ds e)"
  by (induction ds arbitrary: e) (auto simp: deliver_ok split: prod.splits)

lemma deliver_all_queue:
  "ef_ok e \<Longrightarrow> ef_queue e f = Some q \<Longrightarrow>
   ef_queue (deliver_all ds e) f = Some (take ef_cap (q @ map snd (filter (\<lambda>x. fst x = f) ds)))"
proof (induction ds arbitrary: e q)
  case Nil
  then show ?case using queue_bound by fastforce
next
  case (Cons x ds)
  obtain g d where x: "x = (g, d)" by fastforce
  note ok = deliver_ok [OF Cons.prems(1), of g d]
  show ?case
  proof (cases "g = f")
    case True
    let ?q = "if length q < ef_cap then q @ [d] else q"
    have "ef_queue (ef_deliver g d e) f = Some ?q"
      using deliver_queue [OF Cons.prems(1), of g d f] Cons.prems(2) True by simp
    from Cons.IH [OF ok this] show ?thesis
      using queue_bound [OF Cons.prems] by (auto simp: x True take_Cons' Suc_diff_Suc)
  next
    case False
    then have "ef_queue (ef_deliver g d e) f = Some q"
      using deliver_queue [OF Cons.prems(1), of g d f] Cons.prems(2) by simp
    from Cons.IH [OF ok this] show ?thesis by (simp add: x False)
  qed
qed

lemma deliver_all_closed:
  "ef_ok e \<Longrightarrow> ef_queue e f = None \<Longrightarrow> ef_queue (deliver_all ds e) f = None"
proof (induction ds arbitrary: e)
  case Nil
  then show ?case by simp
next
  case (Cons x ds)
  obtain g d where x: "x = (g, d)" by fastforce
  have "ef_queue (ef_deliver g d e) f = None"
    using deliver_queue [OF Cons.prems(1), of g d f] Cons.prems(2) by (auto split: if_splits)
  with Cons.IH [OF deliver_ok [OF Cons.prems(1)]] show ?case by (simp add: x)
qed

end

section \<open>The invariant\<close>

definition conn_ok :: "nat \<Rightarrow> flow_conn \<Rightarrow> bool" where
  "conn_ok cap c \<longleftrightarrow> length (cn_chan c) \<le> cap \<and> (\<forall>x \<in> set (cn_todo c). length x \<le> READ_BUF)"

definition ac_ok :: "nat \<Rightarrow> 'a acceptor_scheme \<Rightarrow> bool" where
  "ac_ok cap s \<longleftrightarrow> dm_wf (ac_active s) \<and>
     (\<forall>f i. dm_get (ac_active s) f = Some i \<longrightarrow> i < length (ac_conns s) \<and> cn_flow (ac_conns s ! i) = f) \<and>
     (\<forall>c \<in> set (ac_conns s). conn_ok cap c)"

definition flow_queue :: "'a acceptor_scheme \<Rightarrow> u32 \<Rightarrow> bytes list option" where
  "flow_queue s f =
     (case dm_get (ac_active s) f of
        None \<Rightarrow> None
      | Some i \<Rightarrow> if cn_writing (ac_conns s ! i) then Some (cn_chan (ac_conns s ! i)) else None)"

lemma ac_okD:
  assumes "ac_ok cap s"
  shows "dm_wf (ac_active s)"
    "\<And>f i. dm_get (ac_active s) f = Some i \<Longrightarrow> i < length (ac_conns s) \<and> cn_flow (ac_conns s ! i) = f"
    "\<And>i. i < length (ac_conns s) \<Longrightarrow> conn_ok cap (ac_conns s ! i)"
  using assms nth_mem unfolding ac_ok_def by blast+

lemma upd_conn_simps [simp]:
  "ac_active (upd_conn i f s) = ac_active s" "ac_next (upd_conn i f s) = ac_next s"
  "ac_dest (upd_conn i f s) = ac_dest s" "length (ac_conns (upd_conn i f s)) = length (ac_conns s)"
  by (simp_all add: upd_conn_def)

lemma upd_conn_nth:
  "i < length (ac_conns s) \<Longrightarrow>
   ac_conns (upd_conn i f s) ! j = (if i = j then f (ac_conns s ! i) else ac_conns s ! j)"
  by (simp add: upd_conn_def nth_list_update)

lemma ac_ok_upd:
  assumes ok: "ac_ok cap s" and f: "\<And>c. cn_flow (f c) = cn_flow c" "\<And>c. conn_ok cap c \<Longrightarrow> conn_ok cap (f c)"
  shows "ac_ok cap (upd_conn i f s)"
proof (cases "i < length (ac_conns s)")
  case True
  then have "set (ac_conns (upd_conn i f s)) \<subseteq> insert (f (ac_conns s ! i)) (set (ac_conns s))"
    by (simp add: upd_conn_def set_update_subset_insert)
  then have "\<forall>c \<in> set (ac_conns (upd_conn i f s)). conn_ok cap c"
    using ac_okD(3) [OF ok True] ok f(2) by (auto simp: ac_ok_def)
  then show ?thesis using ac_okD(1,2) [OF ok] f(1) True by (auto simp: ac_ok_def upd_conn_nth)
next
  case False
  then show ?thesis using ok by (simp add: upd_conn_def)
qed

lemma try_send_fields [simp]:
  "cn_flow (try_send cap d c) = cn_flow c" "cn_writing (try_send cap d c) = cn_writing c"
  "cn_todo (try_send cap d c) = cn_todo c"
  by (simp_all add: try_send_def)

lemma deliver_ac_ok: "ac_ok cap s \<Longrightarrow> ac_ok cap (deliver cap f d s)"
  by (auto simp: deliver_def conn_ok_def try_send_def split: option.splits intro!: ac_ok_upd)

lemma deliver_flow_queue:
  assumes ok: "ac_ok cap s"
  shows "flow_queue (deliver cap f d s) g =
    (if g = f then map_option (\<lambda>q. if length q < cap then q @ [d] else q) (flow_queue s f)
     else flow_queue s g)"
proof (cases "dm_get (ac_active s) f")
  case None
  then show ?thesis by (auto simp: deliver_def flow_queue_def)
next
  case (Some i)
  then have i: "i < length (ac_conns s)" "cn_flow (ac_conns s ! i) = f" using ac_okD(2) [OF ok] by auto
  have "j \<noteq> i" if "dm_get (ac_active s) g = Some j" "g \<noteq> f" for j
    using ac_okD(2) [OF ok that(1)] i(2) that(2) by auto
  then show ?thesis
    using Some i by (auto simp: deliver_def flow_queue_def upd_conn_nth try_send_def split: option.splits)
qed

lemma ac_queue_bound: "ac_ok cap s \<Longrightarrow> flow_queue s f = Some q \<Longrightarrow> length q \<le> cap"
  using ac_okD(2,3) by (fastforce simp: flow_queue_def conn_ok_def split: option.splits if_splits)

interpretation tcp_edge: flow_edge "ac_ok TCP_CHANNEL" flow_queue tcp_deliver TCP_CHANNEL
  by unfold_locales (auto simp: tcp_deliver_def deliver_ac_ok deliver_flow_queue ac_queue_bound)

interpretation quic_edge: flow_edge "ac_ok QUIC_CHANNEL" flow_queue quic_deliver QUIC_CHANNEL
  by unfold_locales (auto simp: quic_deliver_def deliver_ac_ok deliver_flow_queue ac_queue_bound)

section \<open>Every step keeps the invariant\<close>

lemma ac_okI:
  assumes "dm_wf (ac_active s)"
    "\<And>f i. dm_get (ac_active s) f = Some i \<Longrightarrow> i < length (ac_conns s) \<and> cn_flow (ac_conns s ! i) = f"
    "\<And>c. c \<in> set (ac_conns s) \<Longrightarrow> conn_ok cap c"
  shows "ac_ok cap s"
  using assms by (simp add: ac_ok_def)

lemma open_flow_fields:
  "ac_active (open_flow s) = dm_insert (ac_next s) (length (ac_conns s)) (ac_active s)"
  "ac_conns (open_flow s) = ac_conns s @ [conn_new (ac_next s)]" "ac_next (open_flow s) = ac_next s + 1"
  by (simp_all add: open_flow_def next_flow_def fetch_add_def)

lemma ac_ok_open:
  assumes ok: "ac_ok cap s"
  shows "ac_ok cap (open_flow s)"
proof (rule ac_okI)
  show "dm_wf (ac_active (open_flow s))" using ac_okD(1) [OF ok] by (simp add: open_flow_fields)
  show "conn_ok cap c" if "c \<in> set (ac_conns (open_flow s))" for c
    using that ok by (auto simp: open_flow_fields ac_ok_def conn_ok_def conn_new_def)
  show "i < length (ac_conns (open_flow s)) \<and> cn_flow (ac_conns (open_flow s) ! i) = f"
    if g: "dm_get (ac_active (open_flow s)) f = Some i" for f i
  proof (cases "f = ac_next s")
    case True
    with g show ?thesis by (simp add: open_flow_fields conn_new_def nth_append)
  next
    case False
    with g have "dm_get (ac_active s) f = Some i" by (simp add: open_flow_fields)
    from ac_okD(2) [OF ok this] show ?thesis by (simp add: open_flow_fields nth_append)
  qed
qed

lemma tcp_read_ok: "cn_flow (tcp_read r c) = cn_flow c" "conn_ok cap c \<Longrightarrow> conn_ok cap (tcp_read r c)"
  using chunks_bound [of MAX_RELAY_DATA]
  by (fastforce simp: tcp_read_def conn_ok_def Let_def MAX_RELAY_DATA_def READ_BUF_def split: read_result.splits)+

lemma quic_read_ok: "cn_flow (quic_read r c) = cn_flow c" "conn_ok cap c \<Longrightarrow> conn_ok cap (quic_read r c)"
  by (auto simp: quic_read_def conn_ok_def split: read_result.splits)

lemma ac_ok_write: "ac_ok cap s \<Longrightarrow> ac_ok cap (write_next i ok s)"
  unfolding write_next_def by (rule ac_ok_upd) (auto simp: conn_ok_def split: list.splits)

lemma ac_ok_remove: "ac_ok cap s \<Longrightarrow> ac_ok cap (s\<lparr>ac_active := dm_remove f (ac_active s)\<rparr>)"
proof (rule ac_okI)
  let ?s = "s\<lparr>ac_active := dm_remove f (ac_active s)\<rparr>"
  assume ok: "ac_ok cap s"
  show "dm_wf (ac_active ?s)" using ac_okD(1) [OF ok] by simp
  show "conn_ok cap c" if "c \<in> set (ac_conns ?s)" for c using ok that by (simp add: ac_ok_def)
  show "i < length (ac_conns ?s) \<and> cn_flow (ac_conns ?s ! i) = g" if "dm_get (ac_active ?s) g = Some i" for g i
    using ac_okD(2) [OF ok, of g i] that by (cases "g = f") simp_all
qed

lemma ac_ok_end: "ac_ok cap s \<Longrightarrow> ac_ok cap (end_flow i s)"
proof -
  assume ok: "ac_ok cap s"
  have "ac_ok cap (upd_conn i (\<lambda>c. c\<lparr>cn_ended := True\<rparr>) s)"
    by (rule ac_ok_upd [OF ok]) (simp_all add: conn_ok_def)
  from ac_ok_remove [OF this, of "cn_flow (ac_conns s ! i)"] ok show ?thesis
    by (simp add: end_flow_def Let_def)
qed

lemma ac_ok_new: "ac_ok TCP_CHANNEL (tcp_splitter_new dest)" "ac_ok QUIC_CHANNEL (quic_acceptor_new dest)"
  by (simp_all add: ac_ok_def tcp_splitter_new_def quic_acceptor_new_def)

text \<open>The steps of one edge; \<open>rd\<close> is its reader.  What the forwarder answers is \<open>Ed_Sent\<close>.\<close>

datatype edge_event =
    Ed_Open
  | Ed_Read nat read_result
  | Ed_Sent nat bool
  | Ed_Write nat bool
  | Ed_End nat
  | Ed_Deliver u32 bytes

definition piece_sent :: "bool \<Rightarrow> flow_conn \<Rightarrow> flow_conn" where
  "piece_sent ok c = (if ok then c\<lparr>cn_todo := tl (cn_todo c)\<rparr> else c\<lparr>cn_reading := False, cn_todo := []\<rparr>)"

definition edge_step ::
    "(read_result \<Rightarrow> flow_conn \<Rightarrow> flow_conn) \<Rightarrow> nat \<Rightarrow> edge_event \<Rightarrow> 'a acceptor_scheme \<Rightarrow> 'a acceptor_scheme" where
  "edge_step rd cap e s =
     (case e of
        Ed_Open \<Rightarrow> open_flow s
      | Ed_Read i r \<Rightarrow> upd_conn i (rd r) s
      | Ed_Sent i ok \<Rightarrow> upd_conn i (piece_sent ok) s
      | Ed_Write i ok \<Rightarrow> write_next i ok s
      | Ed_End i \<Rightarrow> end_flow i s
      | Ed_Deliver f d \<Rightarrow> deliver cap f d s)"

text \<open>\<open>send_next\<close> is such a step of the edge beside the forwarder's.\<close>

lemma send_next_step:
  assumes "i < length (ac_conns s)" "cn_todo (ac_conns s ! i) = piece # rest"
  shows "send_next env i (s, fw) =
    obind (send_to_node env (ac_dest s) (cn_flow (ac_conns s ! i)) piece fw)
      (\<lambda>(res, fw). Some (Inr (upd_conn i (piece_sent (res = Inr ())) s, fw)))"
proof -
  have "(case res of
      Inl x \<Rightarrow> Some (Inr (upd_conn i (\<lambda>c. c\<lparr>cn_reading := False, cn_todo := []\<rparr>) s, fw))
    | Inr x \<Rightarrow> Some (Inr (upd_conn i (\<lambda>c. c\<lparr>cn_todo := rest\<rparr>) s, fw))) =
    (Some (Inr (upd_conn i (piece_sent (res = Inr ())) s, fw)) :: ('a acceptor_scheme \<times> forwarder) run)"
    for res :: "forwarder_error + unit" and fw
    using assms by (cases res) (simp_all add: upd_conn_def piece_sent_def)
  then show ?thesis using assms by (simp add: send_next_def)
qed

end
