(* ===== verification/Edge_Flows.thy ===== *)
theory Edge_Flows
  imports Edge_Correct "HOL-Library.Sublist"
begin

text \<open>
  The two directions of a flow of an edge, over every interleaving of the edge's tasks: what the
  forwarder delivers reaches the client in order, what the client sends reaches the forwarder
  whole, and what a half-closed client loses.
\<close>

section \<open>From the relay to the client\<close>

definition stream :: "flow_conn \<Rightarrow> bytes list" where
  \<comment> \<open>what the client has been and will be written\<close>
  "stream c = cn_written c @ cn_chan c"

definition keeps_output :: "(read_result \<Rightarrow> flow_conn \<Rightarrow> flow_conn) \<Rightarrow> bool" where
  "keeps_output rd \<longleftrightarrow> (\<forall>r c. cn_flow (rd r c) = cn_flow c \<and> cn_chan (rd r c) = cn_chan c \<and>
     cn_written (rd r c) = cn_written c \<and> cn_writing (rd r c) = cn_writing c \<and>
     (\<forall>cap. conn_ok cap c \<longrightarrow> conn_ok cap (rd r c)))"

lemma keeps_output_readers: "keeps_output tcp_read" "keeps_output quic_read"
  using tcp_read_ok quic_read_ok
  by (auto simp: keeps_output_def tcp_read_def quic_read_def Let_def split: read_result.splits)

lemma piece_sent_fields [simp]:
  "cn_flow (piece_sent ok c) = cn_flow c" "cn_chan (piece_sent ok c) = cn_chan c"
  "cn_written (piece_sent ok c) = cn_written c" "cn_writing (piece_sent ok c) = cn_writing c"
  by (simp_all add: piece_sent_def)

lemma conn_ok_piece_sent: "conn_ok cap c \<Longrightarrow> conn_ok cap (piece_sent ok c)"
  by (cases "cn_todo c") (auto simp: conn_ok_def piece_sent_def)

lemma edge_step_ok:
  assumes "keeps_output rd" "ac_ok cap s"
  shows "ac_ok cap (edge_step rd cap e s)"
  using assms ac_ok_open ac_ok_write ac_ok_end deliver_ac_ok
  by (cases e) (auto simp: edge_step_def keeps_output_def conn_ok_piece_sent intro!: ac_ok_upd)

definition deliveries :: "u32 \<Rightarrow> edge_event list \<Rightarrow> bytes list" where
  "deliveries f es = concat (map (\<lambda>e. case e of Ed_Deliver g d \<Rightarrow> if g = f then [d] else [] | _ \<Rightarrow> []) es)"

lemma deliveries_Cons:
  "deliveries f (e # es) = (case e of Ed_Deliver g d \<Rightarrow> if g = f then [d] else [] | _ \<Rightarrow> []) @ deliveries f es"
  by (simp add: deliveries_def)

definition flow_view :: "u32 \<Rightarrow> nat \<Rightarrow> bytes list \<Rightarrow> bytes list \<Rightarrow> 'a acceptor_scheme \<Rightarrow> bool" where
  \<comment> \<open>the flow \<open>f\<close> is served by handler \<open>i\<close> alone, with the channel \<open>q\<close> and the stream \<open>h\<close>\<close>
  "flow_view f i q h s \<longleftrightarrow> dm_get (ac_active s) f = Some i \<and> i < length (ac_conns s) \<and>
     cn_flow (ac_conns s ! i) = f \<and> cn_writing (ac_conns s ! i) \<and>
     cn_chan (ac_conns s ! i) = q \<and> stream (ac_conns s ! i) = h \<and>
     (\<forall>j < length (ac_conns s). j \<noteq> i \<longrightarrow> cn_flow (ac_conns s ! j) = f \<longrightarrow> cn_ended (ac_conns s ! j))"

lemma flow_view_upd:
  assumes v: "flow_view f i q h s"
    and g: "\<And>c. cn_flow (g c) = cn_flow c" "\<And>c. cn_ended (g c) = cn_ended c"
    and i: "i = j \<Longrightarrow> cn_chan (g (ac_conns s ! i)) = q' \<and> stream (g (ac_conns s ! i)) = h' \<and> cn_writing (g (ac_conns s ! i))"
      "i \<noteq> j \<Longrightarrow> q' = q \<and> h' = h"
  shows "flow_view f i q' h' (upd_conn j g s)"
proof (cases "j < length (ac_conns s)")
  case True
  then show ?thesis using v g i by (auto simp: flow_view_def upd_conn_nth)
next
  case False
  then show ?thesis using v i by (auto simp: flow_view_def upd_conn_def)
qed

lemma flow_view_other_end:
  assumes v: "flow_view f i q h s" and "j \<noteq> i"
  shows "flow_view f i q h (end_flow j s)"
  using assms by (auto simp: end_flow_def flow_view_def Let_def upd_conn_nth)

lemma flow_view_open:
  assumes v: "flow_view f i q h s" and f: "ac_next s \<noteq> f"
  shows "flow_view f i q h (open_flow s)"
proof -
  let ?cs = "ac_conns s @ [conn_new (ac_next s)]"
  have "i < length (ac_conns s)" using v by (simp add: flow_view_def)
  then have "?cs ! i = ac_conns s ! i" by (simp add: nth_append)
  moreover have "cn_ended (?cs ! j)" if "j < length ?cs" "j \<noteq> i" "cn_flow (?cs ! j) = f" for j
  proof (cases "j < length (ac_conns s)")
    case True
    then show ?thesis using v that by (simp add: flow_view_def nth_append)
  next
    case False
    then have "j = length (ac_conns s)" using that(1) by simp
    then show ?thesis using that(3) f by (simp add: nth_append conn_new_def)
  qed
  ultimately show ?thesis using v f by (simp add: flow_view_def open_flow_fields)
qed

lemma flow_view_write:
  assumes v: "flow_view f i q h s" and j: "j = i \<Longrightarrow> ok"
  shows "flow_view f i (if j = i then tl q else q) h (write_next j ok s)"
  unfolding write_next_def using v j
  by (intro flow_view_upd [OF v]) (auto simp: flow_view_def stream_def split: list.splits)

lemma flow_view_deliver:
  assumes v: "flow_view f i q h s" and ok: "ac_ok cap s"
  shows "flow_view f i (q @ (if g = f \<and> length q < cap then [d] else []))
    (h @ (if g = f \<and> length q < cap then [d] else [])) (deliver cap g d s)"
proof (cases "dm_get (ac_active s) g")
  case None
  moreover have "dm_get (ac_active s) f = Some i" using v by (simp add: flow_view_def)
  ultimately have "g \<noteq> f" by auto
  then show ?thesis using v None by (simp add: deliver_def)
next
  case (Some j)
  have fi: "dm_get (ac_active s) f = Some i" "cn_flow (ac_conns s ! i) = f" using v by (simp_all add: flow_view_def)
  have "cn_flow (ac_conns s ! j) = g" using ac_okD(2) [OF ok Some] by simp
  then have gj: "g = f \<longleftrightarrow> j = i" using Some fi by (metis option.inject)
  have at: "cn_writing (ac_conns s ! i)" "cn_chan (ac_conns s ! i) = q" "stream (ac_conns s ! i) = h"
    using v by (simp_all add: flow_view_def)
  have "flow_view f i (q @ (if g = f \<and> length q < cap then [d] else []))
    (h @ (if g = f \<and> length q < cap then [d] else [])) (upd_conn j (try_send cap d) s)"
    by (rule flow_view_upd [OF v]) (use gj at in \<open>auto simp: try_send_def stream_def\<close>)
  then show ?thesis using Some by (simp add: deliver_def)
qed

text \<open>One step: the stream grows by the delivery, when there is room for it.\<close>

lemma flow_view_step:
  assumes rd: "keeps_output rd" "\<And>r c. cn_ended (rd r c) = cn_ended c"
    and v: "flow_view f i q h s" and ok: "ac_ok cap s"
    and e: "e \<noteq> Ed_End i" "e \<noteq> Ed_Write i False" "e = Ed_Open \<Longrightarrow> ac_next s \<noteq> f"
  obtains q' ds where "flow_view f i q' (h @ ds) (edge_step rd cap e s)" and "subseq ds (deliveries f [e])"
    and "length q' \<le> length q + length ds" and "length q < cap \<Longrightarrow> ds = deliveries f [e]"
proof (cases e)
  case Ed_Open
  then show thesis using flow_view_open [OF v] e that [of q "[]"] by (simp add: edge_step_def deliveries_def)
next
  case (Ed_Read j r)
  have "flow_view f i q h (upd_conn j (rd r) s)"
    using rd v by (intro flow_view_upd [OF v]) (auto simp: keeps_output_def flow_view_def stream_def)
  then show thesis using Ed_Read that [of q "[]"] by (simp add: edge_step_def deliveries_def)
next
  case (Ed_Sent j b)
  have "flow_view f i q h (upd_conn j (piece_sent b) s)"
    using v by (intro flow_view_upd [OF v]) (auto simp: flow_view_def stream_def piece_sent_def)
  then show thesis using Ed_Sent that [of q "[]"] by (simp add: edge_step_def deliveries_def)
next
  case (Ed_Write j b)
  then show thesis
    using flow_view_write [OF v, of j b] e that [of "if j = i then tl q else q" "[]"]
    by (auto simp: edge_step_def deliveries_def)
next
  case (Ed_End j)
  then show thesis using flow_view_other_end [OF v] e that [of q "[]"] by (simp add: edge_step_def deliveries_def)
next
  case (Ed_Deliver g d)
  then show thesis
    using flow_view_deliver [OF v ok, of g d] that
    by (fastforce simp: edge_step_def deliveries_def split: if_splits)
qed

definition edge_run ::
    "(read_result \<Rightarrow> flow_conn \<Rightarrow> flow_conn) \<Rightarrow> nat \<Rightarrow> edge_event list \<Rightarrow> 'a acceptor_scheme \<Rightarrow> 'a acceptor_scheme" where
  "edge_run rd cap es s = fold (edge_step rd cap) es s"

lemma edge_run_Cons [simp]: "edge_run rd cap (e # es) s = edge_run rd cap es (edge_step rd cap e s)"
  by (simp add: edge_run_def)

definition fresh_for :: "u32 \<Rightarrow> edge_event list \<Rightarrow> u32 \<Rightarrow> bool" where
  \<comment> \<open>the connections opened by the events do not wrap around to the flow \<open>f\<close>\<close>
  "fresh_for f es c \<longleftrightarrow> (\<forall>k < count_list es Ed_Open. c + word_of_nat k \<noteq> f)"

lemma ac_next_step: "ac_next (edge_step rd cap e s) = ac_next s + (if e = Ed_Open then 1 else 0)"
  by (cases e) (auto simp: edge_step_def open_flow_fields write_next_def end_flow_def deliver_def Let_def split: option.splits)

lemma fresh_for_Cons:
  "fresh_for f (e # es) (ac_next s) \<Longrightarrow>
   (e = Ed_Open \<longrightarrow> ac_next s \<noteq> f) \<and> fresh_for f es (ac_next (edge_step rd cap e s))"
proof -
  assume a: "fresh_for f (e # es) (ac_next s)"
  have "ac_next s \<noteq> f" if "e = Ed_Open"
    using a that by (auto simp: fresh_for_def dest: spec [of _ 0])
  moreover have "fresh_for f es (ac_next s + (if e = Ed_Open then 1 else 0))"
    unfolding fresh_for_def
  proof safe
    fix k
    assume k: "k < count_list es Ed_Open" and eq: "f = ac_next s + (if e = Ed_Open then 1 else 0) + word_of_nat k"
    let ?k = "if e = Ed_Open then Suc k else k"
    have "?k < count_list (e # es) Ed_Open" using k by simp
    moreover have "ac_next s + word_of_nat ?k = f" using eq by (simp add: add_ac)
    ultimately show False using a unfolding fresh_for_def by blast
  qed
  ultimately show ?thesis by (simp add: ac_next_step)
qed

lemma flow_view_run:
  assumes rd: "keeps_output rd" "\<And>r c. cn_ended (rd r c) = cn_ended c"
  shows "flow_view f i q h s \<Longrightarrow> ac_ok cap s \<Longrightarrow> Ed_End i \<notin> set es \<Longrightarrow> Ed_Write i False \<notin> set es \<Longrightarrow>
    fresh_for f es (ac_next s) \<Longrightarrow>
    \<exists>q' ds. flow_view f i q' (h @ ds) (edge_run rd cap es s) \<and> subseq ds (deliveries f es) \<and>
      (length q + length (deliveries f es) \<le> cap \<longrightarrow> ds = deliveries f es)"
proof (induction es arbitrary: s q h)
  case Nil
  then show ?case by (intro exI [of _ q] exI [of _ "[]"]) (simp add: edge_run_def deliveries_def)
next
  case (Cons e es)
  let ?s = "edge_step rd cap e s"
  note fr = fresh_for_Cons [OF Cons.prems(5), of rd cap]
  have "e \<noteq> Ed_End i" "e \<noteq> Ed_Write i False" using Cons.prems(3,4) by auto
  from flow_view_step [OF rd Cons.prems(1,2) this] fr obtain q1 ds1
    where v: "flow_view f i q1 (h @ ds1) ?s" and sub: "subseq ds1 (deliveries f [e])"
      and len: "length q1 \<le> length q + length ds1" and room: "length q < cap \<Longrightarrow> ds1 = deliveries f [e]"
    by metis
  obtain q2 ds2 where v2: "flow_view f i q2 ((h @ ds1) @ ds2) (edge_run rd cap es ?s)"
    and sub2: "subseq ds2 (deliveries f es)"
    and room2: "length q1 + length (deliveries f es) \<le> cap \<longrightarrow> ds2 = deliveries f es"
    using Cons.IH [OF v edge_step_ok [OF rd(1) Cons.prems(2)]] Cons.prems(3,4) fr by auto
  have del: "deliveries f (e # es) = deliveries f [e] @ deliveries f es" by (simp add: deliveries_def)
  have "ds1 @ ds2 = deliveries f (e # es)" if r: "length q + length (deliveries f (e # es)) \<le> cap"
  proof -
    have "ds1 = deliveries f [e]"
    proof (cases "deliveries f [e] = []")
      case True
      then show ?thesis using sub by simp
    next
      case False
      then have "0 < length (deliveries f [e])" by (simp only: length_greater_0_conv) simp
      then have "length q < cap" using r unfolding del length_append by linarith
      then show ?thesis by (rule room)
    qed
    moreover from this have "length q1 + length (deliveries f es) \<le> cap"
      using len r by (simp add: del)
    ultimately show ?thesis using room2 del by simp
  qed
  moreover have "subseq (ds1 @ ds2) (deliveries f (e # es))"
    unfolding del using sub sub2 by (rule list_emb_append_mono)
  ultimately show ?case using v2 by (intro exI [of _ q2] exI [of _ "ds1 @ ds2"]) simp
qed

lemma readers_keep_ended: "cn_ended (tcp_read r c) = cn_ended c" "cn_ended (quic_read r c) = cn_ended c"
  by (auto simp: tcp_read_def quic_read_def Let_def split: read_result.splits)

section \<open>A flow whose client has sent its last byte\<close>

text \<open>Once a handler has ended, its flow is not registered and its stream no longer grows.\<close>

definition closed_view :: "u32 \<Rightarrow> nat \<Rightarrow> bytes list \<Rightarrow> 'a acceptor_scheme \<Rightarrow> bool" where
  "closed_view f i h s \<longleftrightarrow> dm_get (ac_active s) f = None \<and> i < length (ac_conns s) \<and>
     cn_flow (ac_conns s ! i) = f \<and> prefix (stream (ac_conns s ! i)) h"

lemma closed_view_upd:
  assumes v: "closed_view f i h s" and g: "\<And>c. cn_flow (g c) = cn_flow c" "\<And>c. prefix (stream (g c)) (stream c)"
  shows "closed_view f i h (upd_conn j g s)"
proof (cases "j < length (ac_conns s)")
  case True
  then show ?thesis
    using v g(1) prefix_order.trans [OF g(2)] by (auto simp: closed_view_def upd_conn_nth)
next
  case False
  then show ?thesis using v by (simp add: upd_conn_def)
qed

lemma closed_view_step:
  assumes rd: "keeps_output rd" and v: "closed_view f i h s" and ok: "ac_ok cap s"
    and e: "e = Ed_Open \<Longrightarrow> ac_next s \<noteq> f"
  shows "closed_view f i h (edge_step rd cap e s)"
proof (cases e)
  case Ed_Open
  then show ?thesis using v e by (simp add: edge_step_def closed_view_def open_flow_fields nth_append)
next
  case (Ed_Read j r)
  have "closed_view f i h (upd_conn j (rd r) s)"
    using rd by (intro closed_view_upd [OF v]) (auto simp: keeps_output_def stream_def)
  then show ?thesis using Ed_Read by (simp add: edge_step_def)
next
  case (Ed_Sent j b)
  have "closed_view f i h (upd_conn j (piece_sent b) s)"
    by (intro closed_view_upd [OF v]) (simp_all add: stream_def)
  then show ?thesis using Ed_Sent by (simp add: edge_step_def)
next
  case (Ed_Write j b)
  have "closed_view f i h (write_next j b s)"
    unfolding write_next_def by (intro closed_view_upd [OF v]) (auto simp: stream_def split: list.splits)
  then show ?thesis using Ed_Write by (simp add: edge_step_def)
next
  case (Ed_End j)
  have "closed_view f i h (upd_conn j (\<lambda>c. c\<lparr>cn_ended := True\<rparr>) s)"
    by (intro closed_view_upd [OF v]) (simp_all add: stream_def)
  then show ?thesis using v Ed_End by (simp add: edge_step_def end_flow_def Let_def closed_view_def)
next
  case (Ed_Deliver g d)
  show ?thesis
  proof (cases "dm_get (ac_active s) g")
    case None
    then show ?thesis using v Ed_Deliver by (simp add: edge_step_def deliver_def)
  next
    case (Some j)
    have "cn_flow (ac_conns s ! j) = g" using ac_okD(2) [OF ok Some] by simp
    then have "j \<noteq> i" using Some v by (auto simp: closed_view_def)
    then show ?thesis
      using v Some Ed_Deliver ac_okD(2) [OF ok Some]
      by (simp add: edge_step_def deliver_def closed_view_def upd_conn_nth)
  qed
qed

lemma closed_view_run:
  assumes rd: "keeps_output rd"
  shows "closed_view f i h s \<Longrightarrow> ac_ok cap s \<Longrightarrow> fresh_for f es (ac_next s) \<Longrightarrow> closed_view f i h (edge_run rd cap es s)"
proof (induction es arbitrary: s)
  case Nil
  then show ?case by (simp add: edge_run_def)
next
  case (Cons e es)
  note fr = fresh_for_Cons [OF Cons.prems(3), of rd cap]
  then show ?case
    using Cons.IH [OF closed_view_step [OF rd Cons.prems(1,2)] edge_step_ok [OF rd Cons.prems(2)]] by simp
qed

section \<open>Properties\<close>

definition edge_kind :: "(read_result \<Rightarrow> flow_conn \<Rightarrow> flow_conn) \<Rightarrow> nat \<Rightarrow> bool" where
  \<comment> \<open>the reader and the channel size of the TCP edge or of the QUIC edge\<close>
  "edge_kind rd cap \<longleftrightarrow> rd = tcp_read \<and> cap = TCP_CHANNEL \<or> rd = quic_read \<and> cap = QUIC_CHANNEL"

definition pieces_ok :: "'a acceptor_scheme \<Rightarrow> bool" where
  \<comment> \<open>what the read tasks still have to relay is cut to relay payloads\<close>
  "pieces_ok s \<longleftrightarrow> (\<forall>c \<in> set (ac_conns s). \<forall>x \<in> set (cn_todo c). 0 < length x \<and> length x \<le> MAX_RELAY_DATA)"

lemma pieces_ok_upd:
  assumes "pieces_ok s" "\<And>c x. x \<in> set (cn_todo (g c)) \<Longrightarrow> x \<in> set (cn_todo c) \<or> 0 < length x \<and> length x \<le> MAX_RELAY_DATA"
  shows "pieces_ok (upd_conn i g s)"
proof (cases "i < length (ac_conns s)")
  case True
  then have "set (ac_conns (upd_conn i g s)) \<subseteq> insert (g (ac_conns s ! i)) (set (ac_conns s))"
    by (simp add: upd_conn_def set_update_subset_insert)
  moreover have "ac_conns s ! i \<in> set (ac_conns s)" using True by simp
  ultimately show ?thesis using assms unfolding pieces_ok_def by blast
next
  case False
  then show ?thesis using assms(1) by (simp add: upd_conn_def)
qed

lemma tcp_read_pieces:
  "x \<in> set (cn_todo (tcp_read r c)) \<Longrightarrow> x \<in> set (cn_todo c) \<or> 0 < length x \<and> length x \<le> MAX_RELAY_DATA"
  using chunks_bound [of MAX_RELAY_DATA x]
  by (auto simp: tcp_read_def Let_def MAX_RELAY_DATA_def split: if_splits read_result.splits)

lemma in_set_tlD: "x \<in> set (tl xs) \<Longrightarrow> x \<in> set xs"
  by (cases xs) simp_all

lemma pieces_ok_step: "pieces_ok s \<Longrightarrow> pieces_ok (edge_step tcp_read cap e s)"
proof (cases e)
  case Ed_Open
  assume "pieces_ok s"
  with Ed_Open show ?thesis by (auto simp: edge_step_def pieces_ok_def open_flow_fields conn_new_def)
next
  case (Ed_End i)
  assume "pieces_ok s"
  then have "pieces_ok (upd_conn i (\<lambda>c. c\<lparr>cn_ended := True\<rparr>) s)" by (rule pieces_ok_upd) simp
  with \<open>pieces_ok s\<close> Ed_End show ?thesis by (simp add: edge_step_def end_flow_def Let_def pieces_ok_def)
next
  case (Ed_Sent i ok)
  assume "pieces_ok s"
  then have "pieces_ok (upd_conn i (piece_sent ok) s)"
    by (rule pieces_ok_upd) (auto simp: piece_sent_def dest: in_set_tlD split: if_split_asm)
  with Ed_Sent show ?thesis by (simp add: edge_step_def)
next
  case (Ed_Write i ok)
  assume "pieces_ok s"
  then have "pieces_ok (write_next i ok s)"
    unfolding write_next_def by (rule pieces_ok_upd) (auto split: if_split_asm list.split_asm)
  with Ed_Write show ?thesis by (simp add: edge_step_def)
qed (auto simp: edge_step_def deliver_def split: option.split dest: tcp_read_pieces intro!: pieces_ok_upd)

lemma run_keeps:
  "keeps_output rd \<Longrightarrow> ac_ok cap s \<Longrightarrow> ac_ok cap (edge_run rd cap es s)"
  by (induction es arbitrary: s) (simp_all add: edge_run_def edge_step_ok)

text \<open>C11. Both edges stay well formed from their start, over any interleaving of accepts, reads, relayed
  pieces, writes, ends and deliveries: every registered flow points to the handler that has its
  number, no channel holds more than its capacity (2048 for TCP, 256 for QUIC), and no piece waiting to be relayed is
  larger than the read buffer; a piece of a TCP client is never empty and never above 1400 bytes.\<close>

theorem edge_well_formed:
  "ac_ok TCP_CHANNEL (edge_run tcp_read TCP_CHANNEL es (tcp_splitter_new dest)) \<and>
   pieces_ok (edge_run tcp_read TCP_CHANNEL es (tcp_splitter_new dest)) \<and>
   ac_ok QUIC_CHANNEL (edge_run quic_read QUIC_CHANNEL es (quic_acceptor_new dest))"
proof -
  have "pieces_ok (edge_run tcp_read TCP_CHANNEL es s)" if "pieces_ok s" for s :: tcp_splitter
    using that by (induction es arbitrary: s) (simp_all add: edge_run_def pieces_ok_step)
  moreover have "pieces_ok (tcp_splitter_new dest)" by (simp add: pieces_ok_def tcp_splitter_new_def)
  moreover have "ac_ok TCP_CHANNEL (edge_run tcp_read TCP_CHANNEL es (tcp_splitter_new dest))"
    by (rule run_keeps) (simp_all add: keeps_output_readers ac_ok_new)
  moreover have "ac_ok QUIC_CHANNEL (edge_run quic_read QUIC_CHANNEL es (quic_acceptor_new dest))"
    by (rule run_keeps) (simp_all add: keeps_output_readers ac_ok_new)
  ultimately show ?thesis by simp
qed

text \<open>C10. The client of a flow gets its deliveries in order: over any interleaving of the steps of all
  connections of an edge (accepts, reads, relayed pieces, writes, ends, deliveries), while the
  handler of the flow has not ended and no write of it failed, what has been and will be written to the client grows by a
  subsequence of the deliveries of its flow, by nothing of another flow, and by all of them while
  they fit the channel.\<close>

theorem client_stream_in_order:
  assumes "edge_kind rd cap" "ac_ok cap s" "flow_view f i q h s"
    and "Ed_End i \<notin> set es" "Ed_Write i False \<notin> set es" "fresh_for f es (ac_next s)"
  shows "\<exists>ds. stream (ac_conns (edge_run rd cap es s) ! i) = h @ ds \<and> subseq ds (deliveries f es) \<and>
    (length q + length (deliveries f es) \<le> cap \<longrightarrow> ds = deliveries f es)"
proof -
  have "keeps_output rd" "\<And>r c. cn_ended (rd r c) = cn_ended c"
    using assms(1) keeps_output_readers readers_keep_ended by (auto simp: edge_kind_def)
  from flow_view_run [OF this assms(3,2,4-6)] show ?thesis by (auto simp: flow_view_def)
qed

definition demo_edge :: tcp_splitter where
  "demo_edge = open_flow (open_flow (tcp_splitter_new ''lon''))"

lemma demo_edge_ok: "ac_ok TCP_CHANNEL demo_edge" "flow_view 1 0 [] [] demo_edge" "ac_next demo_edge = 3"
proof -
  show "ac_ok TCP_CHANNEL demo_edge" unfolding demo_edge_def by (intro ac_ok_open ac_ok_new)
  show "flow_view 1 0 [] [] demo_edge" "ac_next demo_edge = 3"
    by (auto simp: demo_edge_def flow_view_def open_flow_fields tcp_splitter_new_def conn_new_def stream_def
        less_Suc_eq)
qed

theorem client_stream_in_order_witness:
  "stream (ac_conns (edge_run tcp_read TCP_CHANNEL
     [Ed_Deliver 1 [7], Ed_Deliver 2 [8], Ed_Open, Ed_Write 0 True, Ed_Deliver 1 [9]] demo_edge) ! 0) = [[7], [9]]"
proof -
  have "edge_kind tcp_read TCP_CHANNEL" by (simp add: edge_kind_def)
  moreover have "fresh_for 1 [Ed_Deliver 1 [7], Ed_Deliver 2 [8], Ed_Open, Ed_Write 0 True, Ed_Deliver 1 [9]]
    (ac_next demo_edge)"
    by (simp add: fresh_for_def demo_edge_ok)
  ultimately show ?thesis
    using client_stream_in_order [OF _ demo_edge_ok(1,2), of tcp_read
        "[Ed_Deliver 1 [7], Ed_Deliver 2 [8], Ed_Open, Ed_Write 0 True, Ed_Deliver 1 [9]]"]
    by (simp add: deliveries_def TCP_CHANNEL_def)
qed

text \<open>C33. A half-closed client loses the replies: when the read task of a connection sees the end of the
  client's stream, the handler ends and the flow is removed, so that from then on, whatever is
  delivered for the flow and although the write task may still write, nothing is added to what the
  client is written.\<close>

theorem half_closed_flow_loses_replies:
  assumes "edge_kind rd cap" "ac_ok cap s" "flow_view f i q h s"
    and "cn_reading (ac_conns s ! i)" "cn_todo (ac_conns s ! i) = []" "\<not> cn_ended (ac_conns s ! i)"
    and "fresh_for f es (ac_next s)"
  shows "prefix (stream (ac_conns (edge_run rd cap (Ed_Read i Read_End # Ed_End i # es) s) ! i)) h"
proof -
  let ?s = "edge_step rd cap (Ed_End i) (edge_step rd cap (Ed_Read i Read_End) s)"
  have rd: "keeps_output rd" "rd Read_End c = c\<lparr>cn_reading := False\<rparr>" if "c = ac_conns s ! i" for c
    using assms(1,4,5) that keeps_output_readers by (auto simp: edge_kind_def tcp_read_def quic_read_def)
  have i: "i < length (ac_conns s)" "cn_flow (ac_conns s ! i) = f" "stream (ac_conns s ! i) = h"
    using assms(3) by (simp_all add: flow_view_def)
  have ok: "ac_ok cap ?s" using rd(1) assms(2) by (intro edge_step_ok) simp_all
  have "closed_view f i h ?s"
    using i rd(2) assms(6)
    by (simp add: closed_view_def edge_step_def end_flow_def Let_def upd_conn_nth stream_def)
  moreover have "ac_next ?s = ac_next s" by (simp add: ac_next_step)
  ultimately have "closed_view f i h (edge_run rd cap es ?s)"
    using closed_view_run [OF rd(1) _ ok] assms(7) by simp
  then show ?thesis by (simp add: closed_view_def)
qed

theorem half_closed_flow_loses_replies_witness:
  "prefix (stream (ac_conns (edge_run tcp_read TCP_CHANNEL
     [Ed_Read 0 Read_End, Ed_End 0, Ed_Deliver 1 [7], Ed_Write 0 True, Ed_Deliver 1 [9]] demo_edge) ! 0)) []"
  using half_closed_flow_loses_replies [OF _ demo_edge_ok(1,2), of tcp_read
      "[Ed_Deliver 1 [7], Ed_Write 0 True, Ed_Deliver 1 [9]]"]
  by (simp add: edge_kind_def fresh_for_def demo_edge_def open_flow_fields tcp_splitter_new_def conn_new_def)

end
