(* ===== verification/Node.thy ===== *)
theory Node
  imports Config Edge_Flows
begin

text \<open>
  A whole node, \<open>src/main.rs\<close>: what \<open>run\<close> builds from the configuration, and the tasks it spawns.
  The state holds the forwarder (with the prober and the matrix it shares), the two edges, the map of
  peers and the buffer of the receive loop, the queue between the receive loop and the
  forwarder, and the probe loops.  Every turn of every task is a step, in any order.
  The calls to the system that \<open>run\<close> makes on the way are in \<open>Startup\<close>; the accept loops of the edges,
  here one step per accepted stream, are in \<open>Edge_Listen\<close>.
\<close>

section \<open>Construction\<close>

definition fec_config_of :: "relay_config \<Rightarrow> fec_config" where
  "fec_config_of r = shards_cfg
     (case rc_fec_data_shards r of None \<Rightarrow> 10 | Some n \<Rightarrow> unat n)
     (case rc_fec_parity_shards r of None \<Rightarrow> 4 | Some n \<Rightarrow> unat n)"

record node =
  nd_fw :: forwarder
  nd_peers :: "(sock_addr, node_name \<times> tunnel_crypto) dmap"
  nd_buf :: bytes
  nd_inbox :: "(node_name \<times> received_packet) list"
  nd_probes :: "(node_name \<times> nat) list"
  nd_probe_ms :: u64
  nd_tcp :: tcp_splitter
  nd_quic :: quic_acceptor

datatype build_error = Build_Config config_error | Build_Panic panic

definition add_peer :: "base64_lib \<Rightarrow> peer_config \<Rightarrow> node \<Rightarrow> build_error + node" where
  \<comment> \<open>one turn of the loop over the peers: a tunnel, an entry of the peer map, a probe loop\<close>
  "add_peer b64 peer nd =
     rbind (map_sum Build_Config id (decode_key b64 peer)) (\<lambda>key.
     rbind (map_sum Build_Panic id (add_tunnel (pc_node_id peer) (tunnel_new (pc_addr peer) key) (nd_fw nd))) (\<lambda>fw.
     Inr (nd\<lparr>nd_fw := fw,
            nd_peers := dm_insert (pc_addr peer) (pc_node_id peer, crypto_new key) (nd_peers nd),
            nd_probes := nd_probes nd @ [(pc_node_id peer, length (fw_arena (nd_fw nd)))]\<rparr>)))"

fun add_peers :: "base64_lib \<Rightarrow> peer_config list \<Rightarrow> node \<Rightarrow> build_error + node" where
  "add_peers b64 [] nd = Inr nd"
| "add_peers b64 (peer # peers) nd = rbind (add_peer b64 peer nd) (add_peers b64 peers)"

definition node_base :: "config \<Rightarrow> node" where
  \<comment> \<open>what is built before the loop over the peers, and the edges\<close>
  "node_base c =
     (let n = cfg_node_id c; dest = rc_default_dest (cfg_relay c)
      in \<lparr>nd_fw = forwarder_new n n (prober_new n matrix_new) (fec_config_of (cfg_relay c)),
          nd_peers = [], nd_buf = replicate MAX_PACKET 0, nd_inbox = [], nd_probes = [],
          nd_probe_ms = mc_probe_interval_ms (cfg_mesh c),
          nd_tcp = tcp_splitter_new dest, nd_quic = quic_acceptor_new dest\<rparr>)"

definition node_with_tls :: "node \<Rightarrow> node" where
  "node_with_tls nd = nd\<lparr>nd_tcp := with_tls (nd_tcp nd)\<rparr>"

definition node_new :: "base64_lib \<Rightarrow> config \<Rightarrow> build_error + node" where
  "node_new b64 c =
     rbind (add_peers b64 (cfg_peers c) (node_base c)) (\<lambda>nd.
     Inr (case (lc_tls_cert_path (cfg_listen c), lc_tls_key_path (cfg_listen c)) of
            (Some _, Some _) \<Rightarrow> node_with_tls nd
          | _ \<Rightarrow> nd))"

text \<open>The turn of the loop, once the key is decoded: it fails only when the buffers of a new sender are too large.\<close>

definition peer_added :: "peer_config \<Rightarrow> bytes \<Rightarrow> node \<Rightarrow> node" where
  "peer_added peer key nd =
     nd\<lparr>nd_fw := tunnel_added (pc_node_id peer) (tunnel_new (pc_addr peer) key) (nd_fw nd),
        nd_peers := dm_insert (pc_addr peer) (pc_node_id peer, crypto_new key) (nd_peers nd),
        nd_probes := nd_probes nd @ [(pc_node_id peer, length (fw_arena (nd_fw nd)))]\<rparr>"

lemma add_peer_eq:
  "decode_key b64 peer = Inr key \<Longrightarrow> add_peer b64 peer nd =
     (if dm_get (fw_senders (nd_fw nd)) (pc_node_id peer) = None \<and> \<not> sender_fits (fw_fec_config (nd_fw nd))
      then Inl (Build_Panic Capacity_Panic) else Inr (peer_added peer key nd))"
  by (simp add: add_peer_def add_tunnel_eq peer_added_def)

lemma add_peer_InrE:
  assumes "add_peer b64 peer nd = Inr nd'"
  obtains key where "decode_key b64 peer = Inr key" "nd' = peer_added peer key nd"
proof (cases "decode_key b64 peer")
  case (Inl e)
  then show thesis using assms by (simp add: add_peer_def)
next
  case (Inr key)
  then show thesis using assms that by (simp add: add_peer_eq split: if_splits)
qed

lemma peer_added_config [simp]: "fw_fec_config (nd_fw (peer_added peer key nd)) = fw_fec_config (nd_fw nd)"
  by (simp add: peer_added_def tunnel_added_def)

lemma add_peers_total:
  "\<forall>peer \<in> set peers. \<exists>key. decode_key b64 peer = Inr key \<Longrightarrow> sender_fits (fw_fec_config (nd_fw nd)) \<Longrightarrow>
   \<exists>nd'. add_peers b64 peers nd = Inr nd'"
proof (induction peers arbitrary: nd)
  case (Cons peer peers)
  then obtain key where "decode_key b64 peer = Inr key" by auto
  with Cons show ?case by (simp add: add_peer_eq)
qed simp

lemma add_peers_too_big:
  assumes "peers \<noteq> []" "\<forall>peer \<in> set peers. \<exists>key. decode_key b64 peer = Inr key"
    and "fw_senders (nd_fw nd) = []" "\<not> sender_fits (fw_fec_config (nd_fw nd))"
  shows "add_peers b64 peers nd = Inl (Build_Panic Capacity_Panic)"
proof -
  obtain peer ps where peers: "peers = peer # ps" using assms(1) by (cases peers) auto
  then obtain key where "decode_key b64 peer = Inr key" using assms(2) by auto
  with assms(3,4) show ?thesis by (simp add: peers add_peer_eq dm_get_def)
qed

section \<open>The tasks\<close>

definition INBOX_SIZE :: nat where "INBOX_SIZE = 8192"
definition QUIC_FLOWS :: u32 where "QUIC_FLOWS = 1000000"

definition receive_turn :: "env \<Rightarrow> recv_event \<Rightarrow> node \<Rightarrow> node outcome" where
  \<comment> \<open>a turn of \<open>receive_loop_multi\<close>, which waits while its channel is full\<close>
  "receive_turn env e nd =
     (if INBOX_SIZE \<le> length (nd_inbox nd) then Inr nd
      else case e of
             Recv_Error \<Rightarrow> Inr nd
           | Recv_Dgram dgram src \<Rightarrow>
               rbind (recv_multi (env_aead env) (nd_peers nd) dgram src (nd_buf nd)) (\<lambda>(res, buf).
                 let nd = nd\<lparr>nd_buf := buf\<rparr>
                 in case res of
                      Recv_Packet pid pkt \<Rightarrow> Inr (nd\<lparr>nd_inbox := nd_inbox nd @ [(pid, pkt)]\<rparr>)
                    | _ \<Rightarrow> Inr nd))"

definition dispatch :: "local_delivery \<Rightarrow> node \<Rightarrow> node" where
  "dispatch d nd =
     (if ld_flow_id d < QUIC_FLOWS
      then nd\<lparr>nd_tcp := tcp_deliver (ld_flow_id d) (ld_data d) (nd_tcp nd)\<rparr>
      else nd\<lparr>nd_quic := quic_deliver (ld_flow_id d) (ld_data d) (nd_quic nd)\<rparr>)"

definition dispatch_turn :: "node \<Rightarrow> node" where
  "dispatch_turn nd =
     (case fw_local (nd_fw nd) of
        [] \<Rightarrow> nd
      | d # ds \<Rightarrow> dispatch d (nd\<lparr>nd_fw := (nd_fw nd)\<lparr>fw_local := ds\<rparr>\<rparr>))"

definition fw_turn :: "env \<Rightarrow> fw_event \<Rightarrow> node \<Rightarrow> node run" where
  "fw_turn env e nd = obind (fw_step env e (nd_fw nd)) (\<lambda>fw. Some (Inr (nd\<lparr>nd_fw := fw\<rparr>)))"

datatype node_event =
    Nd_Receive recv_event
  | Nd_Forward instant
  | Nd_Flush instant
  | Nd_Task nat
  | Nd_Probe instant nat
  | Nd_Dispatch
  | Nd_Tcp_Accept bool
  | Nd_Tcp_Read nat read_result
  | Nd_Tcp_Send nat
  | Nd_Tcp_Write nat bool
  | Nd_Tcp_End nat
  | Nd_Quic_Accept
  | Nd_Quic_Read nat read_result
  | Nd_Quic_Send nat
  | Nd_Quic_Write nat bool
  | Nd_Quic_End nat

definition node_step :: "env \<Rightarrow> node_event \<Rightarrow> node \<Rightarrow> node run" where
  "node_step env e nd =
     (case e of
        Nd_Receive ev \<Rightarrow> Some (receive_turn env ev nd)
      | Nd_Forward now \<Rightarrow>
          (case nd_inbox nd of
             [] \<Rightarrow> Some (Inr nd)
           | (src, pkt) # rest \<Rightarrow> fw_turn env (Ev_Packet now src pkt) (nd\<lparr>nd_inbox := rest\<rparr>))
      | Nd_Flush now \<Rightarrow> fw_turn env (Ev_Flush now) nd
      | Nd_Task j \<Rightarrow> fw_turn env (Ev_Task j) nd
      | Nd_Probe now k \<Rightarrow>
          if k < length (nd_probes nd)
          then if nd_probe_ms nd = 0 then Some (Inl zero_period)
            else (case nd_probes nd ! k of (peer, i) \<Rightarrow> fw_turn env (Ev_Probe now peer i) nd)
          else Some (Inr nd)
      | Nd_Dispatch \<Rightarrow> Some (Inr (dispatch_turn nd))
      | Nd_Tcp_Accept tls_ok \<Rightarrow> Some (Inr (nd\<lparr>nd_tcp := tcp_accept tls_ok (nd_tcp nd)\<rparr>))
      | Nd_Tcp_Read i r \<Rightarrow> Some (Inr (nd\<lparr>nd_tcp := upd_conn i (tcp_read r) (nd_tcp nd)\<rparr>))
      | Nd_Tcp_Send i \<Rightarrow> obind (send_next env i (nd_tcp nd, nd_fw nd)) (\<lambda>(s, fw). Some (Inr (nd\<lparr>nd_tcp := s, nd_fw := fw\<rparr>)))
      | Nd_Tcp_Write i ok \<Rightarrow> Some (Inr (nd\<lparr>nd_tcp := write_next i ok (nd_tcp nd)\<rparr>))
      | Nd_Tcp_End i \<Rightarrow> Some (Inr (nd\<lparr>nd_tcp := end_flow i (nd_tcp nd)\<rparr>))
      | Nd_Quic_Accept \<Rightarrow> Some (Inr (nd\<lparr>nd_quic := open_flow (nd_quic nd)\<rparr>))
      | Nd_Quic_Read i r \<Rightarrow> Some (Inr (nd\<lparr>nd_quic := upd_conn i (quic_read r) (nd_quic nd)\<rparr>))
      | Nd_Quic_Send i \<Rightarrow> obind (send_next env i (nd_quic nd, nd_fw nd)) (\<lambda>(s, fw). Some (Inr (nd\<lparr>nd_quic := s, nd_fw := fw\<rparr>)))
      | Nd_Quic_Write i ok \<Rightarrow> Some (Inr (nd\<lparr>nd_quic := write_next i ok (nd_quic nd)\<rparr>))
      | Nd_Quic_End i \<Rightarrow> Some (Inr (nd\<lparr>nd_quic := end_flow i (nd_quic nd)\<rparr>)))"

end
