(* ===== verification/Node_Safe.thy ===== *)
theory Node_Safe
  imports Node
begin

text \<open>
  The invariant of a whole node and its preservation by every step of every task, from the node
  that \<open>node_new\<close> builds.  The steps of the forwarder come from \<open>Forwarder_Safe\<close>, those of the edges
  from \<open>Edge_Correct\<close>.
\<close>

section \<open>The arena of tunnels keeps its length\<close>

lemma tunnel_send_arena:
  "tunnel_send env i ty x fw = Inr (ok, fw') \<Longrightarrow> length (fw_arena fw') = length (fw_arena fw)"
  by (auto simp: tunnel_send_def Let_def rbind_eq_Inr_iff)

lemma forward_to_arena:
  "forward_to env dest x fw = Some (Inr (res, fw')) \<Longrightarrow> length (fw_arena fw') = length (fw_arena fw)"
  using tunnel_send_arena
  by (fastforce simp: forward_to_def obind_Some_Inr Let_def split: option.splits prod.splits)

lemma route_data_arena:
  "route_data env src x fw = Some (Inr fw') \<Longrightarrow> length (fw_arena fw') = length (fw_arena fw)"
  using forward_to_arena
  by (auto simp: route_data_def obind_Some_Inr split: option.splits prod.splits if_splits)

lemma route_all_arena:
  "route_all env src xs fw = Some (Inr fw') \<Longrightarrow> length (fw_arena fw') = length (fw_arena fw)"
  by (induction xs arbitrary: fw) (auto simp: obind_Some_Inr dest!: route_data_arena)

lemma map_sum_snd_arena:
  "map_sum id snd (tunnel_send env i ty x fw) = Inr fw' \<Longrightarrow> length (fw_arena fw') = length (fw_arena fw)"
  by (cases "tunnel_send env i ty x fw") (auto dest: tunnel_send_arena)

lemma handle_inbound_arena:
  "handle_inbound env now src pkt fw = Some (Inr fw') \<Longrightarrow> length (fw_arena fw') = length (fw_arena fw)"
  using map_sum_snd_arena route_data_arena route_all_arena
  by (fastforce simp: handle_inbound_def obind_Some_Inr Let_def split: option.splits if_splits)

lemma flush_senders_arena:
  "flush_senders env ss fw = Inr fw' \<Longrightarrow> length (fw_arena fw') = length (fw_arena fw)"
  by (induction env ss fw rule: flush_senders.induct)
    (fastforce simp: rbind_eq_Inr_iff Let_def split: option.splits)+

lemma fw_step_arena:
  assumes "fw_step env e fw = Some (Inr fw')"
  shows "length (fw_arena fw') = length (fw_arena fw)"
proof (cases e)
  case (Ev_Packet now src pkt)
  then show ?thesis using assms handle_inbound_arena by (simp add: fw_step_def)
next
  case (Ev_Flush now)
  then show ?thesis
    using assms flush_senders_arena by (auto simp: fw_step_def flush_fec_def rbind_eq_Inr_iff)
next
  case (Ev_Send dest f x)
  then show ?thesis
    using assms forward_to_arena by (auto simp: fw_step_def send_to_node_def obind_Some_Inr)
next
  case (Ev_Task j)
  then show ?thesis
    using assms tunnel_send_arena
    by (fastforce simp: fw_step_def task_step_def rbind_eq_Inr_iff split: if_splits prod.splits list.splits)
next
  case (Ev_Probe now peer i)
  then show ?thesis
    using assms map_sum_snd_arena [of env i PACKET_PING] by (fastforce simp: fw_step_def split: prod.splits)
qed

section \<open>The invariant\<close>

definition node_ok :: "nat \<Rightarrow> nat \<Rightarrow> node \<Rightarrow> bool" where
  "node_ok d p nd \<longleftrightarrow> fw_ok d p (nd_fw nd) \<and> ac_ok TCP_CHANNEL (nd_tcp nd) \<and> ac_ok QUIC_CHANNEL (nd_quic nd) \<and>
     length (nd_buf nd) = MAX_PACKET \<and> length (nd_inbox nd) \<le> INBOX_SIZE \<and> nd_probe_ms nd \<noteq> 0 \<and>
     (\<forall>(src, pkt) \<in> set (nd_inbox nd). length (rp_payload pkt) \<le> MAX_PAYLOAD) \<and>
     (\<forall>(peer, i) \<in> set (nd_probes nd). i < length (fw_arena (nd_fw nd)))"

definition node_event_ok :: "node_event \<Rightarrow> node \<Rightarrow> bool" where
  \<comment> \<open>asked of an event: a shard taken from the queue names an acceptable code, and a pong keeps the
    sum of the measured times within a \<open>Duration\<close>\<close>
  "node_event_ok e nd =
     (case e of
        Nd_Forward now \<Rightarrow>
          (case nd_inbox nd of
             [] \<Rightarrow> True
           | (src, pkt) # _ \<Rightarrow>
               (rp_type pkt = PACKET_DATA \<or> rp_type pkt = PACKET_PARITY \<longrightarrow> sane_header (rp_payload pkt)) \<and>
               (rp_type pkt = PACKET_PONG \<longrightarrow>
                  matrix_fits (pr_matrix (handle_pong now src (rp_payload pkt) (fw_prober (nd_fw nd))))))
      | _ \<Rightarrow> True)"

inductive node_reachable :: "env \<Rightarrow> node \<Rightarrow> node \<Rightarrow> bool" for env nd0 where
  start: "node_reachable env nd0 nd0"
| step: "node_reachable env nd0 nd \<Longrightarrow> node_event_ok e nd \<Longrightarrow> node_step env e nd = Some (Inr nd') \<Longrightarrow>
    node_reachable env nd0 nd'"

lemma fw_turn_total:
  assumes env: "env_ok d p env" and ok: "node_ok d p nd" and ev: "event_ok e (nd_fw nd)"
  shows "\<exists>nd'. fw_turn env e nd = Some (Inr nd') \<and> node_ok d p nd'"
proof -
  have "fw_ok d p (nd_fw nd)" using ok by (simp add: node_ok_def)
  from fw_step_total [OF env this ev] obtain fw' where fw': "fw_step env e (nd_fw nd) = Some (Inr fw')" "fw_ok d p fw'"
    by blast
  then have "node_ok d p (nd\<lparr>nd_fw := fw'\<rparr>)" using ok fw_step_arena [OF fw'(1)] by (simp add: node_ok_def)
  then show ?thesis using fw'(1) by (simp add: fw_turn_def)
qed

lemma receive_turn_total:
  assumes lib: "aead_lawful (env_aead env)" and ok: "node_ok d p nd"
  shows "\<exists>nd'. receive_turn env e nd = Inr nd' \<and> node_ok d p nd'"
proof (cases "INBOX_SIZE \<le> length (nd_inbox nd)")
  case True
  then show ?thesis using ok by (simp add: receive_turn_def)
next
  case room: False
  show ?thesis
  proof (cases e)
    case Recv_Error
    then show ?thesis using ok room by (simp add: receive_turn_def)
  next
    case (Recv_Dgram dgram src)
    have buf: "length (nd_buf nd) = MAX_PACKET" using ok by (simp add: node_ok_def)
    obtain res buf' where r: "recv_multi (env_aead env) (nd_peers nd) dgram src (nd_buf nd) = Inr (res, buf')"
      "length buf' = MAX_PACKET"
      using recv_multi_no_panic [OF buf] by blast
    show ?thesis
    proof (cases "\<exists>pid pkt. res = Recv_Packet pid pkt")
      case True
      then obtain pid pkt where res: "res = Recv_Packet pid pkt" by blast
      obtain c ct where "11 + length ct \<le> MAX_PACKET"
        and "decrypt (env_aead env) c (rp_seq pkt) ct = Inr (Inr (rp_payload pkt))"
        using recv_multi_PacketE [OF r(1) [unfolded res] buf] by metis
      then have "length (rp_payload pkt) \<le> MAX_PAYLOAD"
        using encrypt_length [OF lib decrypt_authentic [OF lib]] by (fastforce simp: MAX_PACKET_eq MAX_PAYLOAD_def)
      then show ?thesis using ok r room by (auto simp: receive_turn_def Recv_Dgram res node_ok_def)
    next
      case False
      then show ?thesis
        using ok r room by (cases res) (auto simp: receive_turn_def Recv_Dgram node_ok_def)
    qed
  qed
qed

lemma dispatch_turn_ok:
  assumes "node_ok d p nd"
  shows "node_ok d p (dispatch_turn nd)"
  using assms fw_ok_local [of d p "nd_fw nd"] tcp_edge.deliver_ok quic_edge.deliver_ok
  by (auto simp: dispatch_turn_def dispatch_def node_ok_def split: list.splits)

lemma send_next_total:
  assumes env: "env_ok d p env" and fw: "fw_ok d p fw" and s: "ac_ok cap s"
  shows "\<exists>s' fw'. send_next env i (s, fw) = Some (Inr (s', fw')) \<and> ac_ok cap s' \<and> fw_ok d p fw' \<and>
    length (fw_arena fw') = length (fw_arena fw)"
proof (cases "i < length (ac_conns s) \<and> cn_todo (ac_conns s ! i) \<noteq> []")
  case False
  then show ?thesis using fw s by (auto simp: send_next_def)
next
  case True
  then obtain x rest where x: "i < length (ac_conns s)" "cn_todo (ac_conns s ! i) = x # rest"
    by (auto simp: neq_Nil_conv)
  then have "length x \<le> READ_BUF" using ac_okD(3) [OF s x(1)] by (simp add: conn_ok_def)
  then have small: "small (encode_relay_header f dest x)" for f dest
    by (simp add: small_def encode_relay_header_def Let_def READ_BUF_def)
  obtain res fw' where f: "send_to_node env (ac_dest s) (cn_flow (ac_conns s ! i)) x fw = Some (Inr (res, fw'))"
    "fw_ok d p fw'"
    using forward_to_total [OF env fw small] unfolding send_to_node_def by metis
  moreover have "length (fw_arena fw') = length (fw_arena fw)"
    using f(1) forward_to_arena unfolding send_to_node_def by blast
  moreover have "ac_ok cap (upd_conn i (piece_sent (res = Inr ())) s)"
    by (rule ac_ok_upd [OF s]) (simp_all add: conn_ok_piece_sent)
  ultimately show ?thesis using send_next_step [OF x] by simp
qed

lemma node_step_total:
  assumes env: "env_ok d p env" and ok: "node_ok d p nd" and ev: "node_event_ok e nd"
  shows "\<exists>nd'. node_step env e nd = Some (Inr nd') \<and> node_ok d p nd'"
proof (cases e)
  case (Nd_Receive x)
  have "aead_lawful (env_aead env)" using env by (simp add: env_ok_def)
  from receive_turn_total [OF this ok] Nd_Receive show ?thesis by (simp add: node_step_def)
next
  case (Nd_Forward now)
  show ?thesis
  proof (cases "nd_inbox nd")
    case Nil
    then show ?thesis using Nd_Forward ok by (simp add: node_step_def)
  next
    case (Cons x rest)
    obtain src pkt where x: "x = (src, pkt)" by fastforce
    have ok': "node_ok d p (nd\<lparr>nd_inbox := rest\<rparr>)" using ok Cons by (simp add: node_ok_def)
    have "length (rp_payload pkt) \<le> MAX_PAYLOAD" using ok Cons x by (simp add: node_ok_def)
    then have "small (rp_payload pkt)" by (simp add: small_def MAX_PAYLOAD_def)
    then have "event_ok (Ev_Packet now src pkt) (nd_fw (nd\<lparr>nd_inbox := rest\<rparr>))"
      using ev Nd_Forward Cons x by (simp add: node_event_ok_def event_ok_def)
    from fw_turn_total [OF env ok' this] show ?thesis using Nd_Forward Cons x by (simp add: node_step_def)
  qed
next
  case (Nd_Probe now k)
  show ?thesis
  proof (cases "k < length (nd_probes nd)")
    case True
    obtain peer i where x: "nd_probes nd ! k = (peer, i)" by fastforce
    have "nd_probes nd ! k \<in> set (nd_probes nd)" using True by simp
    then have "event_ok (Ev_Probe now peer i) (nd_fw nd)" using ok x by (auto simp: node_ok_def event_ok_def)
    moreover have "nd_probe_ms nd \<noteq> 0" using ok by (simp add: node_ok_def)
    ultimately show ?thesis using fw_turn_total [OF env ok] Nd_Probe True x by (simp add: node_step_def)
  next
    case False
    then show ?thesis using Nd_Probe ok by (simp add: node_step_def)
  qed
next
  case (Nd_Tcp_Send i)
  then show ?thesis
    using ok send_next_total [OF env, of "nd_fw nd" TCP_CHANNEL "nd_tcp nd" i]
    by (fastforce simp: node_step_def node_ok_def)
next
  case (Nd_Quic_Send i)
  then show ?thesis
    using ok send_next_total [OF env, of "nd_fw nd" QUIC_CHANNEL "nd_quic nd" i]
    by (fastforce simp: node_step_def node_ok_def)
next
  case (Nd_Flush now)
  then show ?thesis using fw_turn_total [OF env ok] by (simp add: node_step_def event_ok_def)
next
  case (Nd_Task j)
  then show ?thesis using fw_turn_total [OF env ok] by (simp add: node_step_def event_ok_def)
next
  case Nd_Dispatch
  then show ?thesis using dispatch_turn_ok [OF ok] by (simp add: node_step_def)
qed (use ok ac_ok_open ac_ok_end ac_ok_write tcp_read_ok quic_read_ok in
  \<open>auto simp: node_step_def node_ok_def tcp_accept_def intro!: ac_ok_upd\<close>)

section \<open>The node built from a configuration\<close>

lemma add_peers_ok:
  assumes d: "0 < d" "d \<le> 256"
  shows "node_ok d p nd \<Longrightarrow> \<forall>peer \<in> set peers. \<exists>key. decode_key b64 peer = Inr key \<Longrightarrow>
    \<exists>nd'. add_peers b64 peers nd = Inr nd' \<and> node_ok d p nd' \<and> nd_tcp nd' = nd_tcp nd \<and>
      length (fw_arena (nd_fw nd')) = length (fw_arena (nd_fw nd)) + length peers \<and>
      fw_node_id (nd_fw nd') = fw_node_id (nd_fw nd)"
proof (induction peers arbitrary: nd)
  case Nil
  then show ?case by simp
next
  case (Cons peer peers)
  obtain key where key: "decode_key b64 peer = Inr key" using Cons.prems(2) by auto
  then have len: "length key = 32" by (simp add: decode_key_Inr_iff)
  let ?t = "tunnel_new (pc_addr peer) key"
  have "tunnel_ok ?t" using len by (simp add: tunnel_ok_def tunnel_new_def crypto_new_def)
  then have fw: "fw_ok d p (tunnel_added (pc_node_id peer) ?t (nd_fw nd))"
    using Cons.prems(1) d(1) by (intro fw_ok_add_tunnel) (simp_all add: node_ok_def)
  have "fw_fec_config (nd_fw nd) = shards_cfg d p" using Cons.prems(1) by (simp add: node_ok_def fw_ok_def)
  then have added: "add_peer b64 peer nd = Inr (peer_added peer key nd)" using key d(2) by (simp add: add_peer_eq)
  obtain nd1 where add: "add_peer b64 peer nd = Inr nd1" and nd1: "node_ok d p nd1" "nd_tcp nd1 = nd_tcp nd"
    "length (fw_arena (nd_fw nd1)) = Suc (length (fw_arena (nd_fw nd)))"
    "fw_node_id (nd_fw nd1) = fw_node_id (nd_fw nd)"
    using added Cons.prems(1) fw by (fastforce simp: peer_added_def node_ok_def tunnel_added_def less_Suc_eq)
  from Cons.IH [OF nd1(1)] Cons.prems(2) nd1(2-4) add show ?case by fastforce
qed

lemma node_new_ok:
  assumes c: "config_ok b64 c" and cfg: "fec_config_of (cfg_relay c) = shards_cfg d p" and d: "0 < d" "d \<le> 256"
    and ms: "mc_probe_interval_ms (cfg_mesh c) \<noteq> 0"
  obtains nd where "node_new b64 c = Inr nd" and "node_ok d p nd"
    and "length (fw_arena (nd_fw nd)) = length (cfg_peers c)" and "fw_node_id (nd_fw nd) = cfg_node_id c"
proof -
  let ?n = "cfg_node_id c" and ?dest = "rc_default_dest (cfg_relay c)"
  define nd0 where "nd0 = node_base c"
  have "fw_ok d p (nd_fw nd0)"
    using fresh_forwarder_ok [of d p ?n] cfg by (simp add: nd0_def node_base_def fresh_forwarder_def Let_def)
  then have ok: "node_ok d p nd0" using ac_ok_new ms by (simp add: node_ok_def nd0_def node_base_def Let_def)
  have len: "length (fw_arena (nd_fw nd0)) = 0" "fw_node_id (nd_fw nd0) = ?n" "nd_tcp nd0 = tcp_splitter_new ?dest"
    by (simp_all add: nd0_def node_base_def forwarder_new_def Let_def)
  have "\<forall>peer \<in> set (cfg_peers c). \<exists>key. decode_key b64 peer = Inr key"
    using c by (auto simp: config_ok_def decode_key_Inr_iff)
  from add_peers_ok [OF d ok this] obtain nd where nd: "add_peers b64 (cfg_peers c) nd0 = Inr nd"
    "node_ok d p nd" "nd_tcp nd = tcp_splitter_new ?dest" "length (fw_arena (nd_fw nd)) = length (cfg_peers c)"
    "fw_node_id (nd_fw nd) = ?n"
    unfolding len by auto
  have tls: "node_ok d p (node_with_tls nd)"
    using nd(2,3) by (simp add: node_ok_def node_with_tls_def with_tls_def ac_ok_def)
  let ?nd = "case (lc_tls_cert_path (cfg_listen c), lc_tls_key_path (cfg_listen c)) of
      (Some _, Some _) \<Rightarrow> node_with_tls nd | _ \<Rightarrow> nd"
  have "node_new b64 c = Inr ?nd"
    using nd(1) by (simp add: node_new_def nd0_def)
  then show thesis by (rule that) (use nd tls in \<open>auto simp: node_with_tls_def split: option.splits\<close>)
qed

lemma node_reachable_ok:
  "node_reachable env nd0 nd \<Longrightarrow> env_ok d p env \<Longrightarrow> node_ok d p nd0 \<Longrightarrow> node_ok d p nd"
proof (induction rule: node_reachable.induct)
  case start
  then show ?case by simp
next
  case (step nd e nd')
  then show ?case using node_step_total [OF step.prems(1) _ step.hyps(2)] by fastforce
qed

section \<open>Properties\<close>

text \<open>C6. A node started from a valid configuration never panics and never hangs in a step: \<open>node_new\<close>
  succeeds, and in every state its tasks can reach, by receiving any datagrams from anybody,
  handling the queue, ticking its timers, probing, accepting and serving TCP and QUIC clients and
  dispatching deliveries, in any order, the next turn of any task completes. It is asked that the
  Reed-Solomon code of the configured size exists, that the probe interval is not zero, that an authenticated shard names an acceptable
  code and that the measured times sum to a \<open>Duration\<close>.\<close>

theorem node_safe:
  assumes "env_ok d p env" "config_ok b64 c" "fec_config_of (cfg_relay c) = shards_cfg d p"
    and "mc_probe_interval_ms (cfg_mesh c) \<noteq> 0"
  shows "\<exists>nd0. node_new b64 c = Inr nd0 \<and>
    (\<forall>nd e. node_reachable env nd0 nd \<longrightarrow> node_event_ok e nd \<longrightarrow>
      (\<exists>nd'. node_step env e nd = Some (Inr nd') \<and> node_ok d p nd' \<and> node_reachable env nd0 nd'))"
proof -
  have d: "0 < d" "d \<le> 256" using assms(1) by (simp_all add: env_ok_def rs_lawful_def)
  then obtain nd0 where nd0: "node_new b64 c = Inr nd0" "node_ok d p nd0"
    using node_new_ok [OF assms(2,3) d assms(4)] by metis
  have "\<exists>nd'. node_step env e nd = Some (Inr nd') \<and> node_ok d p nd' \<and> node_reachable env nd0 nd'"
    if "node_reachable env nd0 nd" "node_event_ok e nd" for nd e
    using node_step_total [OF assms(1) node_reachable_ok [OF that(1) assms(1) nd0(2)] that(2)]
      node_reachable.step [OF that] by blast
  with nd0(1) show ?thesis by blast
qed

lemma demo_fec: "fec_config_of (cfg_relay demo_config) = shards_cfg 2 1"
  by (simp add: fec_config_of_def demo_config_def)

lemma demo_probe_ms: "mc_probe_interval_ms (cfg_mesh demo_config) \<noteq> 0"
  by (simp add: demo_config_def)

theorem node_safe_witness:
  "\<exists>nd0 nd. node_new demo_b64 demo_config = Inr nd0 \<and>
     node_step demo_env (Nd_Receive (Recv_Dgram [1, 2, 3] (9, 9))) nd0 = Some (Inr nd) \<and> node_ok 2 1 nd"
proof -
  obtain nd0 where nd0: "node_new demo_b64 demo_config = Inr nd0"
    and run: "\<And>nd e. node_reachable demo_env nd0 nd \<Longrightarrow> node_event_ok e nd \<Longrightarrow>
      \<exists>nd'. node_step demo_env e nd = Some (Inr nd') \<and> node_ok 2 1 nd' \<and> node_reachable demo_env nd0 nd'"
    using node_safe [OF demo_env_ok demo_config_ok demo_fec demo_probe_ms] by blast
  have "node_event_ok (Nd_Receive (Recv_Dgram [1, 2, 3] (9, 9))) nd0" by (simp add: node_event_ok_def)
  with run [OF node_reachable.start] nd0 show ?thesis by blast
qed

end
