(* ===== verification/End_To_End.thy ===== *)
theory End_To_End
  imports Edge_Flows Fec_Stream
begin

text \<open>
  Two nodes: what the data given to the forwarder of one node becomes at the forwarder of the
  other, through the block codec, the spawned send task, the tunnel, the network and the receive
  loop.  Each stage is one lemma over runs of \<open>fw_step\<close>; the properties compose them.
\<close>

section \<open>Sending a burst\<close>

definition send_events :: "node_name \<Rightarrow> (u32 \<times> bytes) list \<Rightarrow> fw_event list" where
  "send_events dest ps = map (\<lambda>(f, x). Ev_Send dest f x) ps"

definition relay_payloads :: "node_name \<Rightarrow> (u32 \<times> bytes) list \<Rightarrow> bytes list" where
  "relay_payloads dest ps = map (\<lambda>(f, x). encode_relay_header f dest x) ps"

lemma fw_router_upd [simp]:
  "fw_router (fw\<lparr>fw_senders := x\<rparr>) = fw_router fw" "fw_router (fw\<lparr>fw_tasks := y\<rparr>) = fw_router fw"
  by (simp_all add: fw_router_def)

lemma dm_insert_same: "dm_get m k = Some v \<Longrightarrow> dm_insert k v m = m"
  by (simp add: dm_get_def dm_insert_def update_triv)

lemma dm_insert_insert: "dm_insert k v (dm_insert k u m) = dm_insert k v m"
  by (simp add: dm_insert_def update_last)

lemma burst_run:
  "next_hop (env_pop env) (fw_router fw) dest = Some (Inr (Some r)) \<Longrightarrow>
   dm_get (fw_tunnels fw) (next_hop_node r) = Some i \<Longrightarrow> dm_get (fw_senders fw) (next_hop_node r) = Some s \<Longrightarrow>
   submit_all (env_rs env) (relay_payloads dest ps) s = Inr (outs, s') \<Longrightarrow>
   fw_run env (send_events dest ps) fw = Some (Inr (fw\<lparr>
     fw_senders := dm_insert (next_hop_node r) s' (fw_senders fw),
     fw_tasks := fw_tasks fw @ map (Pair i) outs\<rparr>))"
proof (induction ps arbitrary: fw s outs)
  case Nil
  then show ?case by (simp add: send_events_def relay_payloads_def dm_insert_same)
next
  case (Cons a ps)
  obtain f x where a: "a = (f, x)" by fastforce
  from Cons.prems(4) obtain out s1 outs1
    where sub: "submit (env_rs env) (encode_relay_header f dest x) s = Inr (out, s1)"
      and rest: "submit_all (env_rs env) (relay_payloads dest ps) s1 = Inr (outs1, s')"
      and outs: "outs = (case out of None \<Rightarrow> outs1 | Some o' \<Rightarrow> o' # outs1)"
    by (auto simp: relay_payloads_def a rbind_eq_Inr_iff)
  define fw1 where "fw1 = fw\<lparr>fw_senders := dm_insert (next_hop_node r) s1 (fw_senders fw),
     fw_tasks := (case out of None \<Rightarrow> fw_tasks fw | Some o' \<Rightarrow> fw_tasks fw @ [(i, o')])\<rparr>"
  have "fw_step env (Ev_Send dest f x) fw = Some (Inr fw1)"
    using Cons.prems(1-3) sub
    by (cases out) (simp_all add: fw_step_def send_to_node_def forward_to_def Let_def fw1_def)
  moreover have "fw_run env (send_events dest ps) fw1 = Some (Inr (fw1\<lparr>
     fw_senders := dm_insert (next_hop_node r) s' (fw_senders fw1),
     fw_tasks := fw_tasks fw1 @ map (Pair i) outs1\<rparr>))"
    by (rule Cons.IH [OF _ _ _ rest]) (use Cons.prems in \<open>simp_all add: fw1_def fw_router_def\<close>)
  ultimately show ?case
    by (cases out) (simp_all add: send_events_def a fw1_def dm_insert_insert outs)
qed

section \<open>The send task\<close>

lemma task_run:
  "j < length (fw_tasks fw) \<Longrightarrow> fw_tasks fw ! j = (i, frames) \<Longrightarrow> i < length (fw_arena fw) \<Longrightarrow>
   send_many (env_aead env) (env_sock env) frames (fw_arena fw ! i) = Inr (fs, t') \<Longrightarrow>
   fw_run env (replicate (length frames) (Ev_Task j)) fw = Some (Inr (fw\<lparr>
     fw_arena := (fw_arena fw)[i := t'], fw_tasks := (fw_tasks fw)[j := (i, [])],
     fw_sent := fw_sent fw @ map (Pair (tun_peer_addr (fw_arena fw ! i))) fs\<rparr>))"
proof (induction frames arbitrary: fw fs)
  case Nil
  then have "(fw_tasks fw)[j := (i, [])] = fw_tasks fw" "(fw_arena fw)[i := t'] = fw_arena fw"
    by (metis list_update_id) (use Nil in auto)
  then show ?case using Nil by simp
next
  case (Cons a frames)
  obtain ty x where a: "a = (ty, x)" by fastforce
  let ?t = "fw_arena fw ! i"
  from Cons.prems(4) obtain f ok t1 fs1
    where s: "send (env_aead env) (env_sock env) ty x ?t = Inr (f, ok, t1)"
      and m: "send_many (env_aead env) (env_sock env) frames t1 = Inr (fs1, t')" and fs: "fs = f # fs1"
    by (auto simp: a rbind_eq_Inr_iff)
  have addr: "tun_peer_addr t1 = tun_peer_addr ?t"
    using s by (auto elim!: send_shape simp: next_seq_def fetch_add_def)
  define fw1 where "fw1 = fw\<lparr>fw_arena := (fw_arena fw)[i := t1],
     fw_sent := fw_sent fw @ [(tun_peer_addr ?t, f)], fw_tasks := (fw_tasks fw)[j := (i, frames)]\<rparr>"
  have "fw_step env (Ev_Task j) fw = Some (Inr fw1)"
    using Cons.prems s by (simp add: fw_step_def task_step_def a tunnel_send_def Let_def fw1_def)
  moreover have "fw_run env (replicate (length frames) (Ev_Task j)) fw1 = Some (Inr (fw1\<lparr>
     fw_arena := (fw_arena fw1)[i := t'], fw_tasks := (fw_tasks fw1)[j := (i, [])],
     fw_sent := fw_sent fw1 @ map (Pair (tun_peer_addr (fw_arena fw1 ! i))) fs1\<rparr>))"
    by (rule Cons.IH) (use Cons.prems m in \<open>simp_all add: fw1_def\<close>)
  ultimately show ?case using Cons.prems addr by (simp add: fs fw1_def)
qed

section \<open>The network and the receive loop\<close>

definition frame_for :: "aead_lib \<Rightarrow> tunnel_crypto \<Rightarrow> u64 \<Rightarrow> byte \<times> bytes \<Rightarrow> bytes \<Rightarrow> bool" where
  \<comment> \<open>the datagram \<open>f\<close> carries the typed payload under the sequence number\<close>
  "frame_for lib c seq tx f \<longleftrightarrow> (\<exists>ct. f = header_bytes (fst tx) seq (word_of_nat (length ct)) @ ct \<and>
     length ct = length (snd tx) + 16 \<and> decrypt lib c seq ct = Inr (Inr (snd tx)))"

lemma send_many_frames:
  assumes lib: "aead_lawful lib"
  shows "tun_crypto t = c \<Longrightarrow> length (cipher_key c) = 32 \<Longrightarrow> \<forall>(ty, x) \<in> set ps. length x < 2 ^ 15 \<Longrightarrow>
    \<exists>fs t'. send_many lib sock ps t = Inr (fs, t') \<and> length fs = length ps \<and>
      (\<forall>m < length ps. frame_for lib c (tun_tx_seq t + word_of_nat m) (ps ! m) (fs ! m))"
proof (induction ps arbitrary: t)
  case Nil
  then show ?case by simp
next
  case (Cons a ps)
  obtain ty x where a: "a = (ty, x)" by fastforce
  have key: "length (cipher_key (tun_crypto t)) = 32" using Cons.prems by simp
  have "length x < 2 ^ 32" using Cons.prems(3) by (simp add: a)
  from send_ok [OF lib key this] obtain ct ok where "decrypt lib c (tun_tx_seq t) ct = Inr (Inr x)"
    "length ct = length x + 16"
    and s: "send lib sock ty x t =
      Inr (header_bytes ty (tun_tx_seq t) (word_of_nat (length ct)) @ ct, ok, snd (next_seq t))"
    using Cons.prems(1) by metis
  then have f: "frame_for lib c (tun_tx_seq t) a (header_bytes ty (tun_tx_seq t) (word_of_nat (length ct)) @ ct)"
    unfolding frame_for_def a by auto
  have q: "tun_tx_seq (snd (next_seq t)) = tun_tx_seq t + 1" by (simp add: tx_seq.draw_step)
  have "\<exists>fs t'. send_many lib sock ps (snd (next_seq t)) = Inr (fs, t') \<and> length fs = length ps \<and>
      (\<forall>m < length ps. frame_for lib c (tun_tx_seq (snd (next_seq t)) + word_of_nat m) (ps ! m) (fs ! m))"
    using Cons.prems by (intro Cons.IH) simp_all
  then obtain fs t' where "send_many lib sock ps (snd (next_seq t)) = Inr (fs, t')" "length fs = length ps"
    "\<forall>m < length ps. frame_for lib c (tun_tx_seq t + 1 + word_of_nat m) (ps ! m) (fs ! m)"
    unfolding q by blast
  then show ?case
    using s f
    by (intro exI [of _ "(header_bytes ty (tun_tx_seq t) (word_of_nat (length ct)) @ ct) # fs"] exI [of _ t'])
      (auto simp: a nth_Cons add.assoc split: nat.split)
qed

lemma frame_accepted:
  assumes "frame_for lib c seq tx f" "dm_get peers src = Some (pid, c)" "length (snd tx) \<le> MAX_PAYLOAD"
  shows "accepted_packet lib peers (Recv_Dgram f src) =
    [(pid, \<lparr>rp_type = fst tx, rp_seq = seq, rp_payload = snd tx, rp_from = src\<rparr>)]"
proof -
  obtain ct where f: "f = header_bytes (fst tx) seq (word_of_nat (length ct)) @ ct @ []"
    and ct: "length ct = length (snd tx) + 16" "decrypt lib c seq ct = Inr (Inr (snd tx))"
    using assms(1) by (auto simp: frame_for_def)
  obtain buf where "recv_multi lib peers f src (replicate MAX_PACKET 0) =
      Inr (Recv_Packet pid \<lparr>rp_type = fst tx, rp_seq = seq, rp_payload = snd tx, rp_from = src\<rparr>, buf)"
    unfolding f
    by (rule recv_multi_frame [of "replicate MAX_PACKET 0" ct peers src pid c lib seq "snd tx" "fst tx" "[]"])
      (use assms(2,3) ct in \<open>simp_all add: MAX_PACKET_eq MAX_PAYLOAD_def\<close>)
  then show ?thesis by (simp add: accepted_packet_def)
qed

lemma frame_rejected:
  assumes "frame_for lib c seq tx f" "MAX_PAYLOAD < length (snd tx)" "length (snd tx) < 2 ^ 15"
  shows "accepted_packet lib peers (Recv_Dgram f src) = []"
proof -
  obtain ct where f: "f = header_bytes (fst tx) seq (word_of_nat (length ct)) @ ct"
    and ct: "length ct = length (snd tx) + 16"
    using assms(1) by (auto simp: frame_for_def)
  obtain buf where "recv_multi lib peers f src (replicate MAX_PACKET 0) = Inr (Recv_Truncated seq, buf)"
    unfolding f
    by (rule recv_multi_oversize [of "replicate MAX_PACKET 0" ct lib peers "fst tx" seq src])
      (use assms(2,3) ct(1) in \<open>simp_all add: MAX_PACKET_eq MAX_PAYLOAD_def\<close>)
  then show ?thesis by (simp add: accepted_packet_def)
qed

section \<open>The receiving forwarder\<close>

definition local_of :: "node_name \<Rightarrow> bytes \<Rightarrow> local_delivery list" where
  "local_of src payload =
     (case decode_relay_header payload of
        None \<Rightarrow> []
      | Some (f, _, x) \<Rightarrow> [\<lparr>ld_flow_id = f, ld_data = x, ld_source = src\<rparr>])"

definition addressed :: "node_name \<Rightarrow> bytes \<Rightarrow> bool" where
  "addressed n payload \<longleftrightarrow> (\<exists>f x. decode_relay_header payload = Some (f, n, x))"

lemma route_all_local:
  "fw_local_open fw \<Longrightarrow> \<forall>b \<in> set bs. addressed (fw_node_id fw) b \<Longrightarrow>
   route_all env src bs fw = Some (Inr (fw\<lparr>fw_local := fw_local fw @ concat (map (local_of src) bs)\<rparr>))"
proof (induction bs arbitrary: fw)
  case Nil
  then show ?case by simp
next
  case (Cons b bs)
  then obtain f x where "decode_relay_header b = Some (f, fw_node_id fw, x)" by (auto simp: addressed_def)
  with Cons show ?case by (simp add: route_data_def local_of_def)
qed

definition packet_events :: "node_name \<Rightarrow> (instant \<times> received_packet) list \<Rightarrow> fw_event list" where
  "packet_events src pkts = map (\<lambda>(now, pkt). Ev_Packet now src pkt) pkts"

definition delivered :: "bytes list option list \<Rightarrow> bytes list" where
  "delivered outs = concat (map (\<lambda>out. case out of None \<Rightarrow> [] | Some ps \<Rightarrow> ps) outs)"

lemma delivered_filter: "delivered outs = concat (map the (filter (\<lambda>x. x \<noteq> None) outs))"
  by (induction outs) (auto simp: delivered_def)

lemma inbound_run:
  "dm_get (fw_receivers fw) src = Some r \<Longrightarrow> fw_local_open fw \<Longrightarrow>
   \<forall>(now, pkt) \<in> set pkts. rp_type pkt = PACKET_DATA \<or> rp_type pkt = PACKET_PARITY \<Longrightarrow>
   receive_all (env_rs env) (map (\<lambda>(now, pkt). (now, rp_payload pkt)) pkts) r = Inr (outs, r') \<Longrightarrow>
   \<forall>b \<in> set (delivered outs). addressed (fw_node_id fw) b \<Longrightarrow>
   fw_run env (packet_events src pkts) fw = Some (Inr (fw\<lparr>
     fw_receivers := dm_insert src r' (fw_receivers fw),
     fw_local := fw_local fw @ concat (map (local_of src) (delivered outs))\<rparr>))"
proof (induction pkts arbitrary: fw r outs)
  case Nil
  then show ?case by (simp add: packet_events_def delivered_def dm_insert_same)
next
  case (Cons a pkts)
  obtain now pkt where a: "a = (now, pkt)" by fastforce
  from Cons.prems(4) obtain out r1 outs1
    where rcv: "receive_shard (env_rs env) now (rp_payload pkt) r = Inr (out, r1)"
      and rest: "receive_all (env_rs env) (map (\<lambda>(now, pkt). (now, rp_payload pkt)) pkts) r1 = Inr (outs1, r')"
      and outs: "outs = out # outs1"
    by (auto simp: a rbind_eq_Inr_iff)
  define ps where "ps = (case out of None \<Rightarrow> [] | Some ps \<Rightarrow> ps)"
  have del: "delivered outs = ps @ delivered outs1" by (simp add: delivered_def outs ps_def)
  define fw1 where "fw1 = fw\<lparr>fw_receivers := dm_insert src r1 (fw_receivers fw),
     fw_local := fw_local fw @ concat (map (local_of src) ps)\<rparr>"
  have ty: "rp_type pkt = PACKET_DATA \<or> rp_type pkt = PACKET_PARITY" using Cons.prems(3) by (auto simp: a)
  then have "rp_type pkt \<noteq> PACKET_PING" "rp_type pkt \<noteq> PACKET_PONG" by (auto simp: packet_types)
  then have "fw_step env (Ev_Packet now src pkt) fw = Some (Inr fw1)"
    using Cons.prems(1,2,5) rcv ty del
      route_all_local [of "fw\<lparr>fw_receivers := dm_insert src r1 (fw_receivers fw)\<rparr>" ps env src]
    by (cases out) (simp_all add: fw_step_def handle_inbound_def Let_def fw1_def ps_def)
  moreover have "fw_run env (packet_events src pkts) fw1 = Some (Inr (fw1\<lparr>
     fw_receivers := dm_insert src r' (fw_receivers fw1),
     fw_local := fw_local fw1 @ concat (map (local_of src) (delivered outs1))\<rparr>))"
    by (rule Cons.IH [OF _ _ _ rest]) (use Cons.prems del in \<open>auto simp: fw1_def a\<close>)
  ultimately show ?case by (simp add: packet_events_def a del fw1_def dm_insert_insert)
qed

lemma concat_map_single:
  "(\<And>x. x \<in> set xs \<Longrightarrow> f (g x) = [h x]) \<Longrightarrow> concat (map f (map g xs)) = map h xs"
  by (induction xs) auto

section \<open>One block across the network\<close>

lemma relay_payload_facts:
  assumes "length dest \<le> 255" "utf8_valid (str_bytes dest)" "\<forall>(f, x) \<in> set ps. length dest + length x \<le> 1386"
  shows "list_all payload_ok (relay_payloads dest ps)" "\<forall>b \<in> set (relay_payloads dest ps). length b \<le> 1391"
    "\<forall>b \<in> set (relay_payloads dest ps). addressed dest b"
    "concat (map (local_of src) (relay_payloads dest ps)) =
       map (\<lambda>(f, x). \<lparr>ld_flow_id = f, ld_data = x, ld_source = src\<rparr>) ps"
proof -
  have dec: "decode_relay_header (encode_relay_header f dest x) = Some (f, dest, x)" for f x
    using decode_encode_relay [of dest f x] assms(1,2) by simp
  show "concat (map (local_of src) (relay_payloads dest ps)) =
       map (\<lambda>(f, x). \<lparr>ld_flow_id = f, ld_data = x, ld_source = src\<rparr>) ps"
    by (induction ps) (auto simp: relay_payloads_def local_of_def dec)
  have one: "payload_ok b \<and> length b \<le> 1391 \<and> addressed dest b" if mem: "b \<in> set (relay_payloads dest ps)" for b
  proof -
    obtain f x where b: "b = encode_relay_header f dest x" and "length dest + length x \<le> 1386"
      using mem assms(3) by (auto simp: relay_payloads_def)
    then have "0 < length b \<and> length b \<le> 1391" using assms(1) by (simp add: length_encode_relay)
    then show ?thesis using dec b by (auto simp: payload_ok_def addressed_def)
  qed
  then show "list_all payload_ok (relay_payloads dest ps)" by (simp add: list_all_iff)
  show "\<forall>b \<in> set (relay_payloads dest ps). length b \<le> 1391"
    "\<forall>b \<in> set (relay_payloads dest ps). addressed dest b"
    using one by blast+
qed

lemma shard_frame_length:
  assumes "codeword rs d p bs ys" "m < d + p" "bs \<noteq> []" "\<forall>b \<in> set bs. length b \<le> n"
  shows "length (snd (shard_frame cfg k ys m)) \<le> 9 + n"
proof -
  have "length (ys ! m) = max_shard_len (map prefix_len bs)"
    using assms(1,2) by (simp add: codeword_def)
  also have "\<dots> \<le> 2 + n" using assms(3,4) by (simp add: max_shard_len_def)
  finally show ?thesis by (simp add: shard_frame_def)
qed

lemma frames_of_0:
  "m < d + p \<Longrightarrow> frames_of d p k Y 0 ! m = shard_frame (shards_cfg d p) k (Y 0) m"
  "length (frames_of d p k Y 0) = d + p"
  by (simp_all add: frames_of_def)

lemma burst_block:
  assumes env: "env_ok d p env" and ok: "fw_ok d p A"
    and hop: "next_hop (env_pop env) (fw_router A) dest = Some (Inr (Some r))"
      "dm_get (fw_tunnels A) (next_hop_node r) = Some i" "dm_get (fw_senders A) (next_hop_node r) = Some s"
    and ps: "snd_buffer s = []" "length ps = d"
  obtains ys s' where "codeword (env_rs env) d p (relay_payloads dest ps) ys"
    and "fw_run env (send_events dest ps) A = Some (Inr (A\<lparr>
      fw_senders := dm_insert (next_hop_node r) s' (fw_senders A),
      fw_tasks := fw_tasks A @ [(i, map (shard_frame (shards_cfg d p) (snd_block_id s) ys) [0..<d + p])]\<rparr>))"
proof -
  have law: "rs_lawful (env_rs env) d p" using env by (simp add: env_ok_def)
  then have d: "0 < d" by (simp add: rs_lawful_def)
  have cfg: "snd_config s = shards_cfg d p" using fw_okD(9) [OF ok hop(3)] by (simp add: sender_ok_def)
  let ?xs = "relay_payloads dest ps"
  have len: "length ?xs = d" using ps by (simp add: relay_payloads_def)
  have "\<exists>Y s'. submit_all (env_rs env) ?xs s = Inr (map (frames_of d p (snd_block_id s) Y) [0..<1], s') \<and>
      (\<forall>j<1. codeword (env_rs env) d p (block_of d ?xs j) (Y j)) \<and> snd_buffer s' = drop (1 * d) ?xs \<and>
      snd_block_id s' = snd_block_id s + word_of_nat 1 \<and> snd_config s' = shards_cfg d p"
    using cfg d len ps by (intro submit_all_blocks [OF law]) simp_all
  then obtain Y s' where sub: "submit_all (env_rs env) ?xs s = Inr ([frames_of d p (snd_block_id s) Y 0], s')"
    and code: "codeword (env_rs env) d p (block_of d ?xs 0) (Y 0)"
    by auto
  have "block_of d ?xs 0 = ?xs" using len by (simp add: block_of_def)
  with code have c: "codeword (env_rs env) d p ?xs (Y 0)" by simp
  show thesis using that [OF c, of s'] burst_run [OF hop sub] by (simp add: frames_of_def)
qed

lemma block_task:
  assumes env: "env_ok d p env" and i: "tunnel_ok (fw_arena fw ! i)" "i < length (fw_arena fw)"
    and j: "j < length (fw_tasks fw)" "fw_tasks fw ! j = (i, F)" and small: "\<forall>(ty, x) \<in> set F. length x < 2 ^ 15"
  obtains fw2 fs where "fw_run env (replicate (length F) (Ev_Task j)) fw = Some (Inr fw2)"
    and "fw_sent fw2 = fw_sent fw @ map (Pair (tun_peer_addr (fw_arena fw ! i))) fs" and "length fs = length F"
    and "\<And>m. m < length F \<Longrightarrow> frame_for (env_aead env) (tun_crypto (fw_arena fw ! i))
           (tun_tx_seq (fw_arena fw ! i) + word_of_nat m) (F ! m) (fs ! m)"
proof -
  have lib: "aead_lawful (env_aead env)" using env by (simp add: env_ok_def)
  have key: "length (cipher_key (tun_crypto (fw_arena fw ! i))) = 32" using i(1) by (simp add: tunnel_ok_def)
  obtain fs t' where m: "send_many (env_aead env) (env_sock env) F (fw_arena fw ! i) = Inr (fs, t')"
    and fs: "length fs = length F" "\<forall>m < length F. frame_for (env_aead env) (tun_crypto (fw_arena fw ! i))
           (tun_tx_seq (fw_arena fw ! i) + word_of_nat m) (F ! m) (fs ! m)"
    using send_many_frames [OF lib refl key small] by blast
  show thesis using that [OF task_run [OF j i(2) m]] fs by simp
qed

lemma shard_frames_small:
  assumes "codeword rs d p bs ys" "bs \<noteq> []" "\<forall>b \<in> set bs. length b \<le> 20000"
  shows "\<forall>(ty, x) \<in> set (map (shard_frame cfg k ys) [0..<d + p]). length x < 2 ^ 15"
proof
  fix y
  assume "y \<in> set (map (shard_frame cfg k ys) [0..<d + p])"
  then obtain m where "m < d + p" "y = shard_frame cfg k ys m" by auto
  then have "length (snd y) \<le> 9 + 20000" using shard_frame_length [OF assms(1) _ assms(2,3)] by simp
  then show "case y of (ty, x) \<Rightarrow> length x < 2 ^ 15" by (simp add: split_beta)
qed

lemma block_datagrams:
  assumes env: "env_ok d p env" and A: "fw_ok d p A"
    and hop: "next_hop (env_pop env) (fw_router A) dest = Some (Inr (Some r))"
      "dm_get (fw_tunnels A) (next_hop_node r) = Some i" "dm_get (fw_senders A) (next_hop_node r) = Some s"
    and ps: "snd_buffer s = []" "length ps = d" "\<forall>b \<in> set (relay_payloads dest ps). length b \<le> 20000"
  obtains ys A1 A2 fs where "codeword (env_rs env) d p (relay_payloads dest ps) ys"
    and "fw_run env (send_events dest ps) A = Some (Inr A1)"
    and "fw_run env (replicate (d + p) (Ev_Task (length (fw_tasks A)))) A1 = Some (Inr A2)"
    and "fw_sent A2 = fw_sent A @ map (Pair (tun_peer_addr (fw_arena A ! i))) fs" and "length fs = d + p"
    and "\<And>m. m < d + p \<Longrightarrow> frame_for (env_aead env) (tun_crypto (fw_arena A ! i))
      (tun_tx_seq (fw_arena A ! i) + word_of_nat m) (shard_frame (shards_cfg d p) (snd_block_id s) ys m) (fs ! m)"
proof -
  let ?bs = "relay_payloads dest ps" and ?k = "snd_block_id s"
  obtain ys s' where code: "codeword (env_rs env) d p ?bs ys"
    and burst: "fw_run env (send_events dest ps) A = Some (Inr (A\<lparr>
      fw_senders := dm_insert (next_hop_node r) s' (fw_senders A),
      fw_tasks := fw_tasks A @ [(i, map (shard_frame (shards_cfg d p) ?k ys) [0..<d + p])]\<rparr>))"
    using burst_block [OF env A hop ps(1,2)] .
  define F where "F = map (shard_frame (shards_cfg d p) ?k ys) [0..<d + p]"
  define A1 where "A1 = A\<lparr>fw_senders := dm_insert (next_hop_node r) s' (fw_senders A),
      fw_tasks := fw_tasks A @ [(i, F)]\<rparr>"
  have lF: "length F = d + p" by (simp add: F_def)
  have "0 < d" using code by (simp add: codeword_def)
  then have ne: "?bs \<noteq> []" using ps(2) by (auto simp: relay_payloads_def)
  have small: "\<forall>(ty, x) \<in> set F. length x < 2 ^ 15"
    unfolding F_def using code ne ps(3) by (rule shard_frames_small)
  have i: "i < length (fw_arena A)" using fw_okD(7) [OF A hop(2)] .
  have tok: "tunnel_ok (fw_arena A1 ! i)" "i < length (fw_arena A1)"
    using i fw_okD(6) [OF A i] by (simp_all add: A1_def)
  obtain A2 fs where task: "fw_run env (replicate (length F) (Ev_Task (length (fw_tasks A)))) A1 = Some (Inr A2)"
    "fw_sent A2 = fw_sent A1 @ map (Pair (tun_peer_addr (fw_arena A1 ! i))) fs" "length fs = length F"
    and frames: "\<And>m. m < length F \<Longrightarrow> frame_for (env_aead env) (tun_crypto (fw_arena A1 ! i))
           (tun_tx_seq (fw_arena A1 ! i) + word_of_nat m) (F ! m) (fs ! m)"
    by (rule block_task [OF env tok _ _ small, of "length (fw_tasks A)"]) (simp_all add: A1_def)
  have arena: "fw_arena A1 = fw_arena A" "fw_sent A1 = fw_sent A" by (simp_all add: A1_def)
  show thesis
    by (rule that [OF code burst [folded F_def, folded A1_def] task(1) [unfolded lF]
          task(2) [unfolded arena] task(3) [unfolded lF]])
      (use frames lF in \<open>simp_all add: arena F_def\<close>)
qed

section \<open>The block at the other node\<close>

lemma block_arrives:
  assumes code: "codeword (env_rs env) d p (relay_payloads dest ps) ys"
    and ps: "ps \<noteq> []" "\<forall>(f, x) \<in> set ps. length dest + length x \<le> 1386"
    and dest: "length dest \<le> 255" "utf8_valid (str_bytes dest)"
    and frames: "\<And>m. m < d + p \<Longrightarrow>
      frame_for (env_aead env) c (q + word_of_nat m) (shard_frame (shards_cfg d p) k ys m) (fs ! m)"
    and peer: "dm_get peers addr = Some (a, c)"
    and B: "fw_node_id B = dest" "fw_local_open B" "dm_get (fw_receivers B) a = Some rcv" "dm_get (rcv_blocks rcv) k = None"
    and sel: "distinct (map snd sel)" "set (map snd sel) \<subseteq> {..<d + p}" "d \<le> length sel" "length sel < 2 * d"
  obtains pkts B' where
    "receive_loop_multi (env_aead env) peers (\<lambda>_. True) (map (\<lambda>(t, m). Recv_Dgram (fs ! m) addr) sel) 0
      (replicate MAX_PACKET 0) = Inr (map (Pair a) pkts)"
    and "fw_run env (packet_events a (zip (map fst sel) pkts)) B = Some (Inr B')"
    and "fw_local B' = fw_local B @ map (\<lambda>(f, x). \<lparr>ld_flow_id = f, ld_data = x, ld_source = a\<rparr>) ps"
proof -
  let ?bs = "relay_payloads dest ps"
  note facts = relay_payload_facts [OF dest ps(2)]
  have d: "0 < d" using code by (simp add: codeword_def)
  have ne: "?bs \<noteq> []" using ps(1) by (simp add: relay_payloads_def)
  define tx where "tx = shard_frame (shards_cfg d p) k ys"
  define pkt where "pkt m = \<lparr>rp_type = fst (tx m), rp_seq = q + word_of_nat m,
            rp_payload = snd (tx m), rp_from = addr\<rparr>" for m
  have acc: "accepted_packet (env_aead env) peers (Recv_Dgram (fs ! m) addr) = [(a, pkt m)]" if "m < d + p" for m
    using frame_accepted [OF frames [OF that] peer] shard_frame_length [OF code that ne facts(2)]
    by (simp add: pkt_def tx_def MAX_PAYLOAD_def)
  have sel': "m < d + p" if "(t, m) \<in> set sel" for t m using sel(2) that by force
  have "concat (map (accepted_packet (env_aead env) peers) (map (\<lambda>(t, m). Recv_Dgram (fs ! m) addr) sel)) =
      map (Pair a) (map (\<lambda>(t, m). pkt m) sel)"
    by (rule concat_map_single [where h = "\<lambda>(t, m). (a, pkt m)", THEN trans]) (use sel' acc in auto)
  then have loop: "receive_loop_multi (env_aead env) peers (\<lambda>_. True) (map (\<lambda>(t, m). Recv_Dgram (fs ! m) addr) sel) 0
      (replicate MAX_PACKET 0) = Inr (map (Pair a) (map (\<lambda>(t, m). pkt m) sel))"
    by (simp add: receive_loop_multi_stateless)
  obtain outs r' where rcv: "receive_all (env_rs env) (map (\<lambda>(t, m). (t, snd (tx m))) sel) rcv = Inr (outs, r')"
    and outs: "filter (\<lambda>x. x \<noteq> None) outs = replicate (length sel div d) (Some ?bs)"
    using block_deliveries [OF code facts(1) B(4) sel(1,2)] unfolding tx_def .
  have "length sel div d = 1" using sel(3,4) d by (intro div_nat_eqI) simp_all
  then have del: "delivered outs = ?bs" by (simp only: delivered_filter outs) simp
  let ?pkts = "map (\<lambda>(t, m). (t, pkt m)) sel"
  have "map (\<lambda>(t, x). (t, rp_payload x)) ?pkts = map (\<lambda>(t, m). (t, snd (tx m))) sel"
    by (auto simp: pkt_def)
  then have rcv': "receive_all (env_rs env) (map (\<lambda>(t, x). (t, rp_payload x)) ?pkts) rcv = Inr (outs, r')"
    using rcv by (simp only:)
  have types: "\<forall>(t, x) \<in> set ?pkts. rp_type x = PACKET_DATA \<or> rp_type x = PACKET_PARITY"
    by (auto simp: pkt_def tx_def shard_frame_def)
  have "\<forall>b \<in> set (delivered outs). addressed (fw_node_id B) b" unfolding del B(1) by (rule facts(3))
  note inbound = inbound_run [OF B(3,2) types rcv' this, unfolded del facts(4)]
  define B' where "B' = B\<lparr>fw_receivers := dm_insert a r' (fw_receivers B),
      fw_local := fw_local B @ map (\<lambda>(f, x). \<lparr>ld_flow_id = f, ld_data = x, ld_source = a\<rparr>) ps\<rparr>"
  have zip: "?pkts = zip (map fst sel) (map (\<lambda>(t, m). pkt m) sel)" by (induction sel) auto
  have "fw_local B' = fw_local B @ map (\<lambda>(f, x). \<lparr>ld_flow_id = f, ld_data = x, ld_source = a\<rparr>) ps"
    by (simp add: B'_def)
  with loop inbound [unfolded zip, folded B'_def] show thesis by (rule that)
qed

section \<open>The read task of the TCP edge\<close>

definition routable :: "env \<Rightarrow> forwarder \<Rightarrow> node_name \<Rightarrow> bool" where
  \<comment> \<open>the router knows a next hop to the node, with a tunnel and a FEC sender\<close>
  "routable env fw dest \<longleftrightarrow> (\<exists>r i s. next_hop (env_pop env) (fw_router fw) dest = Some (Inr (Some r)) \<and>
     dm_get (fw_tunnels fw) (next_hop_node r) = Some i \<and> dm_get (fw_senders fw) (next_hop_node r) = Some s)"

lemma send_routable:
  assumes env: "env_ok d p env" and ok: "fw_ok d p fw" and route: "routable env fw dest" and x: "length x < 2 ^ 30"
  obtains fw' where "send_to_node env dest f x fw = Some (Inr (Inr (), fw'))" and "fw_ok d p fw'"
    and "routable env fw' dest"
proof -
  obtain r i s where hop: "next_hop (env_pop env) (fw_router fw) dest = Some (Inr (Some r))"
    "dm_get (fw_tunnels fw) (next_hop_node r) = Some i" "dm_get (fw_senders fw) (next_hop_node r) = Some s"
    using route by (auto simp: routable_def)
  have small: "small (encode_relay_header f dest x)"
    using x by (simp add: small_def encode_relay_header_def Let_def)
  have law: "rs_lawful (env_rs env) d p" using env by (simp add: env_ok_def)
  obtain out s' where "submit (env_rs env) (encode_relay_header f dest x) s = Inr (out, s')"
    using submit_total [OF law fw_okD(9) [OF ok hop(3)] small] by metis
  then obtain fw' where fw': "send_to_node env dest f x fw = Some (Inr (Inr (), fw'))"
    "fw_router fw' = fw_router fw" "fw_tunnels fw' = fw_tunnels fw"
    "dm_get (fw_senders fw') (next_hop_node r) = Some s'"
    using hop by (cases out) (auto simp: send_to_node_def forward_to_def fw_router_def)
  have "fw_ok d p fw'"
    using forward_to_total [OF env ok small, of dest] fw'(1) by (metis Pair_inject option.inject send_to_node_def sum.inject(2))
  moreover have "routable env fw' dest" using fw' hop unfolding routable_def by metis
  ultimately show thesis using fw'(1) that by blast
qed

primrec send_pieces ::
    "env \<Rightarrow> nat \<Rightarrow> nat \<Rightarrow> 'a acceptor_scheme \<times> forwarder \<Rightarrow> ('a acceptor_scheme \<times> forwarder) run" where
  "send_pieces env i 0 st = Some (Inr st)"
| "send_pieces env i (Suc n) st = obind (send_next env i st) (send_pieces env i n)"

lemma send_pieces_run:
  "env_ok d p env \<Longrightarrow> fw_ok d p fw \<Longrightarrow> routable env fw (ac_dest s) \<Longrightarrow> i < length (ac_conns s) \<Longrightarrow>
   cn_todo (ac_conns s ! i) = pieces \<Longrightarrow> \<forall>x \<in> set pieces. length x \<le> READ_BUF \<Longrightarrow>
   cn_reading (ac_conns s ! i) \<Longrightarrow>
   \<exists>s' fw'. send_pieces env i (length pieces) (s, fw) = Some (Inr (s', fw')) \<and>
     fw_run env (send_events (ac_dest s) (map (Pair (cn_flow (ac_conns s ! i))) pieces)) fw = Some (Inr fw') \<and>
     cn_todo (ac_conns s' ! i) = [] \<and> cn_reading (ac_conns s' ! i)"
proof (induction pieces arbitrary: s fw)
  case Nil
  then show ?case by (simp add: send_events_def)
next
  case (Cons x pieces)
  let ?f = "cn_flow (ac_conns s ! i)"
  have x: "length x < 2 ^ 30" using Cons.prems(6) by (simp add: READ_BUF_def)
  obtain fw1 where send: "send_to_node env (ac_dest s) ?f x fw = Some (Inr (Inr (), fw1))"
    and ok: "fw_ok d p fw1" "routable env fw1 (ac_dest s)"
    using send_routable [OF Cons.prems(1-3) x] .
  let ?s = "upd_conn i (piece_sent True) s"
  have step: "send_next env i (s, fw) = Some (Inr (?s, fw1))"
    using send_next_step [OF Cons.prems(4,5)] send by simp
  have c: "ac_conns ?s ! i = (ac_conns s ! i)\<lparr>cn_todo := pieces\<rparr>"
    using Cons.prems(4,5) by (simp add: upd_conn_nth piece_sent_def)
  obtain s' fw' where "send_pieces env i (length pieces) (?s, fw1) = Some (Inr (s', fw'))"
    "fw_run env (send_events (ac_dest ?s) (map (Pair (cn_flow (ac_conns ?s ! i))) pieces)) fw1 = Some (Inr fw')"
    "cn_todo (ac_conns s' ! i) = []" "cn_reading (ac_conns s' ! i)"
    using Cons.IH [of fw1 ?s] Cons.prems ok c by auto
  then show ?case using step send c by (simp add: send_events_def fw_step_def)
qed

section \<open>Properties\<close>

text \<open>C4. Small messages cross the network: a block of \<open>d\<close> messages, each with the name of node B (at most 255 bytes) at most
  1386 bytes (longer
  ones lose the block, C34), given to \<open>send_to_node\<close> at node A while its sender to the next hop is empty, leaves, once
  the spawned task has run, as \<open>d + p\<close> datagrams to the peer; whichever of them arrive at B's receive
  loop and in whatever order, as long as at least \<open>d\<close> and fewer than \<open>2 * d\<close> do and B holds nothing of the block,
  B's forwarder hands exactly these messages to its local edge, in order, with their flow identifiers, once.\<close>

theorem end_to_end_delivery:
  assumes env: "env_ok d p env" and A: "fw_ok d p A"
    and hop: "next_hop (env_pop env) (fw_router A) dest = Some (Inr (Some r))"
      "dm_get (fw_tunnels A) (next_hop_node r) = Some i" "dm_get (fw_senders A) (next_hop_node r) = Some s"
    and ps: "snd_buffer s = []" "length ps = d" "\<forall>(f, x) \<in> set ps. length dest + length x \<le> 1386"
    and dest: "length dest \<le> 255" "utf8_valid (str_bytes dest)"
    and peer: "dm_get peers addr = Some (a, tun_crypto (fw_arena A ! i))"
    and B: "fw_node_id B = dest" "fw_local_open B" "dm_get (fw_receivers B) a = Some rcv"
      "dm_get (rcv_blocks rcv) (snd_block_id s) = None"
    and sel: "distinct (map snd sel)" "set (map snd sel) \<subseteq> {..<d + p}" "d \<le> length sel" "length sel < 2 * d"
  shows "\<exists>A1 A2 fs pkts B'.
    fw_run env (send_events dest ps) A = Some (Inr A1) \<and>
    fw_run env (replicate (d + p) (Ev_Task (length (fw_tasks A)))) A1 = Some (Inr A2) \<and>
    fw_sent A2 = fw_sent A @ map (Pair (tun_peer_addr (fw_arena A ! i))) fs \<and> length fs = d + p \<and>
    receive_loop_multi (env_aead env) peers (\<lambda>_. True) (map (\<lambda>(t, m). Recv_Dgram (fs ! m) addr) sel) 0
      (replicate MAX_PACKET 0) = Inr (map (Pair a) pkts) \<and>
    fw_run env (packet_events a (zip (map fst sel) pkts)) B = Some (Inr B') \<and>
    fw_local B' = fw_local B @ map (\<lambda>(f, x). \<lparr>ld_flow_id = f, ld_data = x, ld_source = a\<rparr>) ps"
proof -
  let ?t = "fw_arena A ! i"
  have "\<forall>b \<in> set (relay_payloads dest ps). length b \<le> 20000"
    using relay_payload_facts(2) [OF dest ps(3)] by fastforce
  from block_datagrams [OF env A hop ps(1,2) this] obtain ys A1 A2 fs
    where code: "codeword (env_rs env) d p (relay_payloads dest ps) ys"
      and runs: "fw_run env (send_events dest ps) A = Some (Inr A1)"
        "fw_run env (replicate (d + p) (Ev_Task (length (fw_tasks A)))) A1 = Some (Inr A2)"
        "fw_sent A2 = fw_sent A @ map (Pair (tun_peer_addr ?t)) fs" "length fs = d + p"
      and frames: "\<And>m. m < d + p \<Longrightarrow> frame_for (env_aead env) (tun_crypto ?t) (tun_tx_seq ?t + word_of_nat m)
          (shard_frame (shards_cfg d p) (snd_block_id s) ys m) (fs ! m)"
    by metis
  have "ps \<noteq> []" using code ps(2) by (auto simp: codeword_def)
  from block_arrives [OF code this ps(3) dest frames peer B sel] runs show ?thesis by metis
qed

definition lon_forwarder :: forwarder where
  "lon_forwarder = tunnel_added ''syd'' demo_tunnel (fresh_forwarder ''lon'' (shards_cfg 2 1))"

lemma measured_hop:
  "next_hop (env_pop demo_env) (fw_router measured_forwarder) ''lon'' = Some (Inr (Some
     \<lparr>next_hop_node = ''lon'', total_rtt = 50000000, route_path = [''syd'', ''lon'']\<rparr>))"
  "dm_get (fw_tunnels measured_forwarder) ''lon'' = Some 0" "fw_arena measured_forwarder = [demo_tunnel]"
  "dm_get (fw_senders measured_forwarder) ''lon'' = Some (empty_sender (shards_cfg 2 1))"
  "fw_tasks measured_forwarder = []" "fw_sent measured_forwarder = []"
proof -
  have r: "fw_router measured_forwarder = \<lparr>rt_local = ''syd'', rt_matrix = [((''syd'', ''lon''), entry_new 0 50000000),
     ((''lon'', ''syd''), entry_new 0 50000000)]\<rparr>"
    by (simp add: fw_router_def measured_forwarder_def demo_forwarder_def tunnel_added_def fresh_forwarder_def
        forwarder_new_def)
  show "next_hop (env_pop demo_env) (fw_router measured_forwarder) ''lon'' = Some (Inr (Some
     \<lparr>next_hop_node = ''lon'', total_rtt = 50000000, route_path = [''syd'', ''lon'']\<rparr>))"
    unfolding r by (simp add: next_hop_def dijkstra_def path_cost_def DURATION_END_def search_eval)
  show "dm_get (fw_tunnels measured_forwarder) ''lon'' = Some 0" "fw_arena measured_forwarder = [demo_tunnel]"
    "dm_get (fw_senders measured_forwarder) ''lon'' = Some (empty_sender (shards_cfg 2 1))"
    "fw_tasks measured_forwarder = []" "fw_sent measured_forwarder = []"
    by (simp_all add: measured_forwarder_def demo_forwarder_def tunnel_added_def fresh_forwarder_def
        forwarder_new_def or_insert_def)
qed

lemma str_lon: "length ''lon'' = 3" "utf8_valid (str_bytes ''lon'')"
  by (simp_all add: str_bytes_def)

lemma lon_forwarder_simps:
  "fw_node_id lon_forwarder = ''lon''" "fw_local_open lon_forwarder" "fw_local lon_forwarder = []"
  "dm_get (fw_receivers lon_forwarder) ''syd'' = Some fec_receiver_new"
  by (simp_all add: lon_forwarder_def tunnel_added_def fresh_forwarder_def forwarder_new_def or_insert_def)

theorem end_to_end_delivery_witness:
  "\<exists>A1 A2 fs pkts B'.
    fw_run demo_env (send_events ''lon'' [(7, [1, 2]), (8, [3])]) measured_forwarder = Some (Inr A1) \<and>
    fw_run demo_env (replicate 3 (Ev_Task 0)) A1 = Some (Inr A2) \<and> fw_sent A2 = map (Pair (1, 9000)) fs \<and>
    receive_loop_multi demo_aead [((2, 9001), (''syd'', tun_crypto demo_tunnel))] (\<lambda>_. True)
      [Recv_Dgram (fs ! 2) (2, 9001), Recv_Dgram (fs ! 0) (2, 9001)] 0 (replicate MAX_PACKET 0) =
      Inr (map (Pair ''syd'') pkts) \<and>
    fw_run demo_env (packet_events ''syd'' (zip [30, 31] pkts)) lon_forwarder = Some (Inr B') \<and>
    fw_local B' = [\<lparr>ld_flow_id = 7, ld_data = [1, 2], ld_source = ''syd''\<rparr>,
                   \<lparr>ld_flow_id = 8, ld_data = [3], ld_source = ''syd''\<rparr>]"
proof -
  have peer: "dm_get [((2, 9001), (''syd'', tun_crypto demo_tunnel))] (2, 9001) =
      Some (''syd'', tun_crypto (fw_arena measured_forwarder ! 0))"
    by (simp add: dm_get_def measured_hop)
  have tun: "dm_get (fw_tunnels measured_forwarder) (next_hop_node \<lparr>next_hop_node = ''lon'', total_rtt = 50000000,
      route_path = [''syd'', ''lon'']\<rparr>) = Some 0"
    and snd: "dm_get (fw_senders measured_forwarder) (next_hop_node \<lparr>next_hop_node = ''lon'', total_rtt = 50000000,
      route_path = [''syd'', ''lon'']\<rparr>) = Some (empty_sender (shards_cfg 2 1))"
    by (simp_all add: measured_hop)
  from end_to_end_delivery [OF demo_env_ok measured_forwarder_ok measured_hop(1) tun snd _ _ _ _ _ peer
      lon_forwarder_simps(1,2,4), of "[(7, [1, 2]), (8, [3])]" "[(30, 2), (31, 0)]"]
  show ?thesis
    by (simp add: measured_hop str_lon lon_forwarder_simps empty_sender_def fec_receiver_new_def
        del: receive_loop_multi.simps fw_run.simps) blast
qed

lemma shard_frame_long:
  assumes "codeword rs d p bs ys" "m < d + p" "b \<in> set bs"
  shows "9 + length b \<le> length (snd (shard_frame cfg k ys m))"
proof -
  have "2 + length b \<in> set (map length (map prefix_len bs))" using assms(3) by force
  then have "2 + length b \<le> max_shard_len (map prefix_len bs)"
    using assms(3) by (auto simp: max_shard_len_def intro!: Max_ge)
  also have "\<dots> = length (ys ! m)" using assms(1,2) by (simp add: codeword_def)
  finally show ?thesis by (simp add: shard_frame_def)
qed

text \<open>C34. A full chunk of the edge never arrives: when one of the \<open>d\<close> messages of a block is longer than
  1386 bytes less the destination's name, as every full chunk of 1400 bytes of the TCP edge is, all \<open>d + p\<close>
  datagrams of the block are longer than the peer's receive buffer, and the receive loop accepts
  none of them: the whole block is lost, the short messages of other flows in it too, whatever the
  network does.\<close>

theorem full_chunk_block_lost:
  assumes env: "env_ok d p env" and A: "fw_ok d p A"
    and hop: "next_hop (env_pop env) (fw_router A) dest = Some (Inr (Some r))"
      "dm_get (fw_tunnels A) (next_hop_node r) = Some i" "dm_get (fw_senders A) (next_hop_node r) = Some s"
    and ps: "snd_buffer s = []" "length ps = d" "\<forall>(f, x) \<in> set ps. length x \<le> READ_BUF" "length dest \<le> 255"
    and long: "(f, x) \<in> set ps" "1386 < length dest + length x"
  shows "\<exists>A1 A2 fs.
    fw_run env (send_events dest ps) A = Some (Inr A1) \<and>
    fw_run env (replicate (d + p) (Ev_Task (length (fw_tasks A)))) A1 = Some (Inr A2) \<and>
    fw_sent A2 = fw_sent A @ map (Pair (tun_peer_addr (fw_arena A ! i))) fs \<and> length fs = d + p \<and>
    (\<forall>peers addr arrived. set arrived \<subseteq> set fs \<longrightarrow>
       receive_loop_multi (env_aead env) peers (\<lambda>_. True) (map (\<lambda>f. Recv_Dgram f addr) arrived) 0
         (replicate MAX_PACKET 0) = Inr [])"
proof -
  let ?bs = "relay_payloads dest ps" and ?t = "fw_arena A ! i"
  have b20: "\<forall>b \<in> set ?bs. length b \<le> 20000"
    using ps(3,4) by (fastforce simp: relay_payloads_def length_encode_relay READ_BUF_def)
  from block_datagrams [OF env A hop ps(1,2) b20] obtain ys A1 A2 fs
    where code: "codeword (env_rs env) d p ?bs ys"
      and runs: "fw_run env (send_events dest ps) A = Some (Inr A1)"
        "fw_run env (replicate (d + p) (Ev_Task (length (fw_tasks A)))) A1 = Some (Inr A2)"
        "fw_sent A2 = fw_sent A @ map (Pair (tun_peer_addr ?t)) fs" "length fs = d + p"
      and frames: "\<And>m. m < d + p \<Longrightarrow> frame_for (env_aead env) (tun_crypto ?t) (tun_tx_seq ?t + word_of_nat m)
          (shard_frame (shards_cfg d p) (snd_block_id s) ys m) (fs ! m)"
    by metis
  have b: "encode_relay_header f dest x \<in> set ?bs" using long(1) by (force simp: relay_payloads_def)
  then have ne: "?bs \<noteq> []" by auto
  have rej: "accepted_packet (env_aead env) peers (Recv_Dgram (fs ! m) addr) = []" if m: "m < d + p" for peers addr m
  proof (rule frame_rejected [OF frames [OF m]])
    show "MAX_PAYLOAD < length (snd (shard_frame (shards_cfg d p) (snd_block_id s) ys m))"
      using shard_frame_long [OF code m b, of "shards_cfg d p" "snd_block_id s"] long(2) ps(4)
      by (simp add: length_encode_relay MAX_PAYLOAD_def)
    show "length (snd (shard_frame (shards_cfg d p) (snd_block_id s) ys m)) < 2 ^ 15"
      using shard_frame_length [OF code m ne b20, of "shards_cfg d p" "snd_block_id s"] by simp
  qed
  have "receive_loop_multi (env_aead env) peers (\<lambda>_. True) (map (\<lambda>f. Recv_Dgram f addr) arrived) 0
         (replicate MAX_PACKET 0) = Inr []" if "set arrived \<subseteq> set fs" for peers addr arrived
  proof -
    have "accepted_packet (env_aead env) peers (Recv_Dgram f addr) = []" if "f \<in> set arrived" for f
      using that \<open>set arrived \<subseteq> set fs\<close> rej runs(4) by (metis in_set_conv_nth subsetD)
    then show ?thesis by (simp add: receive_loop_multi_stateless)
  qed
  with runs show ?thesis by blast
qed

theorem full_chunk_block_lost_witness:
  "\<exists>A1 A2 fs.
    fw_run demo_env (send_events ''lon'' [(7, replicate 1400 9), (8, [3])]) measured_forwarder = Some (Inr A1) \<and>
    fw_run demo_env (replicate 3 (Ev_Task 0)) A1 = Some (Inr A2) \<and> length (fw_sent A2) = 3 \<and>
    receive_loop_multi demo_aead [((2, 9001), (''syd'', tun_crypto demo_tunnel))] (\<lambda>_. True)
      (map (\<lambda>f. Recv_Dgram f (2, 9001)) fs) 0 (replicate MAX_PACKET 0) = Inr []"
proof -
  have tun: "dm_get (fw_tunnels measured_forwarder) (next_hop_node \<lparr>next_hop_node = ''lon'', total_rtt = 50000000,
      route_path = [''syd'', ''lon'']\<rparr>) = Some 0"
    and snd: "dm_get (fw_senders measured_forwarder) (next_hop_node \<lparr>next_hop_node = ''lon'', total_rtt = 50000000,
      route_path = [''syd'', ''lon'']\<rparr>) = Some (empty_sender (shards_cfg 2 1))"
    by (simp_all add: measured_hop)
  from full_chunk_block_lost [OF demo_env_ok measured_forwarder_ok measured_hop(1) tun snd, of
      "[(7, replicate 1400 9), (8, [3])]" 7 "replicate 1400 9"]
  obtain A1 A2 fs where
    "fw_run demo_env (send_events ''lon'' [(7, replicate 1400 9), (8, [3])]) measured_forwarder = Some (Inr A1)"
    "fw_run demo_env (replicate 3 (Ev_Task 0)) A1 = Some (Inr A2)" "fw_sent A2 = map (Pair (1, 9000)) fs" "length fs = 3"
    and "\<forall>peers addr arrived. set arrived \<subseteq> set fs \<longrightarrow>
       receive_loop_multi demo_aead peers (\<lambda>_. True) (map (\<lambda>f. Recv_Dgram f addr) arrived) 0
         (replicate MAX_PACKET 0) = Inr []"
    by (auto simp: measured_hop str_lon empty_sender_def READ_BUF_def simp del: receive_loop_multi.simps fw_run.simps)
  then show ?thesis by (intro exI [of _ A1] exI [of _ A2] exI [of _ fs]) simp
qed

text \<open>What a TCP client writes reaches the forwarder whole and in order: one read of \<open>bs\<close> by the read task of
  a connection is cut into pieces of 1 to 1400 bytes whose concatenation is \<open>bs\<close>; the steps of the task send them all,
  under the flow of the connection, to the destination of the edge, exactly as a burst of
  \<open>send_to_node\<close> calls, and leave it ready to read on.\<close>

theorem tcp_client_bytes_sent:
  assumes "env_ok d p env" "fw_ok d p fw" "routable env fw (ac_dest s)"
    and i: "i < length (ac_conns s)" "cn_reading (ac_conns s ! i)" "cn_todo (ac_conns s ! i) = []"
    and bs: "bs \<noteq> []" "length bs \<le> READ_BUF"
  shows "\<exists>pieces s' fw'. concat pieces = bs \<and> (\<forall>x \<in> set pieces. 0 < length x \<and> length x \<le> 1400) \<and>
    send_pieces env i (length pieces) (upd_conn i (tcp_read (Read_Data bs)) s, fw) = Some (Inr (s', fw')) \<and>
    fw_run env (send_events (ac_dest s) (map (Pair (cn_flow (ac_conns s ! i))) pieces)) fw = Some (Inr fw') \<and>
    cn_todo (ac_conns s' ! i) = [] \<and> cn_reading (ac_conns s' ! i)"
proof -
  let ?pieces = "chunks MAX_RELAY_DATA bs" and ?s = "upd_conn i (tcp_read (Read_Data bs)) s"
  have m: "0 < MAX_RELAY_DATA" by (simp add: MAX_RELAY_DATA_def)
  have c: "ac_conns ?s ! i = (ac_conns s ! i)\<lparr>cn_todo := ?pieces\<rparr>"
    using i bs by (simp add: upd_conn_nth tcp_read_def min_absorb1)
  have b: "\<forall>x \<in> set ?pieces. 0 < length x \<and> length x \<le> 1400"
    using chunks_bound [OF m] by (auto simp: MAX_RELAY_DATA_def)
  then have "\<forall>x \<in> set ?pieces. length x \<le> READ_BUF" by (fastforce simp: READ_BUF_def)
  then have "\<exists>s' fw'. send_pieces env i (length ?pieces) (?s, fw) = Some (Inr (s', fw')) \<and>
     fw_run env (send_events (ac_dest ?s) (map (Pair (cn_flow (ac_conns ?s ! i))) ?pieces)) fw = Some (Inr fw') \<and>
     cn_todo (ac_conns s' ! i) = [] \<and> cn_reading (ac_conns s' ! i)"
    using c i by (intro send_pieces_run [OF assms(1,2)]) (simp_all add: assms(3))
  moreover have "concat ?pieces = bs" using m by (rule concat_chunks)
  ultimately show ?thesis using b c by (intro exI [of _ ?pieces]) simp
qed

theorem tcp_client_bytes_sent_witness:
  "\<exists>pieces s' fw'. concat pieces = replicate 3000 (65 :: byte) \<and> (\<forall>x \<in> set pieces. 0 < length x \<and> length x \<le> 1400) \<and>
    send_pieces demo_env 0 (length pieces)
      (upd_conn 0 (tcp_read (Read_Data (replicate 3000 65))) demo_edge, measured_forwarder) = Some (Inr (s', fw')) \<and>
    fw_run demo_env (send_events ''lon'' (map (Pair 1) pieces)) measured_forwarder = Some (Inr fw')"
proof -
  have e: "ac_dest demo_edge = ''lon''" "length (ac_conns demo_edge) = 2"
    "ac_conns demo_edge ! 0 = conn_new 1"
    by (simp_all add: demo_edge_def open_flow_def next_flow_def fetch_add_def tcp_splitter_new_def)
  have "routable demo_env measured_forwarder (ac_dest demo_edge)"
    unfolding routable_def e using measured_hop(1,2,4) by force
  from tcp_client_bytes_sent [OF demo_env_ok measured_forwarder_ok this, of 0 "replicate 3000 65"]
  show ?thesis by (simp add: e conn_new_def READ_BUF_def) blast
qed

end
