(* ===== verification/Node_Props.thy ===== *)
theory Node_Props
  imports Node_Safe End_To_End
begin

text \<open>
  What the wiring of \<open>src/main.rs\<close> gives and what it lets through: which edge a delivery reaches, the
  flow identifiers the edges and the nodes share, the parity in use, and the FEC sizes \<open>validate\<close> does not check.
\<close>

section \<open>Flow identifiers\<close>

lemma tcp_flow_nth:
  "k < n \<Longrightarrow> tickets next_flow n (tcp_splitter_new dest) ! k = 1 + word_of_nat k"
  by (simp add: flow_ids.tickets_eq tcp_splitter_new_def)

lemma quic_flow_nth:
  "k < n \<Longrightarrow> tickets next_flow n (quic_acceptor_new dest) ! k = 1000000 + word_of_nat k"
  by (simp add: flow_ids.tickets_eq quic_acceptor_new_def)

lemma unat_word_of_nat_u32: "k < 2 ^ 32 \<Longrightarrow> unat (word_of_nat k :: u32) = k"
  by (simp add: unat_of_nat)

lemma tcp_flow_below:
  assumes "k < 2 ^ 32 - 1"
  shows "(1 + word_of_nat k :: u32) < QUIC_FLOWS \<longleftrightarrow> k < 999999"
proof -
  have "(1 + word_of_nat k :: u32) = word_of_nat (Suc k)" by simp
  moreover have "unat (word_of_nat (Suc k) :: u32) = Suc k" using assms by (intro unat_word_of_nat_u32) simp
  ultimately show ?thesis by (simp add: word_less_nat_alt QUIC_FLOWS_def del: of_nat_Suc)
qed

lemma deliver_with_room:
  assumes "flow_view f i q h s" "ac_ok cap s" "length q < cap"
  shows "flow_view f i (q @ [d]) (h @ [d]) (deliver cap f d s)"
  using flow_view_deliver [OF assms(1,2), of f d] assms(3) by simp

lemma same_identifier:
  assumes "k < n" "999999 \<le> k"
  shows "tickets next_flow n (tcp_splitter_new dest) ! k = tickets next_flow n (quic_acceptor_new dest) ! (k - 999999)"
proof -
  have "k - 999999 < n" using assms(1) by simp
  moreover have "k = (k - 999999) + 999999" using assms(2) by simp
  then have "(1 + word_of_nat k :: u32) = 1 + word_of_nat (k - 999999 + 999999)" by simp
  then have "(1 + word_of_nat k :: u32) = 1000000 + word_of_nat (k - 999999)" by (simp only: of_nat_add) simp
  ultimately show ?thesis using tcp_flow_nth [OF assms(1), of dest] quic_flow_nth [of "k - 999999" n dest] by simp
qed

text \<open>C35. Replies find the clients of the first 999,999 TCP connections of a node and no longer. Take a delivery for
  the \<open>k\<close>-th TCP connection of a node (counted from 0, and below \<open>2 ^ 32 - 1\<close>, where the numbers start
  again). For \<open>k < 999999\<close> it is handed to the TCP edge: the handler of that flow, if it has one and room in its
  channel, has the data appended to its channel and to what its client is going to read, and the QUIC edge does not
  change. From then on it is handed to the QUIC edge, whose stream number \<open>k - 999999\<close> has the same
  identifier: the client of that stream, if it is served there and has room, gets the data, and the TCP edge
  does not change.\<close>

theorem tcp_flows_meet_quic_flows:
  assumes "k < n" "n < 2 ^ 32" "ld_flow_id dl = tickets next_flow n (tcp_splitter_new dest) ! k"
    and "ac_ok TCP_CHANNEL (nd_tcp nd)" "ac_ok QUIC_CHANNEL (nd_quic nd)"
  shows "if k < 999999
    then nd_quic (dispatch dl nd) = nd_quic nd \<and>
      (\<forall>i q h. flow_view (ld_flow_id dl) i q h (nd_tcp nd) \<and> length q < TCP_CHANNEL \<longrightarrow>
         flow_view (ld_flow_id dl) i (q @ [ld_data dl]) (h @ [ld_data dl]) (nd_tcp (dispatch dl nd)))
    else nd_tcp (dispatch dl nd) = nd_tcp nd \<and>
      ld_flow_id dl = tickets next_flow n (quic_acceptor_new dest) ! (k - 999999) \<and>
      (\<forall>i q h. flow_view (ld_flow_id dl) i q h (nd_quic nd) \<and> length q < QUIC_CHANNEL \<longrightarrow>
         flow_view (ld_flow_id dl) i (q @ [ld_data dl]) (h @ [ld_data dl]) (nd_quic (dispatch dl nd)))"
proof (cases "k < 999999")
  case True
  then have "ld_flow_id dl < QUIC_FLOWS" using assms(1-3) tcp_flow_nth [of k n dest] tcp_flow_below [of k] by simp
  then have d: "dispatch dl nd = nd\<lparr>nd_tcp := deliver TCP_CHANNEL (ld_flow_id dl) (ld_data dl) (nd_tcp nd)\<rparr>"
    by (simp add: dispatch_def tcp_deliver_def)
  show ?thesis using True deliver_with_room [OF _ assms(4)] unfolding d by simp
next
  case False
  then have "\<not> ld_flow_id dl < QUIC_FLOWS" using assms(1-3) tcp_flow_nth [of k n dest] tcp_flow_below [of k] by simp
  then have d: "dispatch dl nd = nd\<lparr>nd_quic := deliver QUIC_CHANNEL (ld_flow_id dl) (ld_data dl) (nd_quic nd)\<rparr>"
    by (simp add: dispatch_def quic_deliver_def)
  have "ld_flow_id dl = tickets next_flow n (quic_acceptor_new dest) ! (k - 999999)"
    using same_identifier [OF assms(1)] False assms(3) by simp
  then show ?thesis using False deliver_with_room [OF _ assms(5)] unfolding d by simp
qed

text \<open>The millionth TCP client of a node is sent a reply, and the first QUIC client reads it.\<close>

theorem tcp_flows_meet_quic_flows_witness:
  "stream (ac_conns (nd_quic (dispatch
      \<lparr>ld_flow_id = tickets next_flow 1000000 (tcp_splitter_new ''lon'') ! 999999, ld_data = [7], ld_source = ''syd''\<rparr>
      (node_base demo_config\<lparr>nd_quic := open_flow (quic_acceptor_new ''lon'')\<rparr>))) ! 0) = [[7]]"
proof -
  let ?q = "open_flow (quic_acceptor_new ''lon'')" and ?f = "tickets next_flow 1000000 (tcp_splitter_new ''lon'') ! 999999"
  let ?dl = "\<lparr>ld_flow_id = ?f, ld_data = [7], ld_source = ''syd''\<rparr>" and ?nd = "node_base demo_config\<lparr>nd_quic := open_flow (quic_acceptor_new ''lon'')\<rparr>"
  have f: "?f = 1000000" by (subst tcp_flow_nth) simp_all
  have v: "flow_view ?f 0 [] [] ?q" unfolding f
    by (simp add: flow_view_def open_flow_fields quic_acceptor_new_def conn_new_def stream_def dm_get_def dm_insert_def)
  have ok: "ac_ok TCP_CHANNEL (nd_tcp ?nd)" "ac_ok QUIC_CHANNEL (nd_quic ?nd)"
    using ac_ok_new(1) ac_ok_open [OF ac_ok_new(2)] by (simp_all add: node_base_def Let_def)
  have h: "(999999 :: nat) < 1000000" "(1000000 :: nat) < 2 ^ 32" "ld_flow_id ?dl = ?f" by simp_all
  have "flow_view (ld_flow_id ?dl) 0 [] [] (nd_quic ?nd)" "length ([] :: bytes list) < QUIC_CHANNEL"
    using v by (simp_all add: QUIC_CHANNEL_def del: One_nat_def)
  moreover have "\<not> (999999 :: nat) < 999999" by simp
  ultimately
  have "flow_view (ld_flow_id ?dl) 0 ([] @ [ld_data ?dl]) ([] @ [ld_data ?dl]) (nd_quic (dispatch ?dl ?nd))"
    using tcp_flows_meet_quic_flows [OF h ok] unfolding if_not_P [OF \<open>\<not> (999999 :: nat) < 999999\<close>] by blast
  then show ?thesis by (simp add: flow_view_def)
qed

text \<open>C36. The flows of different nodes are one flow: the TCP edges of all nodes number their connections alike, and
  the source of a delivery is not looked at, so that what the \<open>k\<close>-th clients of two nodes send to a third
  node is written, interleaved, to the third node's own \<open>k\<close>-th client.\<close>

theorem flows_of_nodes_mix:
  assumes "k < n" "n < 999999"
    and "ld_flow_id x = tickets next_flow n (tcp_splitter_new dest1) ! k" "ld_source x = node1"
    and "ld_flow_id y = tickets next_flow n (tcp_splitter_new dest2) ! k" "ld_source y = node2"
    and "ac_ok TCP_CHANNEL (nd_tcp nd)"
    and "flow_view (tickets next_flow n (tcp_splitter_new dest3) ! k) i q h (nd_tcp nd)" "length q + 2 \<le> TCP_CHANNEL"
  shows "stream (ac_conns (nd_tcp (dispatch y (dispatch x nd))) ! i) = h @ [ld_data x, ld_data y]"
proof -
  define f :: u32 where "f = 1 + word_of_nat k"
  have ids: "ld_flow_id x = f" "ld_flow_id y = f" "flow_view f i q h (nd_tcp nd)"
    using assms(1,3,5,8) by (simp_all add: f_def tcp_flow_nth)
  have "f < QUIC_FLOWS" using tcp_flow_below [of k] assms(1,2) by (simp add: f_def)
  then have tcp: "nd_tcp (dispatch y (dispatch x nd)) =
      deliver TCP_CHANNEL f (ld_data y) (deliver TCP_CHANNEL f (ld_data x) (nd_tcp nd))"
    using ids by (simp add: dispatch_def tcp_deliver_def)
  have "flow_view f i (q @ [ld_data x]) (h @ [ld_data x]) (deliver TCP_CHANNEL f (ld_data x) (nd_tcp nd))"
    using flow_view_deliver [OF ids(3) assms(7), of f "ld_data x"] assms(9) by simp
  from flow_view_deliver [OF this deliver_ac_ok [OF assms(7)], of f "ld_data y"] assms(9)
  have "flow_view f i ((q @ [ld_data x]) @ [ld_data y]) ((h @ [ld_data x]) @ [ld_data y]) (nd_tcp (dispatch y (dispatch x nd)))"
    unfolding tcp by simp
  then show ?thesis by (simp add: flow_view_def)
qed

definition demo_node :: node where
  "demo_node = \<lparr>nd_fw = lon_forwarder, nd_peers = [], nd_buf = replicate MAX_PACKET 0, nd_inbox = [], nd_probes = [],
     nd_probe_ms = 500, nd_tcp = demo_edge, nd_quic = quic_acceptor_new ''lon''\<rparr>"

theorem flows_of_nodes_mix_witness:
  "stream (ac_conns (nd_tcp (dispatch \<lparr>ld_flow_id = 1, ld_data = [9], ld_source = ''sgp''\<rparr>
     (dispatch \<lparr>ld_flow_id = 1, ld_data = [7], ld_source = ''syd''\<rparr> demo_node))) ! 0) = [[7], [9]]"
  using flows_of_nodes_mix [of 0 1 "\<lparr>ld_flow_id = 1, ld_data = [7], ld_source = ''syd''\<rparr>" "''b''" "''syd''"
      "\<lparr>ld_flow_id = 1, ld_data = [9], ld_source = ''sgp''\<rparr>" "''b''" "''sgp''" demo_node "''a''" 0 "[]" "[]"] demo_edge_ok
  by (simp add: demo_node_def TCP_CHANNEL_def next_flow_def fetch_add_def tcp_splitter_new_def)

section \<open>The parity in use\<close>

text \<open>C38. The parity never adapts: in every state a node reaches, whatever was lost and measured, the sender to
  each peer still uses the shard counts of the configuration file; the loss tracker has no part in a
  running node.\<close>

theorem parity_never_adapts:
  assumes "env_ok d p env" "config_ok b64 c" "fec_config_of (cfg_relay c) = shards_cfg d p"
    and "mc_probe_interval_ms (cfg_mesh c) \<noteq> 0"
    and "node_new b64 c = Inr nd0" "node_reachable env nd0 nd" "dm_get (fw_senders (nd_fw nd)) peer = Some s"
  shows "snd_config s = fec_config_of (cfg_relay c)"
proof -
  have d: "0 < d" "d \<le> 256" using assms(1) by (simp_all add: env_ok_def rs_lawful_def)
  then have "node_ok d p nd0" using node_new_ok [OF assms(2,3) d assms(4)] assms(5) by (metis sum.inject(2))
  then have "fw_ok d p (nd_fw nd)"
    using node_reachable_ok [OF assms(6,1)] by (simp add: node_ok_def)
  from fw_okD(9) [OF this assms(7)] show ?thesis by (simp add: sender_ok_def assms(3))
qed

theorem parity_never_adapts_witness:
  "\<exists>nd0 s. node_new demo_b64 demo_config = Inr nd0 \<and> dm_get (fw_senders (nd_fw nd0)) ''lon'' = Some s \<and>
     snd_config s = fec_config_of (cfg_relay demo_config)"
proof -
  have no_senders: "dm_get [] k = None" for k :: node_name by (simp add: dm_get_def)
  have "\<exists>nd0 s. node_new demo_b64 demo_config = Inr nd0 \<and> dm_get (fw_senders (nd_fw nd0)) ''lon'' = Some s"
    by (simp add: node_new_def node_base_def demo_config_def add_peer_def add_tunnel_eq decode_key_def demo_b64_def tunnel_added_def
        or_insert_def forwarder_new_def fec_config_of_def no_senders Let_def)
  then obtain nd0 s where "node_new demo_b64 demo_config = Inr nd0" "dm_get (fw_senders (nd_fw nd0)) ''lon'' = Some s"
    by blast
  with parity_never_adapts [OF demo_env_ok demo_config_ok demo_fec demo_probe_ms this(1) node_reachable.start this(2)]
  show ?thesis by blast
qed

section \<open>FEC sizes that \<open>validate\<close> does not check\<close>

lemma flush_bad_config:
  assumes "rs_valid rs" "snd_config s = shards_cfg d p" "d = 0 \<or> p = 0 \<or> 256 < d + p"
  shows "flush rs s = Inl (Expect_Panic ''invalid FEC config'')"
  using assms by (auto simp: flush_def fec_encoder_new_def rs_valid_def Let_def)

lemma flush_senders_bad_config:
  assumes "rs_valid (env_rs env)" "d = 0 \<or> p = 0 \<or> 256 < d + p"
  shows "\<forall>(k, s) \<in> set ss. snd_config s = shards_cfg d p \<Longrightarrow> \<exists>(k, s) \<in> set ss. snd_buffer s \<noteq> [] \<Longrightarrow>
    flush_senders env ss fw = Inl (Expect_Panic ''invalid FEC config'')"
proof (induction ss arbitrary: fw)
  case Nil
  then show ?case by simp
next
  case (Cons a ss)
  obtain k s where a: "a = (k, s)" by fastforce
  have cfg: "snd_config s = shards_cfg d p" using Cons.prems(1) by (simp add: a)
  show ?case
  proof (cases "snd_buffer s = []")
    case True
    then show ?thesis using Cons by (simp add: a flush_partial_def)
  next
    case False
    then show ?thesis using flush_bad_config [OF assms(1) cfg assms(2)] by (simp add: a flush_partial_def)
  qed
qed

lemma set_dm_insert: "set (dm_insert k v m) \<subseteq> insert (k, v) (set m)"
  unfolding dm_insert_def by (induction m) auto

lemma node_new_fits:
  assumes "\<forall>peer \<in> set (cfg_peers c). \<exists>key. decode_key b64 peer = Inr key" "sender_fits (fec_config_of (cfg_relay c))"
  shows "\<exists>nd. node_new b64 c = Inr nd"
  using add_peers_total [OF assms(1), of "node_base c"] assms(2)
  by (auto simp: node_new_def node_base_def forwarder_new_def Let_def)

lemma node_new_too_big:
  assumes "cfg_peers c \<noteq> []" "\<forall>peer \<in> set (cfg_peers c). \<exists>key. decode_key b64 peer = Inr key"
    and "\<not> sender_fits (fec_config_of (cfg_relay c))"
  shows "node_new b64 c = Inl (Build_Panic Capacity_Panic)"
  using add_peers_too_big [OF assms(1,2), of "node_base c"] assms(3)
  by (simp add: node_new_def node_base_def forwarder_new_def Let_def)

text \<open>C37. A configuration with an impossible FEC code is accepted and kills the node: \<open>validate\<close> does not look at
  the shard counts. With no data shards, no parity shards or more than 256 in all, the node is built as long as the
  buffers of a sender stay within \<open>isize::MAX\<close> bytes (24 for each data shard; that the memory can then be
  had is taken for granted, otherwise the process aborts here), and its forwarder panics at the first data, with the
  first message sent to a routable node, at once or at the next tick of the 5 ms timer.  With more data shards
  than that the first peer's sender is too large, and the program panics while it starts.\<close>

theorem unchecked_fec_config_panics:
  assumes "config_ok b64 c" "fec_config_of (cfg_relay c) = shards_cfg d p" "d = 0 \<or> p = 0 \<or> 256 < d + p"
    and "rs_valid (env_rs env)"
    and "routable env fw dest" "\<forall>(k, s) \<in> set (fw_senders fw). snd_config s = fec_config_of (cfg_relay c)"
  shows "validate b64 c = Inr () \<and>
    (if d * 24 < 2 ^ 63 then \<exists>nd. node_new b64 c = Inr nd else node_new b64 c = Inl (Build_Panic Capacity_Panic)) \<and>
    fw_run env [Ev_Send dest f x, Ev_Flush now] fw = Some (Inl (Expect_Panic ''invalid FEC config''))"
proof -
  obtain r i s where hop: "next_hop (env_pop env) (fw_router fw) dest = Some (Inr (Some r))"
    "dm_get (fw_tunnels fw) (next_hop_node r) = Some i" "dm_get (fw_senders fw) (next_hop_node r) = Some s"
    using assms(5) by (auto simp: routable_def)
  have cfg: "snd_config s = shards_cfg d p" using dm_get_SomeD [OF hop(3)] assms(2,6) by fastforce
  define s1 where "s1 = s\<lparr>snd_payload_lens := snd_payload_lens s @ [word_of_nat (length (encode_relay_header f dest x))],
     snd_buffer := snd_buffer s @ [encode_relay_header f dest x]\<rparr>"
  have s1: "snd_config s1 = shards_cfg d p" "snd_buffer s1 \<noteq> []" using cfg by (simp_all add: s1_def)
  have sub: "submit (env_rs env) (encode_relay_header f dest x) s = (if d \<le> length (snd_buffer s1)
      then Inl (Expect_Panic ''invalid FEC config'') else Inr (None, s1))"
    using flush_bad_config [OF assms(4) s1(1) assms(3)] cfg by (simp add: submit_def Let_def s1_def)
  have run: "fw_run env [Ev_Send dest f x, Ev_Flush now] fw = Some (Inl (Expect_Panic ''invalid FEC config''))"
  proof (cases "d \<le> length (snd_buffer s1)")
    case True
    then show ?thesis using sub hop by (simp add: fw_step_def send_to_node_def forward_to_def)
  next
    case False
    let ?fw = "fw\<lparr>fw_senders := dm_insert (next_hop_node r) s1 (fw_senders fw)\<rparr>"
    have "(next_hop_node r, s1) \<in> set (fw_senders ?fw)" by (rule dm_get_SomeD) simp
    moreover have "set (fw_senders ?fw) \<subseteq> insert (next_hop_node r, s1) (set (fw_senders fw))"
      using set_dm_insert by simp
    ultimately have "flush_senders env (fw_senders ?fw) ?fw = Inl (Expect_Panic ''invalid FEC config'')"
      using s1 assms(2,6) by (intro flush_senders_bad_config [OF assms(4,3)]) fastforce+
    then show ?thesis using False sub hop
      by (simp add: fw_step_def send_to_node_def forward_to_def flush_fec_def)
  qed
  have keys: "\<forall>peer \<in> set (cfg_peers c). \<exists>key. decode_key b64 peer = Inr key" "cfg_peers c \<noteq> []"
    using assms(1) by (auto simp: config_ok_def decode_key_Inr_iff)
  show ?thesis using run assms(1) node_new_fits [OF keys(1)] node_new_too_big [OF keys(2,1)] assms(2)
    by (auto simp: validate_Inr_iff sender_fits_def)
qed

definition zero_parity_config :: config where
  "zero_parity_config = demo_config\<lparr>cfg_relay := \<lparr>rc_default_dest = ''lon'', rc_fec_data_shards = Some 2,
     rc_fec_parity_shards = Some 0\<rparr>\<rparr>"

definition zero_parity_forwarder :: forwarder where
  "zero_parity_forwarder = (tunnel_added ''lon'' demo_tunnel (fresh_forwarder ''syd'' (shards_cfg 2 0)))
     \<lparr>fw_prober := fw_prober measured_forwarder\<rparr>"

theorem unchecked_fec_config_panics_witness:
  "validate demo_b64 zero_parity_config = Inr () \<and>
   fw_run demo_env [Ev_Send ''lon'' 1 [7], Ev_Flush 5] zero_parity_forwarder =
     Some (Inl (Expect_Panic ''invalid FEC config''))"
proof -
  have c: "config_ok demo_b64 zero_parity_config"
    using demo_config_ok by (simp add: config_ok_def zero_parity_config_def)
  have f: "fec_config_of (cfg_relay zero_parity_config) = shards_cfg 2 0"
    by (simp add: fec_config_of_def zero_parity_config_def)
  have n: "fw_router_node measured_forwarder = ''syd''"
    by (simp add: measured_forwarder_def demo_forwarder_def tunnel_added_def fresh_forwarder_def forwarder_new_def)
  then have r: "fw_router zero_parity_forwarder = fw_router measured_forwarder"
    by (simp add: fw_router_def zero_parity_forwarder_def tunnel_added_def fresh_forwarder_def forwarder_new_def)
  have s: "fw_senders zero_parity_forwarder = [(''lon'', empty_sender (shards_cfg 2 0))]"
    "fw_tunnels zero_parity_forwarder = [(''lon'', 0)]"
    by (simp_all add: zero_parity_forwarder_def tunnel_added_def fresh_forwarder_def forwarder_new_def or_insert_def
        dm_insert_def)
  have "routable demo_env zero_parity_forwarder ''lon''"
    using measured_hop(1) unfolding routable_def r s by (force simp: dm_get_def)
  from unchecked_fec_config_panics [OF c f _ _ this, of 1 "[7]" 5] show ?thesis
    by (simp add: f s rs_valid_xor empty_sender_def)
qed

section \<open>A probe interval that \<open>validate\<close> does not check\<close>

lemma receive_turn_probes:
  assumes "receive_turn env e nd = Inr nd'"
  shows "nd_probes nd' = nd_probes nd \<and> nd_probe_ms nd' = nd_probe_ms nd \<and> nd_peers nd' = nd_peers nd \<and>
    nd_tcp nd' = nd_tcp nd"
proof (cases "INBOX_SIZE \<le> length (nd_inbox nd) \<or> e = Recv_Error")
  case True
  then show ?thesis using assms by (auto simp: receive_turn_def split: if_splits)
next
  case False
  then obtain dgram src where e: "e = Recv_Dgram dgram src" by (cases e) auto
  with False assms obtain res buf
    where "recv_multi (env_aead env) (nd_peers nd) dgram src (nd_buf nd) = Inr (res, buf)"
    by (cases "recv_multi (env_aead env) (nd_peers nd) dgram src (nd_buf nd)") (auto simp: receive_turn_def)
  then show ?thesis using False assms by (cases res) (auto simp: receive_turn_def e)
qed

lemma node_step_probes:
  "node_step env e nd = Some (Inr nd') \<Longrightarrow>
   nd_probes nd' = nd_probes nd \<and> nd_probe_ms nd' = nd_probe_ms nd \<and> nd_peers nd' = nd_peers nd"
  by (auto simp: node_step_def dispatch_turn_def dispatch_def fw_turn_def obind_Some_Inr
      split: node_event.splits list.splits prod.splits if_splits dest!: receive_turn_probes)

lemma node_reachable_probes:
  "node_reachable env nd0 nd \<Longrightarrow> nd_probes nd = nd_probes nd0 \<and> nd_probe_ms nd = nd_probe_ms nd0"
  by (induction rule: node_reachable.induct) (auto dest: node_step_probes)

lemma add_peers_probes:
  "add_peers b64 peers nd = Inr nd' \<Longrightarrow>
   length (nd_probes nd') = length (nd_probes nd) + length peers \<and> nd_probe_ms nd' = nd_probe_ms nd"
  by (induction peers arbitrary: nd) (fastforce simp: peer_added_def rbind_eq_Inr_iff elim: add_peer_InrE)+

lemma node_new_probes:
  assumes "node_new b64 c = Inr nd"
  shows "length (nd_probes nd) = length (cfg_peers c) \<and> nd_probe_ms nd = mc_probe_interval_ms (cfg_mesh c)"
proof -
  obtain nd1 where "add_peers b64 (cfg_peers c) (node_base c) = Inr nd1"
    and nd: "nd = nd1 \<or> nd = node_with_tls nd1"
    using assms by (auto simp: node_new_def rbind_eq_Inr_iff split: option.splits)
  from add_peers_probes [OF this(1)] nd show ?thesis by (auto simp: node_base_def node_with_tls_def Let_def)
qed

text \<open>A probe interval of zero is accepted and stops every probe: \<open>validate\<close> does not look at
  \<open>probe_interval_ms\<close>, the node is built with a probe loop for each of its peers (there is at least
  one), and whenever one of them gets its first turn it panics, so that no link is ever measured; the
  release build aborts the whole process.\<close>

theorem zero_probe_interval_panics:
  assumes "config_ok b64 c" "mc_probe_interval_ms (cfg_mesh c) = 0" "sender_fits (fec_config_of (cfg_relay c))"
  shows "validate b64 c = Inr () \<and>
    (\<exists>nd0. node_new b64 c = Inr nd0 \<and> nd_probes nd0 \<noteq> [] \<and> length (nd_probes nd0) = length (cfg_peers c) \<and>
      (\<forall>nd now k. node_reachable env nd0 nd \<and> k < length (nd_probes nd0) \<longrightarrow>
         node_step env (Nd_Probe now k) nd = Some (Inl zero_period)))"
proof -
  have "\<forall>peer \<in> set (cfg_peers c). \<exists>key. decode_key b64 peer = Inr key"
    using assms(1) by (auto simp: config_ok_def decode_key_Inr_iff)
  then obtain nd0 where nd0: "node_new b64 c = Inr nd0"
    using node_new_fits assms(3) by blast
  note len = node_new_probes [OF nd0]
  moreover have "nd_probes nd0 \<noteq> []" using len assms(1) by (auto simp: config_ok_def)
  moreover have "node_step env (Nd_Probe now k) nd = Some (Inl zero_period)"
    if "node_reachable env nd0 nd" "k < length (nd_probes nd0)" for nd now k
    using node_reachable_probes [OF that(1)] that(2) len assms(2) by (simp add: node_step_def)
  ultimately show ?thesis using nd0 assms(1) by (simp add: validate_Inr_iff)
qed

definition zero_interval_config :: config where
  "zero_interval_config = demo_config\<lparr>cfg_mesh := \<lparr>mc_probe_interval_ms = 0\<rparr>\<rparr>"

theorem zero_probe_interval_panics_witness:
  "validate demo_b64 zero_interval_config = Inr () \<and>
   (\<exists>nd0. node_new demo_b64 zero_interval_config = Inr nd0 \<and>
      node_step demo_env (Nd_Probe 5 0) nd0 = Some (Inl zero_period))"
proof -
  have "config_ok demo_b64 zero_interval_config" "mc_probe_interval_ms (cfg_mesh zero_interval_config) = 0"
    "sender_fits (fec_config_of (cfg_relay zero_interval_config))"
    using demo_config_ok demo_fec by (simp_all add: config_ok_def zero_interval_config_def)
  from zero_probe_interval_panics [OF this, of demo_env] show ?thesis
    by (metis length_greater_0_conv node_reachable.start)
qed

end
