(* ===== verification/Timer_Delivery.thy ===== *)
theory Timer_Delivery
  imports End_To_End
begin

text \<open>
  Messages that do not fill a block wait in the sender for the forwarder's timer.  One tick sends
  them: a partial block leaves padded to a full one and arrives like a full one.
\<close>

section \<open>A tick of the timer\<close>

lemma flush_senders_task:
  "flush_senders env ss fw = Inr fw' \<Longrightarrow>
   fw_tunnels fw' = fw_tunnels fw \<and> fw_arena fw' = fw_arena fw \<and> fw_sent fw' = fw_sent fw \<and>
   (\<exists>new. fw_tasks fw' = fw_tasks fw @ new \<and>
     ((k, s) \<in> set ss \<and> flush_partial (env_rs env) s = Inr (Some shards, s') \<and> dm_get (fw_tunnels fw) k = Some i \<longrightarrow>
        (i, shards) \<in> set new))"
proof (induction ss arbitrary: fw)
  case Nil
  then show ?case by simp
next
  case (Cons x ss)
  obtain k1 s1 where x: "x = (k1, s1)" by (cases x)
  obtain out s1' where fp: "flush_partial (env_rs env) s1 = Inr (out, s1')"
    using Cons.prems by (auto simp: x rbind_eq_Inr_iff)
  define new1 where "new1 = (case out of None \<Rightarrow> [] | Some shards \<Rightarrow>
      (case dm_get (fw_tunnels fw) k1 of None \<Rightarrow> [] | Some i \<Rightarrow> [(i, shards)]))"
  define fw1 where "fw1 = fw\<lparr>fw_senders := dm_insert k1 s1' (fw_senders fw), fw_tasks := fw_tasks fw @ new1\<rparr>"
  have "flush_senders env ss fw1 = Inr fw'"
    using Cons.prems fp by (simp add: x Let_def fw1_def new1_def split: option.splits)
  from Cons.IH [OF this] obtain new where
    fw': "fw_tunnels fw' = fw_tunnels fw" "fw_arena fw' = fw_arena fw" "fw_sent fw' = fw_sent fw"
      "fw_tasks fw' = fw_tasks fw @ new1 @ new"
      and new: "(k, s) \<in> set ss \<and> flush_partial (env_rs env) s = Inr (Some shards, s') \<and> dm_get (fw_tunnels fw) k = Some i \<longrightarrow>
        (i, shards) \<in> set new"
    by (auto simp: fw1_def)
  have "(i, shards) \<in> set (new1 @ new)"
    if "(k, s) \<in> set (x # ss)" "flush_partial (env_rs env) s = Inr (Some shards, s')" "dm_get (fw_tunnels fw) k = Some i"
    using that new fp by (auto simp: x new1_def)
  with fw' show ?case by (intro conjI exI [of _ "new1 @ new"]) auto
qed

lemma flush_fec_task:
  assumes "env_ok d p env" "fw_ok d p fw" "dm_get (fw_senders fw) k = Some s" "dm_get (fw_tunnels fw) k = Some i"
    and "flush_partial (env_rs env) s = Inr (Some shards, s')"
  obtains fw' j where "flush_fec env now fw = Inr fw'" and "fw_arena fw' = fw_arena fw" and "fw_sent fw' = fw_sent fw"
    and "length (fw_tasks fw) \<le> j" and "j < length (fw_tasks fw')" and "fw_tasks fw' ! j = (i, shards)"
proof -
  have "\<forall>(k, s) \<in> set (fw_senders fw). sender_ok d p s"
    using fw_okD(8,9) [OF assms(2)] dm_get_in_set by fastforce
  then obtain fw1 where fw1: "flush_senders env (fw_senders fw) fw = Inr fw1"
    using flush_senders_total [OF assms(1,2)] by blast
  have "(k, s) \<in> set (fw_senders fw)" using dm_get_SomeD [OF assms(3)] .
  with flush_senders_task [OF fw1, of k s shards s' i] assms(4,5) obtain new
    where "fw_tasks fw1 = fw_tasks fw @ new" "(i, shards) \<in> set new"
      and eq: "fw_arena fw1 = fw_arena fw" "fw_sent fw1 = fw_sent fw"
    by auto
  then obtain m where "m < length new" "new ! m = (i, shards)" by (auto simp: in_set_conv_nth)
  then show thesis
    using fw1 eq \<open>fw_tasks fw1 = fw_tasks fw @ new\<close>
    by (intro that [of "fw1\<lparr>fw_receivers := map (\<lambda>(k, r). (k, expire_old now 500 r)) (fw_receivers fw1)\<rparr>"
          "length (fw_tasks fw) + m"]) (simp_all add: flush_fec_def nth_append)
qed

section \<open>A partial block\<close>

lemma fw_run_append: "fw_run env (es @ fs) fw = obind (fw_run env es fw) (fw_run env fs)"
proof (induction es arbitrary: fw)
  case (Cons e es)
  show ?case
  proof (cases "fw_step env e fw")
    case (Some o')
    with Cons.IH show ?thesis by (cases o') simp_all
  qed simp
qed simp

lemma partial_burst:
  assumes env: "env_ok d p env" and ok: "fw_ok d p A"
    and hop: "next_hop (env_pop env) (fw_router A) dest = Some (Inr (Some r))"
      "dm_get (fw_tunnels A) (next_hop_node r) = Some i" "dm_get (fw_senders A) (next_hop_node r) = Some s"
    and ps: "snd_buffer s = []" "length ps < d"
  obtains s' where "fw_run env (send_events dest ps) A =
      Some (Inr (A\<lparr>fw_senders := dm_insert (next_hop_node r) s' (fw_senders A)\<rparr>))"
    and "snd_buffer s' = relay_payloads dest ps" and "snd_block_id s' = snd_block_id s" and "snd_config s' = shards_cfg d p"
proof -
  have law: "rs_lawful (env_rs env) d p" using env by (simp add: env_ok_def)
  have cfg: "snd_config s = shards_cfg d p" using fw_okD(9) [OF ok hop(3)] by (simp add: sender_ok_def)
  let ?xs = "relay_payloads dest ps"
  have len: "length ?xs < d" using ps by (simp add: relay_payloads_def)
  have "\<exists>Y s'. submit_all (env_rs env) ?xs s = Inr (map (frames_of d p (snd_block_id s) Y) [0..<0], s') \<and>
      (\<forall>j<0. codeword (env_rs env) d p (block_of d ?xs j) (Y j)) \<and> snd_buffer s' = drop (0 * d) ?xs \<and>
      snd_block_id s' = snd_block_id s + word_of_nat 0 \<and> snd_config s' = shards_cfg d p"
    using cfg len ps by (intro submit_all_blocks [OF law]) simp_all
  then obtain s' where "submit_all (env_rs env) ?xs s = Inr ([], s')" "snd_buffer s' = ?xs"
    "snd_block_id s' = snd_block_id s" "snd_config s' = shards_cfg d p" by auto
  with burst_run [OF hop this(1)] show thesis by (intro that [of s']) simp_all
qed

lemma partial_datagrams:
  assumes env: "env_ok d p env" and A: "fw_ok d p A"
    and hop: "next_hop (env_pop env) (fw_router A) dest = Some (Inr (Some r))"
      "dm_get (fw_tunnels A) (next_hop_node r) = Some i" "dm_get (fw_senders A) (next_hop_node r) = Some s"
    and ps: "snd_buffer s = []" "ps \<noteq> []" "length ps < d" "\<forall>b \<in> set (relay_payloads dest ps). length b \<le> 20000"
  obtains ys A1 j A2 fs where "codeword (env_rs env) d p (relay_payloads dest ps) ys"
    and "fw_run env (send_events dest ps @ [Ev_Flush now]) A = Some (Inr A1)" and "length (fw_tasks A) \<le> j"
    and "fw_run env (replicate (d + p) (Ev_Task j)) A1 = Some (Inr A2)"
    and "fw_sent A2 = fw_sent A @ map (Pair (tun_peer_addr (fw_arena A ! i))) fs" and "length fs = d + p"
    and "\<And>m. m < d + p \<Longrightarrow> frame_for (env_aead env) (tun_crypto (fw_arena A ! i))
      (tun_tx_seq (fw_arena A ! i) + word_of_nat m) (shard_frame (shards_cfg d p) (snd_block_id s) ys m) (fs ! m)"
proof -
  let ?bs = "relay_payloads dest ps"
  obtain s' where burst: "fw_run env (send_events dest ps) A =
      Some (Inr (A\<lparr>fw_senders := dm_insert (next_hop_node r) s' (fw_senders A)\<rparr>))"
    and s': "snd_buffer s' = ?bs" "snd_block_id s' = snd_block_id s" "snd_config s' = shards_cfg d p"
    using partial_burst [OF env A hop ps(1,3)] .
  define A0 where "A0 = A\<lparr>fw_senders := dm_insert (next_hop_node r) s' (fw_senders A)\<rparr>"
  have law: "rs_lawful (env_rs env) d p" using env by (simp add: env_ok_def)
  have bs: "?bs \<noteq> []" "length ?bs < d" using ps(2,3) by (simp_all add: relay_payloads_def)
  have "sender_ok d p s'" using s' bs ps(4) by (auto simp: sender_ok_def small_def)
  then have ok: "fw_ok d p A0" unfolding A0_def by (rule fw_ok_sender [OF A])
  obtain ys where code: "codeword (env_rs env) d p ?bs ys"
    and "flush (env_rs env) s' = Inr (map (shard_frame (shards_cfg d p) (snd_block_id s) ys) [0..<d + p],
           s'\<lparr>snd_block_id := snd_block_id s' + 1, snd_buffer := [], snd_payload_lens := []\<rparr>)"
    using flush_ok [OF law s'(3)] s' bs by auto
  then have fp: "flush_partial (env_rs env) s' = Inr (Some (map (shard_frame (shards_cfg d p) (snd_block_id s) ys) [0..<d + p]),
           s'\<lparr>snd_block_id := snd_block_id s' + 1, snd_buffer := [], snd_payload_lens := []\<rparr>)"
    using s'(1) bs(1) by (simp add: flush_partial_def)
  define F where "F = map (shard_frame (shards_cfg d p) (snd_block_id s) ys) [0..<d + p]"
  have lF: "length F = d + p" by (simp add: F_def)
  have small: "\<forall>(ty, x) \<in> set F. length x < 2 ^ 15"
    unfolding F_def using code bs(1) ps(4) by (rule shard_frames_small)
  have g: "dm_get (fw_senders A0) (next_hop_node r) = Some s'" "dm_get (fw_tunnels A0) (next_hop_node r) = Some i"
    using hop(2) by (simp_all add: A0_def)
  obtain A1 j where flush: "flush_fec env now A0 = Inr A1" "fw_arena A1 = fw_arena A0" "fw_sent A1 = fw_sent A0"
    and j: "length (fw_tasks A0) \<le> j" "j < length (fw_tasks A1)" "fw_tasks A1 ! j = (i, F)"
    using flush_fec_task [OF env ok g fp, of now] unfolding F_def .
  have i: "i < length (fw_arena A1)" "tunnel_ok (fw_arena A1 ! i)"
    using fw_okD(7) [OF A hop(2)] fw_okD(6) [OF A] flush(2) by (simp_all add: A0_def)
  obtain A2 fs where task: "fw_run env (replicate (d + p) (Ev_Task j)) A1 = Some (Inr A2)"
    "fw_sent A2 = fw_sent A1 @ map (Pair (tun_peer_addr (fw_arena A1 ! i))) fs" "length fs = d + p"
    and frames: "\<And>m. m < d + p \<Longrightarrow> frame_for (env_aead env) (tun_crypto (fw_arena A1 ! i))
           (tun_tx_seq (fw_arena A1 ! i) + word_of_nat m) (F ! m) (fs ! m)"
    using block_task [OF env i(2,1) j(2,3) small] unfolding lF by metis
  have run: "fw_run env (send_events dest ps @ [Ev_Flush now]) A = Some (Inr A1)"
    using burst flush(1) by (simp add: fw_run_append fw_step_def A0_def)
  show thesis
    by (rule that [OF code run _ task(1) _ task(3)])
      (use j(1) task(2) frames flush(2,3) in \<open>simp_all add: A0_def F_def\<close>)
qed

section \<open>Property\<close>

text \<open>C5. Small messages wait no longer than a tick: a burst of fewer than \<open>d\<close> messages, each with the name of node B (at most 255 bytes) at most
  1386 bytes (longer ones lose the block, as in C34), given to an empty sender, stays in the sender, and the
  next tick of the timer spawns a task, among those of the other peers' partial blocks, that sends them as one padded
  block of \<open>d + p\<close> datagrams; whichever of these arrive, in whatever order, as long as at least \<open>d\<close> and fewer than
  \<open>2 * d\<close> do and B holds nothing of the block, B hands exactly the messages of the burst to its edge, in order, once.\<close>

theorem timer_delivers_partial_block:
  assumes env: "env_ok d p env" and A: "fw_ok d p A"
    and hop: "next_hop (env_pop env) (fw_router A) dest = Some (Inr (Some r))"
      "dm_get (fw_tunnels A) (next_hop_node r) = Some i" "dm_get (fw_senders A) (next_hop_node r) = Some s"
    and ps: "snd_buffer s = []" "ps \<noteq> []" "length ps < d" "\<forall>(f, x) \<in> set ps. length dest + length x \<le> 1386"
    and dest: "length dest \<le> 255" "utf8_valid (str_bytes dest)"
    and peer: "dm_get peers addr = Some (a, tun_crypto (fw_arena A ! i))"
    and B: "fw_node_id B = dest" "fw_local_open B" "dm_get (fw_receivers B) a = Some rcv"
      "dm_get (rcv_blocks rcv) (snd_block_id s) = None"
    and sel: "distinct (map snd sel)" "set (map snd sel) \<subseteq> {..<d + p}" "d \<le> length sel" "length sel < 2 * d"
  shows "\<exists>A1 j A2 fs pkts B'.
    fw_run env (send_events dest ps @ [Ev_Flush now]) A = Some (Inr A1) \<and> length (fw_tasks A) \<le> j \<and>
    fw_run env (replicate (d + p) (Ev_Task j)) A1 = Some (Inr A2) \<and>
    fw_sent A2 = fw_sent A @ map (Pair (tun_peer_addr (fw_arena A ! i))) fs \<and> length fs = d + p \<and>
    receive_loop_multi (env_aead env) peers (\<lambda>_. True) (map (\<lambda>(t, m). Recv_Dgram (fs ! m) addr) sel) 0
      (replicate MAX_PACKET 0) = Inr (map (Pair a) pkts) \<and>
    fw_run env (packet_events a (zip (map fst sel) pkts)) B = Some (Inr B') \<and>
    fw_local B' = fw_local B @ map (\<lambda>(f, x). \<lparr>ld_flow_id = f, ld_data = x, ld_source = a\<rparr>) ps"
proof -
  let ?t = "fw_arena A ! i"
  have "\<forall>b \<in> set (relay_payloads dest ps). length b \<le> 20000"
    using relay_payload_facts(2) [OF dest ps(4)] by fastforce
  from partial_datagrams [OF env A hop ps(1-3) this, of now] obtain ys A1 j A2 fs
    where code: "codeword (env_rs env) d p (relay_payloads dest ps) ys"
      and runs: "fw_run env (send_events dest ps @ [Ev_Flush now]) A = Some (Inr A1)" "length (fw_tasks A) \<le> j"
        "fw_run env (replicate (d + p) (Ev_Task j)) A1 = Some (Inr A2)"
        "fw_sent A2 = fw_sent A @ map (Pair (tun_peer_addr ?t)) fs" "length fs = d + p"
      and frames: "\<And>m. m < d + p \<Longrightarrow> frame_for (env_aead env) (tun_crypto ?t) (tun_tx_seq ?t + word_of_nat m)
          (shard_frame (shards_cfg d p) (snd_block_id s) ys m) (fs ! m)"
    by metis
  from block_arrives [OF code ps(2,4) dest frames peer B sel] runs show ?thesis by metis
qed

theorem timer_delivers_partial_block_witness:
  "\<exists>A1 j A2 fs pkts B'.
    fw_run demo_env [Ev_Send ''lon'' 7 [1, 2], Ev_Flush 5] measured_forwarder = Some (Inr A1) \<and>
    fw_run demo_env (replicate 3 (Ev_Task j)) A1 = Some (Inr A2) \<and> fw_sent A2 = map (Pair (1, 9000)) fs \<and>
    receive_loop_multi demo_aead [((2, 9001), (''syd'', tun_crypto demo_tunnel))] (\<lambda>_. True)
      [Recv_Dgram (fs ! 2) (2, 9001), Recv_Dgram (fs ! 0) (2, 9001)] 0 (replicate MAX_PACKET 0) =
      Inr (map (Pair ''syd'') pkts) \<and>
    fw_run demo_env (packet_events ''syd'' (zip [30, 31] pkts)) lon_forwarder = Some (Inr B') \<and>
    fw_local B' = [\<lparr>ld_flow_id = 7, ld_data = [1, 2], ld_source = ''syd''\<rparr>]"
proof -
  have peer: "dm_get [((2, 9001), (''syd'', tun_crypto demo_tunnel))] (2, 9001) =
      Some (''syd'', tun_crypto (fw_arena measured_forwarder ! 0))"
    by (simp add: dm_get_def measured_hop)
  have tun: "dm_get (fw_tunnels measured_forwarder) (next_hop_node \<lparr>next_hop_node = ''lon'', total_rtt = 50000000,
      route_path = [''syd'', ''lon'']\<rparr>) = Some 0"
    and snd: "dm_get (fw_senders measured_forwarder) (next_hop_node \<lparr>next_hop_node = ''lon'', total_rtt = 50000000,
      route_path = [''syd'', ''lon'']\<rparr>) = Some (empty_sender (shards_cfg 2 1))"
    by (simp_all add: measured_hop)
  from timer_delivers_partial_block [OF demo_env_ok measured_forwarder_ok measured_hop(1) tun snd _ _ _ _ _ _ peer
      lon_forwarder_simps(1,2,4), of "[(7, [1, 2])]" "[(30, 2), (31, 0)]" 5]
  show ?thesis
    by (simp add: measured_hop str_lon lon_forwarder_simps empty_sender_def fec_receiver_new_def send_events_def
        del: receive_loop_multi.simps fw_run.simps) blast
qed

end
