(* ===== verification/Node_Schedules.thy ===== *)
theory Node_Schedules
  imports Node_Props Timer_Delivery
begin

text \<open>
  Runs of a whole node over any schedule of its tasks.  A step is split into what it does to the inbound
  pipeline (receive loop, queue, forwarder, local deliveries) and to the TCP edge: every task but four
  leaves the pipeline alone and moves the edge by a step of its own.
\<close>

section \<open>Runs\<close>

fun node_run :: "env \<Rightarrow> node_event list \<Rightarrow> node \<Rightarrow> node run" where
  "node_run env [] nd = Some (Inr nd)"
| "node_run env (e # es) nd = obind (node_step env e nd) (node_run env es)"

lemma node_run_append: "node_run env (es @ fs) nd = obind (node_run env es nd) (node_run env fs)"
proof (induction es arbitrary: nd)
  case (Cons e es)
  show ?case
  proof (cases "node_step env e nd")
    case (Some o')
    with Cons.IH show ?thesis by (cases o') simp_all
  qed simp
qed simp

lemma node_fw_run:
  "fw_run env (map Ev_Task js) (nd_fw nd) = Some (Inr fw') \<Longrightarrow>
   node_run env (map Nd_Task js) nd = Some (Inr (nd\<lparr>nd_fw := fw'\<rparr>))"
proof (induction js arbitrary: nd)
  case Nil
  then show ?case by simp
next
  case (Cons j js)
  then obtain fw1 where step: "fw_step env (Ev_Task j) (nd_fw nd) = Some (Inr fw1)"
    "fw_run env (map Ev_Task js) fw1 = Some (Inr fw')"
    by (auto simp: obind_Some_Inr)
  then have "node_run env (map Nd_Task js) (nd\<lparr>nd_fw := fw1\<rparr>) = Some (Inr (nd\<lparr>nd_fw := fw'\<rparr>))"
    using Cons.IH [of "nd\<lparr>nd_fw := fw1\<rparr>"] by simp
  with step(1) show ?case by (simp add: node_step_def fw_turn_def)
qed

section \<open>The inbound half of a forwarder\<close>

definition fw_inbound :: "forwarder \<Rightarrow> node_name \<times> bool \<times> (node_name, fec_receiver) dmap \<times> local_delivery list" where
  "fw_inbound fw = (fw_node_id fw, fw_local_open fw, fw_receivers fw, fw_local fw)"

lemma fw_inbound_upd [simp]:
  "fw_inbound (fw\<lparr>fw_arena := a\<rparr>) = fw_inbound fw" "fw_inbound (fw\<lparr>fw_sent := b\<rparr>) = fw_inbound fw"
  "fw_inbound (fw\<lparr>fw_tasks := c\<rparr>) = fw_inbound fw" "fw_inbound (fw\<lparr>fw_senders := d\<rparr>) = fw_inbound fw"
  "fw_inbound (fw\<lparr>fw_prober := e\<rparr>) = fw_inbound fw"
  by (simp_all add: fw_inbound_def)

lemma tunnel_send_inbound: "tunnel_send env i ty x fw = Inr (ok, fw') \<Longrightarrow> fw_inbound fw' = fw_inbound fw"
  by (auto simp: tunnel_send_def Let_def rbind_eq_Inr_iff)

lemma forward_to_inbound:
  "forward_to env dest x fw = Some (Inr (res, fw')) \<Longrightarrow> fw_inbound fw' = fw_inbound fw"
  using tunnel_send_inbound
  by (fastforce simp: forward_to_def obind_Some_Inr Let_def split: option.splits prod.splits)

lemma flush_senders_inbound:
  "flush_senders env ss fw = Inr fw' \<Longrightarrow> fw_inbound fw' = fw_inbound fw"
proof (induction ss arbitrary: fw)
  case Nil
  then show ?case by simp
next
  case (Cons x ss)
  obtain k s where x: "x = (k, s)" by (cases x)
  obtain out s' where "flush_partial (env_rs env) s = Inr (out, s')"
    using Cons.prems by (auto simp: x rbind_eq_Inr_iff)
  with Cons.prems Cons.IH show ?case by (auto simp: x Let_def split: option.splits)
qed

lemma task_step_inbound:
  assumes "task_step env j fw = Inr fw'"
  shows "fw_inbound fw' = fw_inbound fw"
proof (cases "j < length (fw_tasks fw) \<and> snd (fw_tasks fw ! j) \<noteq> []")
  case False
  then show ?thesis using assms by (cases "fw_tasks fw ! j") (auto simp: task_step_def split: if_splits)
next
  case True
  then obtain i ty shard rest where j: "fw_tasks fw ! j = (i, (ty, shard) # rest)"
    by (metis list.exhaust prod.exhaust_sel)
  with True assms obtain ok fw1 where "tunnel_send env i ty shard fw = Inr (ok, fw1)"
    and "fw' = fw1\<lparr>fw_tasks := (fw_tasks fw1)[j := (i, rest)]\<rparr>"
    by (auto simp: task_step_def rbind_eq_Inr_iff)
  then show ?thesis using tunnel_send_inbound by simp
qed

lemma map_sum_snd_Inr: "map_sum id snd r = Inr y \<Longrightarrow> \<exists>x. r = Inr (x, y)"
  by (cases r) auto

lemma probe_inbound:
  assumes "fw_step env (Ev_Probe now peer i) fw = Some (Inr fw')"
  shows "fw_inbound fw' = fw_inbound fw"
proof -
  obtain payload pr where c: "create_ping now peer (fw_prober fw) = (payload, pr)" by fastforce
  let ?s = "tunnel_send env i PACKET_PING payload (fw\<lparr>fw_prober := pr\<rparr>)"
  have "Some (map_sum id snd ?s) = Some (Inr fw')"
    using assms unfolding fw_step_def fw_event.case c prod.case .
  then have "map_sum id snd ?s = Inr fw'" by (rule option.inject [THEN iffD1])
  then obtain ok where "?s = Inr (ok, fw')" by (metis map_sum_snd_Inr)
  from tunnel_send_inbound [OF this] show ?thesis by simp
qed

lemma send_next_inbound:
  assumes "send_next env i (s, fw) = Some (Inr (s', fw'))"
  shows "fw_inbound fw' = fw_inbound fw \<and> (s' = s \<or> (\<exists>ok. s' = upd_conn i (piece_sent ok) s))"
proof (cases "i < length (ac_conns s) \<and> cn_todo (ac_conns s ! i) \<noteq> []")
  case False
  then show ?thesis using assms by (auto simp: send_next_def split: if_splits)
next
  case True
  then obtain x rest where "i < length (ac_conns s)" "cn_todo (ac_conns s ! i) = x # rest"
    by (auto simp: neq_Nil_conv)
  from send_next_step [OF this] assms obtain res where
    "send_to_node env (ac_dest s) (cn_flow (ac_conns s ! i)) x fw = Some (Inr (res, fw'))"
    "s' = upd_conn i (piece_sent (res = Inr ())) s"
    by (auto simp: obind_Some_Inr)
  then show ?thesis using forward_to_inbound unfolding send_to_node_def by blast
qed

section \<open>Background steps\<close>

definition background :: "node_event \<Rightarrow> bool" where
  \<comment> \<open>the steps of all tasks but the receive loop, the packet and timer branches of the forwarder, and the dispatcher\<close>
  "background e \<longleftrightarrow> (case e of Nd_Receive _ \<Rightarrow> False | Nd_Forward _ \<Rightarrow> False | Nd_Flush _ \<Rightarrow> False
     | Nd_Dispatch \<Rightarrow> False | _ \<Rightarrow> True)"

definition pipeline ::
  "node \<Rightarrow> (sock_addr, node_name \<times> tunnel_crypto) dmap \<times> (node_name \<times> received_packet) list \<times>
     node_name \<times> bool \<times> (node_name, fec_receiver) dmap \<times> local_delivery list" where
  "pipeline nd = (nd_peers nd, nd_inbox nd, fw_inbound (nd_fw nd))"

fun tcp_event :: "node_event \<Rightarrow> bool \<Rightarrow> edge_event" where
  \<comment> \<open>the step of the TCP edge in a step of the node\<close>
  "tcp_event (Nd_Tcp_Accept ok) b = Ed_Open"
| "tcp_event (Nd_Tcp_Read i r) b = Ed_Read i r"
| "tcp_event (Nd_Tcp_Send i) b = Ed_Sent i b"
| "tcp_event (Nd_Tcp_Write i ok) b = Ed_Write i ok"
| "tcp_event (Nd_Tcp_End i) b = Ed_End i"
| "tcp_event e b = Ed_Sent 0 b"

lemma background_step:
  assumes "background e" "node_step env e nd = Some (Inr nd')"
  shows "pipeline nd' = pipeline nd"
    and "nd_tcp nd' = nd_tcp nd \<or> (\<exists>b. nd_tcp nd' = edge_step tcp_read TCP_CHANNEL (tcp_event e b) (nd_tcp nd))"
proof -
  have "pipeline nd' = pipeline nd \<and>
    (nd_tcp nd' = nd_tcp nd \<or> (\<exists>b. nd_tcp nd' = edge_step tcp_read TCP_CHANNEL (tcp_event e b) (nd_tcp nd)))"
  proof (cases e)
    case (Nd_Task j)
    then show ?thesis
      using assms(2) task_step_inbound
      by (fastforce simp: node_step_def fw_turn_def fw_step_def obind_Some_Inr pipeline_def)
  next
    case (Nd_Probe now k)
    then show ?thesis
      using assms(2) probe_inbound
      by (fastforce simp: node_step_def fw_turn_def obind_Some_Inr pipeline_def split: if_splits prod.splits)
  next
    case (Nd_Tcp_Send i)
    then show ?thesis
      using assms(2) send_next_inbound
      by (fastforce simp: node_step_def obind_Some_Inr pipeline_def edge_step_def)
  next
    case (Nd_Quic_Send i)
    then show ?thesis
      using assms(2) send_next_inbound
      by (fastforce simp: node_step_def obind_Some_Inr pipeline_def)
  qed (use assms in \<open>auto simp: background_def node_step_def pipeline_def edge_step_def tcp_accept_def\<close>)
  then show "pipeline nd' = pipeline nd"
    and "nd_tcp nd' = nd_tcp nd \<or> (\<exists>b. nd_tcp nd' = edge_step tcp_read TCP_CHANNEL (tcp_event e b) (nd_tcp nd))"
    by blast+
qed

end
