(* ===== verification/Node_Noninterference.thy ===== *)
theory Node_Noninterference
  imports Node_Schedules
begin

text \<open>
  What a stranger can do to a node.  The buffer of the receive loop is the only part of a node that a
  datagram reaches before it is authenticated.  Nodes that agree on everything else move alike under
  every step, and a datagram that is not accepted leaves them in agreement.  So a run depends on the
  datagrams of a schedule only through those that some peer sealed with its key.
\<close>

section \<open>Runs up to the buffer\<close>

definition upto_buf :: "node run \<Rightarrow> node run" where
  \<comment> \<open>a result with the contents of the receive loop's buffer left out\<close>
  "upto_buf = map_option (map_sum id (nd_buf_update (\<lambda>_. [])))"

lemma upto_buf_simps [simp]:
  "upto_buf None = None" "upto_buf (Some (Inl x)) = Some (Inl x)"
  "upto_buf (Some (Inr nd)) = Some (Inr (nd\<lparr>nd_buf := []\<rparr>))"
  by (simp_all add: upto_buf_def)

abbreviation is_receive :: "node_event \<Rightarrow> bool" where
  "is_receive e \<equiv> (\<exists>ev. e = Nd_Receive ev)"

text \<open>No task but the receive loop looks at the buffer.\<close>

lemma fw_turn_buf: "fw_turn env e (nd\<lparr>nd_buf := b\<rparr>) = map_option (map_sum id (nd_buf_update (\<lambda>_. b))) (fw_turn env e nd)"
proof (cases "fw_step env e (nd_fw nd)")
  case (Some r)
  then show ?thesis by (cases r) (simp_all add: fw_turn_def)
qed (simp add: fw_turn_def)

lemma buf_inbox: "nd\<lparr>nd_buf := b, nd_inbox := xs\<rparr> = nd\<lparr>nd_inbox := xs\<rparr>\<lparr>nd_buf := b\<rparr>"
  by simp

lemma run_cases [case_names None Panic Result]:
  obtains "r = None" | x where "r = Some (Inl x)" | y where "r = Some (Inr y)"
  by (metis option.exhaust sum.exhaust)

lemma node_step_buf:
  assumes "\<not> is_receive e"
  shows "node_step env e (nd\<lparr>nd_buf := b\<rparr>) = map_option (map_sum id (nd_buf_update (\<lambda>_. b))) (node_step env e nd)"
proof (cases e)
  case (Nd_Receive ev)
  then show ?thesis using assms by blast
next
  case (Nd_Forward now)
  then show ?thesis
    by (cases "nd_inbox nd") (auto simp: node_step_def buf_inbox fw_turn_buf split: prod.split)
next
  case (Nd_Probe now k)
  then show ?thesis by (simp add: node_step_def fw_turn_buf split: prod.split)
next
  case (Nd_Tcp_Send i)
  then show ?thesis
    by (cases rule: run_cases [of "send_next env i (nd_tcp nd, nd_fw nd)"]) (auto simp: node_step_def)
next
  case (Nd_Quic_Send i)
  then show ?thesis
    by (cases rule: run_cases [of "send_next env i (nd_quic nd, nd_fw nd)"]) (auto simp: node_step_def)
next
  case Nd_Dispatch
  then show ?thesis by (simp add: node_step_def dispatch_turn_def dispatch_def split: list.split)
qed (simp_all add: node_step_def fw_turn_buf)

lemma node_step_keeps_buf:
  assumes "\<not> is_receive e" "node_step env e nd = Some (Inr nd')"
  shows "nd_buf nd' = nd_buf nd"
proof -
  have "node_step env e nd = map_option (map_sum id (nd_buf_update (\<lambda>_. nd_buf nd))) (node_step env e nd)"
    using node_step_buf [OF assms(1), where env = env and nd = nd and b = "nd_buf nd"] by simp
  then have "nd' = nd'\<lparr>nd_buf := nd_buf nd\<rparr>" by (simp add: assms(2))
  then show ?thesis by (metis node.select_convs(3) node.surjective node.update_convs(3))
qed

section \<open>Strangers\<close>

text \<open>A turn of the receive loop queues what its datagram yields by itself, when there is room.\<close>

lemma receive_turn_queues:
  assumes buf: "length (nd_buf nd) = MAX_PACKET"
  shows "\<exists>b. length b = MAX_PACKET \<and> receive_turn env ev nd = Inr (nd\<lparr>nd_inbox := nd_inbox nd @
    (if INBOX_SIZE \<le> length (nd_inbox nd) then [] else accepted_packet (env_aead env) (nd_peers nd) ev), nd_buf := b\<rparr>)"
proof (cases "ev = Recv_Error \<or> INBOX_SIZE \<le> length (nd_inbox nd)")
  case True
  then show ?thesis using buf by (intro exI [of _ "nd_buf nd"]) (auto simp: receive_turn_def accepted_packet_def)
next
  case False
  then obtain dgram src where ev: "ev = Recv_Dgram dgram src" by (cases ev) auto
  obtain res b where m: "recv_multi (env_aead env) (nd_peers nd) dgram src (nd_buf nd) = Inr (res, b)" "length b = MAX_PACKET"
    using recv_multi_no_panic [OF buf] by blast
  obtain res0 b0 where m0: "recv_multi (env_aead env) (nd_peers nd) dgram src (replicate MAX_PACKET 0) = Inr (res0, b0)"
    using recv_multi_no_panic [of "replicate MAX_PACKET 0"] by fastforce
  have "res0 = res"
    using recv_multi_history [OF buf, of "replicate MAX_PACKET 0" "env_aead env" "nd_peers nd" dgram src] m m0 by simp
  then show ?thesis
    using False m m0 by (intro exI [of _ b]) (cases res; simp add: receive_turn_def ev accepted_packet_def)
qed

fun sealed :: "aead_lib \<Rightarrow> (sock_addr, node_name \<times> tunnel_crypto) dmap \<Rightarrow> node_event \<Rightarrow> bool" where
  \<comment> \<open>no arrival of a datagram, or a datagram from the address of a peer that carries a message the
    peer's key encrypts\<close>
  "sealed lib peers (Nd_Receive Recv_Error) \<longleftrightarrow> False"
| "sealed lib peers (Nd_Receive (Recv_Dgram dgram src)) \<longleftrightarrow>
     (\<exists>pid c ty seq p ct rest. dm_get peers src = Some (pid, c) \<and> encrypt lib c seq p = Inr ct \<and>
        length p \<le> MAX_PAYLOAD \<and> dgram = header_bytes ty seq (word_of_nat (length ct)) @ ct @ rest)"
| "sealed lib peers e \<longleftrightarrow> True"

lemma accepted_only_sealed:
  assumes law: "aead_lawful lib" and e: "\<not> sealed lib peers (Nd_Receive ev)"
  shows "accepted_packet lib peers ev = []"
proof (rule ccontr)
  assume "accepted_packet lib peers ev \<noteq> []"
  then obtain dgram src pid pkt b where ev: "ev = Recv_Dgram dgram src"
    and m: "recv_multi lib peers dgram src (replicate MAX_PACKET 0) = Inr (Recv_Packet pid pkt, b)"
    by (auto simp: accepted_packet_def split: recv_event.splits sum.splits prod.splits recv_result.splits)
  obtain c ct rest where r: "dm_get peers src = Some (pid, c)"
    "dgram = header_bytes (rp_type pkt) (rp_seq pkt) (word_of_nat (length ct)) @ ct @ rest"
    "11 + length ct \<le> MAX_PACKET" "decrypt lib c (rp_seq pkt) ct = Inr (Inr (rp_payload pkt))"
    using recv_multi_PacketE [OF m] by (metis length_replicate)
  have enc: "encrypt lib c (rp_seq pkt) (rp_payload pkt) = Inr ct" using decrypt_authentic [OF law r(4)] .
  then have "length ct = length (rp_payload pkt) + 16" by (rule encrypt_length [OF law])
  then have "length (rp_payload pkt) \<le> MAX_PAYLOAD" using r(3) by (simp add: MAX_PACKET_eq MAX_PAYLOAD_def)
  with r(1,2) enc e show False unfolding ev sealed.simps by blast
qed

text \<open>Two nodes that differ in their buffers only, one of them without the strangers' datagrams.\<close>

lemma node_run_sealed:
  assumes law: "aead_lawful (env_aead env)"
  shows "length b = MAX_PACKET \<Longrightarrow> length (nd_buf nd) = MAX_PACKET \<Longrightarrow> nd_peers nd = peers \<Longrightarrow>
    upto_buf (node_run env (filter (sealed (env_aead env) peers) es) (nd\<lparr>nd_buf := b\<rparr>)) = upto_buf (node_run env es nd)"
proof (induction es arbitrary: nd b)
  case Nil
  then show ?case by simp
next
  case (Cons e es)
  show ?case
  proof (cases "is_receive e")
    case True
    then obtain ev where e: "e = Nd_Receive ev" by blast
    define new where "new = nd_inbox nd @
      (if INBOX_SIZE \<le> length (nd_inbox nd) then [] else accepted_packet (env_aead env) (nd_peers nd) ev)"
    have turn: "\<exists>b'. length b' = MAX_PACKET \<and>
        node_step env e (nd\<lparr>nd_buf := a\<rparr>) = Some (Inr (nd\<lparr>nd_inbox := new\<rparr>\<lparr>nd_buf := b'\<rparr>))"
      if "length a = MAX_PACKET" for a
      using receive_turn_queues [of "nd\<lparr>nd_buf := a\<rparr>" env ev] that by (simp add: node_step_def e new_def cong: if_cong split del: if_split)
    obtain b1 where r1: "length b1 = MAX_PACKET" "node_step env e nd = Some (Inr (nd\<lparr>nd_inbox := new\<rparr>\<lparr>nd_buf := b1\<rparr>))"
      using turn [OF Cons.prems(2)] by (metis node.select_convs(3) node.surjective node.update_convs(3))
    obtain b2 where r2: "length b2 = MAX_PACKET"
      "node_step env e (nd\<lparr>nd_buf := b\<rparr>) = Some (Inr (nd\<lparr>nd_inbox := new\<rparr>\<lparr>nd_buf := b2\<rparr>))"
      using turn [OF Cons.prems(1)] by blast
    show ?thesis
    proof (cases "sealed (env_aead env) peers e")
      case True
      then show ?thesis
        using Cons.IH [of b2 "nd\<lparr>nd_inbox := new\<rparr>\<lparr>nd_buf := b1\<rparr>"] r1 r2 Cons.prems by simp
    next
      case False
      then have "new = nd_inbox nd" using accepted_only_sealed [OF law] Cons.prems(3) by (simp add: e new_def)
      then show ?thesis
        using False Cons.IH [of b "nd\<lparr>nd_buf := b1\<rparr>"] r1 Cons.prems by simp
    qed
  next
    case False
    then have s: "sealed (env_aead env) peers e" by (cases e) auto
    show ?thesis
    proof (cases "node_step env e nd")
      case None
      then show ?thesis using s node_step_buf [OF False, where env = env and nd = nd and b = b] by simp
    next
      case (Some r)
      show ?thesis
      proof (cases r)
        case (Inl x)
        then show ?thesis using s Some node_step_buf [OF False, where env = env and nd = nd and b = b] by simp
      next
        case (Inr nd')
        have "nd_buf nd' = nd_buf nd"
          using node_step_keeps_buf [OF False] Some Inr by blast
        moreover have "nd_peers nd' = nd_peers nd" using node_step_probes Some Inr by blast
        ultimately show ?thesis
          using s Some Inr Cons.IH [of b nd'] Cons.prems node_step_buf [OF False, where env = env and nd = nd and b = b] by simp
      qed
    qed
  qed
qed

section \<open>Properties\<close>

text \<open>C7. Strangers cannot touch a node. Take two schedules of a node that agree once all datagrams are
  left out which no peer sealed, that is, which do not come from a peer's address with a message
  encrypted under the key shared with that peer. Then the two runs end alike, in a panic or in nodes
  that agree on the whole state, routes and measurements, half-received blocks, queues, flows and what
  the clients have been sent, with the bytes of the receive buffer as the only exception. Traffic
  that is forged, garbled or from elsewhere, however much of it and wherever it arrives, has no effect.\<close>

theorem strangers_have_no_effect:
  assumes "aead_lawful (env_aead env)" "length (nd_buf nd) = MAX_PACKET"
    and "filter (sealed (env_aead env) (nd_peers nd)) es = filter (sealed (env_aead env) (nd_peers nd)) es'"
  shows "upto_buf (node_run env es nd) = upto_buf (node_run env es' nd)"
  using node_run_sealed [OF assms(1,2,2), of "nd_peers nd" es] node_run_sealed [OF assms(1,2,2), of "nd_peers nd" es']
    assms(3) by simp

theorem strangers_have_no_effect_witness:
  "upto_buf (node_run demo_env [Nd_Receive (Recv_Dgram [1, 2] (2, 9001)), Nd_Receive (Recv_Dgram (PACKET_DATA # demo_rest) (2, 9001)),
      Nd_Receive (Recv_Dgram (PACKET_DATA # demo_rest) (6, 66)), Nd_Forward 5] (node_base demo_config\<lparr>nd_peers := demo_peers\<rparr>)) =
   upto_buf (node_run demo_env [Nd_Receive (Recv_Dgram (PACKET_DATA # demo_rest) (2, 9001)), Nd_Forward 5]
      (node_base demo_config\<lparr>nd_peers := demo_peers\<rparr>))"
proof (rule strangers_have_no_effect)
  have short: "\<not> sealed lib peers (Nd_Receive (Recv_Dgram [1, 2] src))" for lib peers src
    by (auto dest: arg_cong [where f = length])
  have unknown: "\<not> sealed lib demo_peers (Nd_Receive (Recv_Dgram f (6, 66)))" for lib f
    by (simp add: demo_peers_def dm_get_def)
  show "aead_lawful (env_aead demo_env)" using demo_env_ok by (simp add: env_ok_def)
  show "length (nd_buf (node_base demo_config\<lparr>nd_peers := demo_peers\<rparr>)) = MAX_PACKET" by (simp add: node_base_def Let_def)
  show "filter (sealed (env_aead demo_env) (nd_peers (node_base demo_config\<lparr>nd_peers := demo_peers\<rparr>)))
      [Nd_Receive (Recv_Dgram [1, 2] (2, 9001)), Nd_Receive (Recv_Dgram (PACKET_DATA # demo_rest) (2, 9001)),
       Nd_Receive (Recv_Dgram (PACKET_DATA # demo_rest) (6, 66)), Nd_Forward 5] =
     filter (sealed (env_aead demo_env) (nd_peers (node_base demo_config\<lparr>nd_peers := demo_peers\<rparr>)))
      [Nd_Receive (Recv_Dgram (PACKET_DATA # demo_rest) (2, 9001)), Nd_Forward 5]"
    by (simp add: short unknown del: sealed.simps(2))
qed

end
