(* ===== verification/Client_To_Client.thy ===== *)
theory Client_To_Client
  imports Node_Noninterference
begin

text \<open>
  From a client of one node to a client of another, over every schedule of the receiving node.  The
  invariant follows a block of messages through the node: frames still to be received, packets in the
  queue, shards held by the decoder, deliveries waiting for the dispatcher, and the stream of the client.
\<close>

section \<open>A block on its way\<close>

record transfer =
  tr_src :: node_name
  tr_addr :: sock_addr
  tr_crypto :: tunnel_crypto
  tr_seq :: u64
  tr_block :: u16
  tr_shards :: "bytes list"
  tr_flow :: u32
  tr_data :: "bytes list"
  tr_handler :: nat

definition tr_frame :: "nat \<Rightarrow> nat \<Rightarrow> transfer \<Rightarrow> nat \<Rightarrow> byte \<times> bytes" where
  "tr_frame d p tr m = shard_frame (shards_cfg d p) (tr_block tr) (tr_shards tr) m"

definition tr_packet :: "nat \<Rightarrow> nat \<Rightarrow> transfer \<Rightarrow> nat \<Rightarrow> received_packet" where
  "tr_packet d p tr m = \<lparr>rp_type = fst (tr_frame d p tr m), rp_seq = tr_seq tr + word_of_nat m,
     rp_payload = snd (tr_frame d p tr m), rp_from = tr_addr tr\<rparr>"

definition tr_payloads :: "node_name \<Rightarrow> transfer \<Rightarrow> bytes list" where
  "tr_payloads dest tr = relay_payloads dest (map (Pair (tr_flow tr)) (tr_data tr))"

definition transfer_ok :: "env \<Rightarrow> nat \<Rightarrow> nat \<Rightarrow> node_name \<Rightarrow> transfer \<Rightarrow> bool" where
  \<comment> \<open>a code word of messages of one TCP flow, all below the size that fits a datagram\<close>
  "transfer_ok env d p dest tr \<longleftrightarrow> codeword (env_rs env) d p (tr_payloads dest tr) (tr_shards tr) \<and>
     (\<forall>x \<in> set (tr_data tr). length dest + length x \<le> 1386) \<and> length dest \<le> 255 \<and> utf8_valid (str_bytes dest) \<and>
     tr_data tr \<noteq> [] \<and> tr_flow tr < QUIC_FLOWS"

definition arrived :: "nat \<Rightarrow> nat list \<Rightarrow> nat set" where
  \<comment> \<open>the shards the decoder holds after those of the list: it starts anew once it had \<open>d\<close>\<close>
  "arrived d ms = set (if length ms < d then ms else drop d ms)"

record progress =
  pg_done :: "nat list"
  pg_queue :: "nat list"
  pg_rest :: "nat list"
  pg_chan :: "bytes list"
  pg_stream :: "bytes list"

definition due :: "nat \<Rightarrow> transfer \<Rightarrow> progress \<Rightarrow> bytes list" where
  \<comment> \<open>what the decoder has given out\<close>
  "due d tr pg = (if length (pg_done pg) < d then [] else tr_data tr)"

definition in_transit :: "env \<Rightarrow> nat \<Rightarrow> nat \<Rightarrow> transfer \<Rightarrow> instant set \<Rightarrow> bytes list \<Rightarrow> progress \<Rightarrow> node \<Rightarrow> bool" where
  "in_transit env d p tr ts before pg nd \<longleftrightarrow>
     transfer_ok env d p (fw_node_id (nd_fw nd)) tr \<and> node_ok d p nd \<and> fw_local_open (nd_fw nd) \<and>
     dm_get (nd_peers nd) (tr_addr tr) = Some (tr_src tr, tr_crypto tr) \<and>
     distinct (pg_done pg @ pg_queue pg @ pg_rest pg) \<and> set (pg_done pg @ pg_queue pg @ pg_rest pg) \<subseteq> {..<d + p} \<and>
     length (pg_done pg @ pg_queue pg @ pg_rest pg) < 2 * d \<and>
     nd_inbox nd = map (\<lambda>m. (tr_src tr, tr_packet d p tr m)) (pg_queue pg) \<and>
     (\<exists>r. dm_get (fw_receivers (nd_fw nd)) (tr_src tr) = Some r \<and>
        block_view d p (tr_shards tr) (arrived d (pg_done pg)) (dm_get (rcv_blocks r) (tr_block tr)) \<and>
        (\<forall>b. dm_get (rcv_blocks r) (tr_block tr) = Some b \<longrightarrow> pb_created b \<in> ts)) \<and>
     (\<forall>x \<in> set (fw_local (nd_fw nd)). ld_flow_id x = tr_flow tr) \<and>
     flow_view (tr_flow tr) (tr_handler tr) (pg_chan pg) (pg_stream pg) (nd_tcp nd) \<and>
     pg_stream pg @ map ld_data (fw_local (nd_fw nd)) = before @ due d tr pg \<and>
     length (pg_chan pg) + length (fw_local (nd_fw nd)) + (if length (pg_done pg) < d then length (tr_data tr) else 0)
       \<le> TCP_CHANNEL"

lemma in_transitD:
  assumes "in_transit env d p tr ts before pg nd"
  shows "transfer_ok env d p (fw_node_id (nd_fw nd)) tr" "node_ok d p nd" "fw_local_open (nd_fw nd)"
    "dm_get (nd_peers nd) (tr_addr tr) = Some (tr_src tr, tr_crypto tr)"
    "distinct (pg_done pg @ pg_queue pg @ pg_rest pg)" "set (pg_done pg @ pg_queue pg @ pg_rest pg) \<subseteq> {..<d + p}"
    "length (pg_done pg @ pg_queue pg @ pg_rest pg) < 2 * d"
    "nd_inbox nd = map (\<lambda>m. (tr_src tr, tr_packet d p tr m)) (pg_queue pg)"
    "\<exists>r. dm_get (fw_receivers (nd_fw nd)) (tr_src tr) = Some r \<and>
        block_view d p (tr_shards tr) (arrived d (pg_done pg)) (dm_get (rcv_blocks r) (tr_block tr)) \<and>
        (\<forall>b. dm_get (rcv_blocks r) (tr_block tr) = Some b \<longrightarrow> pb_created b \<in> ts)"
    "\<forall>x \<in> set (fw_local (nd_fw nd)). ld_flow_id x = tr_flow tr"
    "flow_view (tr_flow tr) (tr_handler tr) (pg_chan pg) (pg_stream pg) (nd_tcp nd)"
    "pg_stream pg @ map ld_data (fw_local (nd_fw nd)) = before @ due d tr pg"
    "length (pg_chan pg) + length (fw_local (nd_fw nd)) + (if length (pg_done pg) < d then length (tr_data tr) else 0)
       \<le> TCP_CHANNEL"
  using assms unfolding in_transit_def by blast+

lemma in_transit_mono:
  "in_transit env d p tr ts before pg nd \<Longrightarrow> ts \<subseteq> ts' \<Longrightarrow> in_transit env d p tr ts' before pg nd"
  unfolding in_transit_def by blast

lemma transfer_facts:
  assumes "transfer_ok env d p dest tr"
  shows "codeword (env_rs env) d p (tr_payloads dest tr) (tr_shards tr)" "0 < d" "0 < p" "d + p \<le> 256"
    "list_all payload_ok (tr_payloads dest tr)" "\<forall>b \<in> set (tr_payloads dest tr). length b \<le> 1391"
    "\<forall>b \<in> set (tr_payloads dest tr). addressed dest b"
    "concat (map (local_of src) (tr_payloads dest tr)) =
       map (\<lambda>x. \<lparr>ld_flow_id = tr_flow tr, ld_data = x, ld_source = src\<rparr>) (tr_data tr)"
    "tr_payloads dest tr \<noteq> []" "tr_flow tr < QUIC_FLOWS"
proof -
  have t: "length dest \<le> 255" "utf8_valid (str_bytes dest)"
    "\<forall>(f, x) \<in> set (map (Pair (tr_flow tr)) (tr_data tr)). length dest + length x \<le> 1386"
    using assms by (auto simp: transfer_ok_def)
  show "list_all payload_ok (tr_payloads dest tr)" "\<forall>b \<in> set (tr_payloads dest tr). length b \<le> 1391"
    "\<forall>b \<in> set (tr_payloads dest tr). addressed dest b"
    "concat (map (local_of src) (tr_payloads dest tr)) =
       map (\<lambda>x. \<lparr>ld_flow_id = tr_flow tr, ld_data = x, ld_source = src\<rparr>) (tr_data tr)"
    using relay_payload_facts [OF t] by (simp_all add: tr_payloads_def)
  show "codeword (env_rs env) d p (tr_payloads dest tr) (tr_shards tr)" "0 < d" "0 < p" "d + p \<le> 256"
    "tr_payloads dest tr \<noteq> []" "tr_flow tr < QUIC_FLOWS"
    using assms by (auto simp: transfer_ok_def codeword_def tr_payloads_def relay_payloads_def)
qed

section \<open>The steps of the pipeline\<close>

lemma receive_shard_created:
  assumes "receive_shard rs now payload r = Inr (out, r')" "dm_get (rcv_blocks r') k = Some b'"
  shows "pb_created b' = now \<or> (\<exists>b. dm_get (rcv_blocks r) k = Some b \<and> pb_created b' = pb_created b)"
proof -
  have ins: "pb_created b2 = pb_created b1" if "pending_insert i x b1 = Inr (can, b2)" for i x b1 can b2
    using that by (auto simp: pending_insert_def rbind_eq_Inr_iff Let_def split: if_splits)
  show ?thesis
    using assms
    by (auto simp: receive_shard_def rbind_eq_Inr_iff Let_def pending_new_def dest!: ins
        split: option.splits if_splits prod.splits)
qed

lemma arrived_step:
  assumes "distinct (ms @ [m])" "length (ms @ [m]) < 2 * d" "0 < d"
  shows "card (insert m (arrived d ms)) = (if length ms < d then Suc (length ms) else Suc (length ms - d))"
    and "arrived d (ms @ [m]) = (if d \<le> card (insert m (arrived d ms)) then {} else insert m (arrived d ms))"
proof -
  have m: "m \<notin> arrived d ms" using assms(1) by (auto simp: arrived_def dest: in_set_dropD)
  have "card (arrived d ms) = (if length ms < d then length ms else length ms - d)"
    using assms(1) by (simp add: arrived_def distinct_card)
  with m show c: "card (insert m (arrived d ms)) = (if length ms < d then Suc (length ms) else Suc (length ms - d))"
    by (simp add: arrived_def)
  have "\<not> length ms < d \<Longrightarrow> Suc (length ms - d) < d" using assms(2) by simp
  with c assms(3) show "arrived d (ms @ [m]) = (if d \<le> card (insert m (arrived d ms)) then {} else insert m (arrived d ms))"
    by (auto simp: arrived_def)
qed

lemma receive_turn_accepts:
  assumes ok: "node_ok d p nd" and room: "length (nd_inbox nd) < INBOX_SIZE" and r: "receive_turn env ev nd = Inr nd'"
  obtains buf where "nd' = nd\<lparr>nd_buf := buf, nd_inbox := nd_inbox nd @ accepted_packet (env_aead env) (nd_peers nd) ev\<rparr>"
proof -
  have "length (nd_buf nd) = MAX_PACKET" using ok by (simp add: node_ok_def)
  from receive_turn_queues [OF this, of env ev] obtain b where
    "nd' = nd\<lparr>nd_inbox := nd_inbox nd @ accepted_packet (env_aead env) (nd_peers nd) ev, nd_buf := b\<rparr>"
    using r room by auto
  then show thesis by (intro that [of b]) simp
qed

lemma transit_background:
  assumes pg: "in_transit env d p tr ts before pg nd" and e: "background e"
    and step: "node_step env e nd = Some (Inr nd')" and ok: "node_ok d p nd'"
    and keep: "e \<noteq> Nd_Tcp_End (tr_handler tr)" "e \<noteq> Nd_Tcp_Write (tr_handler tr) False" "ac_next (nd_tcp nd) \<noteq> tr_flow tr"
  obtains chan where "in_transit env d p tr ts before (pg\<lparr>pg_chan := chan\<rparr>) nd'"
proof -
  note D = in_transitD [OF pg]
  note pipe = background_step(1) [OF e step]
  have edge: "ac_ok TCP_CHANNEL (nd_tcp nd)" using D(2) by (simp add: node_ok_def)
  have rd: "keeps_output tcp_read" "\<And>r c. cn_ended (tcp_read r c) = cn_ended c"
    using keeps_output_readers readers_keep_ended by simp_all
  obtain chan where chan: "flow_view (tr_flow tr) (tr_handler tr) chan (pg_stream pg) (nd_tcp nd')"
    "length chan \<le> length (pg_chan pg)"
  proof (cases "nd_tcp nd' = nd_tcp nd")
    case True
    with D(11) that show thesis by simp
  next
    case False
    with background_step(2) [OF e step] obtain b where
      tcp: "nd_tcp nd' = edge_step tcp_read TCP_CHANNEL (tcp_event e b) (nd_tcp nd)" by blast
    have del: "deliveries (tr_flow tr) [tcp_event e b] = []"
      by (cases "(e, b)" rule: tcp_event.cases) (simp_all add: deliveries_def)
    have "tcp_event e b \<noteq> Ed_End (tr_handler tr)" "tcp_event e b \<noteq> Ed_Write (tr_handler tr) False"
      using keep(1,2) by (cases "(e, b)" rule: tcp_event.cases; simp)+
    from flow_view_step [OF rd D(11) edge this keep(3)] obtain q' ds where
      "flow_view (tr_flow tr) (tr_handler tr) q' (pg_stream pg @ ds) (nd_tcp nd')"
      "subseq ds []" "length q' \<le> length (pg_chan pg) + length ds"
      unfolding tcp del by metis
    moreover from this have "ds = []" by simp
    ultimately show thesis by (intro that [of q']) simp_all
  qed
  have "in_transit env d p tr ts before (pg\<lparr>pg_chan := chan\<rparr>) nd'"
    using D chan ok pipe by (simp add: in_transit_def pipeline_def fw_inbound_def due_def)
  then show thesis by (rule that)
qed

lemma transit_rejected:
  assumes pg: "in_transit env d p tr ts before pg nd" and ok: "node_ok d p nd'"
    and step: "node_step env (Nd_Receive ev) nd = Some (Inr nd')" and none: "accepted_packet (env_aead env) (nd_peers nd) ev = []"
  shows "in_transit env d p tr ts before pg nd'"
proof (cases "length (nd_inbox nd) < INBOX_SIZE")
  case True
  have "receive_turn env ev nd = Inr nd'" using step by (simp add: node_step_def)
  from receive_turn_accepts [OF in_transitD(2) [OF pg] True this] obtain buf where
    "nd' = nd\<lparr>nd_buf := buf, nd_inbox := nd_inbox nd @ []\<rparr>"
    unfolding none by blast
  then show ?thesis using pg ok by (simp add: in_transit_def)
next
  case False
  then show ?thesis using pg step by (simp add: node_step_def receive_turn_def)
qed

lemma transit_frame:
  assumes pg: "in_transit env d p tr ts before pg nd" and ok: "node_ok d p nd'"
    and step: "node_step env (Nd_Receive ev) nd = Some (Inr nd')" and rest: "pg_rest pg = m # rest"
    and acc: "accepted_packet (env_aead env) (nd_peers nd) ev = [(tr_src tr, tr_packet d p tr m)]"
  shows "in_transit env d p tr ts before (pg\<lparr>pg_queue := pg_queue pg @ [m], pg_rest := rest\<rparr>) nd'"
proof -
  note D = in_transitD [OF pg]
  have "length (pg_queue pg) \<le> card {..<d + p}"
    using D(5,6) by (metis card_mono distinct_append distinct_card finite_lessThan le_sup_iff set_append)
  then have "length (nd_inbox nd) < INBOX_SIZE"
    using transfer_facts(4) [OF D(1)] by (simp add: D(8) INBOX_SIZE_def)
  moreover have "receive_turn env ev nd = Inr nd'" using step by (simp add: node_step_def)
  ultimately obtain buf where
    "nd' = nd\<lparr>nd_buf := buf, nd_inbox := nd_inbox nd @ [(tr_src tr, tr_packet d p tr m)]\<rparr>"
    using receive_turn_accepts [OF D(2)] by (metis acc)
  then show ?thesis using D ok rest by (simp add: in_transit_def due_def)
qed

lemma transit_dispatch:
  assumes pg: "in_transit env d p tr ts before pg nd" and ok: "node_ok d p nd'"
    and step: "node_step env Nd_Dispatch nd = Some (Inr nd')"
  obtains chan str where "in_transit env d p tr ts before (pg\<lparr>pg_chan := chan, pg_stream := str\<rparr>) nd'"
    and "length (fw_local (nd_fw nd')) = length (fw_local (nd_fw nd)) - 1"
proof (cases "fw_local (nd_fw nd)")
  case Nil
  then have "nd' = nd" using step by (simp add: node_step_def dispatch_turn_def)
  then show thesis using that [where chan = "pg_chan pg" and str = "pg_stream pg"] pg Nil by simp
next
  case (Cons x rest)
  note D = in_transitD [OF pg]
  have x: "ld_flow_id x = tr_flow tr" using D(10) Cons by simp
  have edge: "ac_ok TCP_CHANNEL (nd_tcp nd)" using D(2) by (simp add: node_ok_def)
  have nd': "nd' = nd\<lparr>nd_fw := (nd_fw nd)\<lparr>fw_local := rest\<rparr>, nd_tcp := tcp_deliver (tr_flow tr) (ld_data x) (nd_tcp nd)\<rparr>"
    using step transfer_facts(10) [OF D(1)] by (simp add: node_step_def dispatch_turn_def dispatch_def Cons x)
  have "length (pg_chan pg) < TCP_CHANNEL" using D(13) Cons by simp
  then have view: "flow_view (tr_flow tr) (tr_handler tr) (pg_chan pg @ [ld_data x]) (pg_stream pg @ [ld_data x]) (nd_tcp nd')"
    using flow_view_deliver [OF D(11) edge, of "tr_flow tr" "ld_data x"] by (simp add: nd' tcp_deliver_def)
  have "in_transit env d p tr ts before (pg\<lparr>pg_chan := pg_chan pg @ [ld_data x], pg_stream := pg_stream pg @ [ld_data x]\<rparr>) nd'"
    using D view ok Cons by (simp add: in_transit_def nd' due_def)
  then show thesis by (rule that) (simp add: nd' Cons)
qed

lemma shard_packet_sane:
  assumes "transfer_ok env d p dest tr" "m < d + p"
  shows "rp_type (tr_packet d p tr m) = PACKET_DATA \<or> rp_type (tr_packet d p tr m) = PACKET_PARITY"
    and "sane_header (rp_payload (tr_packet d p tr m))"
proof -
  note t = transfer_facts [OF assms(1)]
  show "rp_type (tr_packet d p tr m) = PACKET_DATA \<or> rp_type (tr_packet d p tr m) = PACKET_PARITY"
    by (simp add: tr_packet_def tr_frame_def shard_frame_def)
  have "unat (word_of_nat d :: byte) = d" "unat (word_of_nat p :: byte) = p"
    using t(2-4) by (simp_all add: unat_of_nat)
  then show "sane_header (rp_payload (tr_packet d p tr m))"
    using t(2-4) by (simp add: sane_header_def tr_packet_def tr_frame_def shard_frame_def decode_shard_header_bytes)
qed

lemma transit_forward:
  assumes pg: "in_transit env d p tr ts before pg nd" and ok: "node_ok d p nd'" and now: "now \<in> ts"
    and step: "node_step env (Nd_Forward now) nd = Some (Inr nd')"
  obtains dn q where "in_transit env d p tr ts before (pg\<lparr>pg_done := dn, pg_queue := q\<rparr>) nd'"
    and "length (nd_inbox nd') = length (nd_inbox nd) - 1" and "dn @ q = pg_done pg @ pg_queue pg"
proof (cases "pg_queue pg")
  case Nil
  then have e: "nd' = nd" "length (nd_inbox nd) = length (nd_inbox nd) - 1"
    using step in_transitD(8) [OF pg] by (simp_all add: node_step_def)
  have same: "pg\<lparr>pg_done := pg_done pg, pg_queue := pg_queue pg\<rparr> = pg" by simp
  note idle = that [where dn = "pg_done pg" and q = "pg_queue pg", unfolded same e(1)]
  show thesis by (rule idle) (rule pg, rule e(2), rule refl)
next
  case (Cons m q)
  note D = in_transitD [OF pg]
  note T = transfer_facts [OF D(1)]
  let ?src = "tr_src tr" and ?fw = "nd_fw nd" and ?ms = "pg_done pg"
  obtain r where r: "dm_get (fw_receivers ?fw) ?src = Some r"
    "block_view d p (tr_shards tr) (arrived d ?ms) (dm_get (rcv_blocks r) (tr_block tr))"
    "\<And>b. dm_get (rcv_blocks r) (tr_block tr) = Some b \<Longrightarrow> pb_created b \<in> ts"
    using D(9) by blast
  have m: "m < d + p" "distinct (?ms @ [m])" "length (?ms @ [m]) < 2 * d" using D(5-7) Cons by auto
  note A = arrived_step [OF m(2,3) T(2)]
  define out where "out = (if d \<le> card (insert m (arrived d ?ms)) then Some (tr_payloads (fw_node_id ?fw) tr) else None)"
  obtain r' where rs: "receive_shard (env_rs env) now (snd (tr_frame d p tr m)) r = Inr (out, r')"
    and view: "block_view d p (tr_shards tr) (arrived d (?ms @ [m])) (dm_get (rcv_blocks r') (tr_block tr))"
    unfolding A(2) out_def tr_frame_def using receive_shard_step [OF T(1,5) r(2) m(1)] by metis
  have created: "pb_created b \<in> ts" if "dm_get (rcv_blocks r') (tr_block tr) = Some b" for b
    using receive_shard_created [OF rs that] r(3) now by auto
  define new where "new = (case out of None \<Rightarrow> [] | Some ps \<Rightarrow> concat (map (local_of ?src) ps))"
  define fw' where "fw' = ?fw\<lparr>fw_receivers := dm_insert ?src r' (fw_receivers ?fw), fw_local := fw_local ?fw @ new\<rparr>"
  have ty: "rp_type (tr_packet d p tr m) = PACKET_DATA \<or> rp_type (tr_packet d p tr m) = PACKET_PARITY"
    using shard_packet_sane(1) [OF D(1) m(1)] .
  then have nt: "rp_type (tr_packet d p tr m) \<noteq> PACKET_PING" "rp_type (tr_packet d p tr m) \<noteq> PACKET_PONG"
    by (auto simp: packet_types)
  have pay: "rp_payload (tr_packet d p tr m) = snd (tr_frame d p tr m)" by (simp add: tr_packet_def)
  have "handle_inbound env now ?src (tr_packet d p tr m) ?fw = Some (Inr fw')"
    using ty nt r(1) rs D(3) T(7)
      route_all_local [of "?fw\<lparr>fw_receivers := dm_insert ?src r' (fw_receivers ?fw)\<rparr>" "tr_payloads (fw_node_id ?fw) tr" env ?src]
    by (auto simp: handle_inbound_def pay out_def fw'_def new_def Let_def)
  then have nd': "nd' = nd\<lparr>nd_inbox := map (\<lambda>m. (?src, tr_packet d p tr m)) q, nd_fw := fw'\<rparr>"
    using step D(8) Cons by (simp add: node_step_def fw_turn_def fw_step_def)
  have new: "new = (if d \<le> card (insert m (arrived d ?ms))
      then map (\<lambda>x. \<lparr>ld_flow_id = tr_flow tr, ld_data = x, ld_source = ?src\<rparr>) (tr_data tr) else [])"
    using T(8) by (simp add: new_def out_def)
  have full: "d \<le> card (insert m (arrived d ?ms)) \<longleftrightarrow> length ?ms < d \<and> \<not> length (?ms @ [m]) < d"
    using A(1) m(3) by (auto split: if_splits)
  have loc: "\<forall>x \<in> set (fw_local ?fw @ new). ld_flow_id x = tr_flow tr" using D(10) by (auto simp: new)
  have "due d tr (pg\<lparr>pg_done := ?ms @ [m], pg_queue := q\<rparr>) = due d tr pg @ map ld_data new"
    using full by (auto simp: due_def new comp_def)
  then have str: "pg_stream pg @ map ld_data (fw_local ?fw @ new) = before @ due d tr (pg\<lparr>pg_done := ?ms @ [m], pg_queue := q\<rparr>)"
    using D(12) by (simp flip: append_assoc)
  have "length (pg_chan pg) + length (fw_local ?fw @ new) + (if length (?ms @ [m]) < d then length (tr_data tr) else 0) \<le> TCP_CHANNEL"
    using D(13) full by (auto simp: new split: if_splits)
  then have "in_transit env d p tr ts before (pg\<lparr>pg_done := ?ms @ [m], pg_queue := q\<rparr>) nd'"
    using D(1-7,11) Cons loc str view created ok by (simp add: in_transit_def nd' fw'_def)
  then show thesis by (rule that) (simp_all add: nd' D(8) Cons)
qed

lemma transit_flush:
  assumes pg: "in_transit env d p tr ts before pg nd" and ok: "node_ok d p nd'"
    and young: "\<forall>t \<in> ts. (now - t) div 1000000 < 500"
    and step: "node_step env (Nd_Flush now) nd = Some (Inr nd')"
  shows "in_transit env d p tr ts before pg nd'"
proof -
  note D = in_transitD [OF pg]
  obtain fw1 where fl: "flush_senders env (fw_senders (nd_fw nd)) (nd_fw nd) = Inr fw1"
    and nd': "nd' = nd\<lparr>nd_fw := fw1\<lparr>fw_receivers := map (\<lambda>(k, r). (k, expire_old now 500 r)) (fw_receivers fw1)\<rparr>\<rparr>"
    using step by (auto simp: node_step_def fw_turn_def fw_step_def obind_Some_Inr flush_fec_def rbind_eq_Inr_iff)
  note pipe = flush_senders_inbound [OF fl]
  obtain r where r: "dm_get (fw_receivers (nd_fw nd)) (tr_src tr) = Some r"
    "block_view d p (tr_shards tr) (arrived d (pg_done pg)) (dm_get (rcv_blocks r) (tr_block tr))"
    "\<And>b. dm_get (rcv_blocks r) (tr_block tr) = Some b \<Longrightarrow> pb_created b \<in> ts"
    using D(9) by blast
  have "fw_ok d p (nd_fw nd)" using D(2) by (simp add: node_ok_def)
  then have wf: "dm_wf (rcv_blocks r)" using fw_okD(11) r(1) by blast
  have keep: "dm_get (rcv_blocks (expire_old now 500 r)) (tr_block tr) = dm_get (rcv_blocks r) (tr_block tr)"
    using young r(3) by (auto simp: expire_old_def dm.get_retain [OF wf] split: option.splits)
  have "dm_get (map (\<lambda>(k, r). (k, expire_old now 500 r)) (fw_receivers fw1)) (tr_src tr) = Some (expire_old now 500 r)"
    using pipe r(1) by (simp add: dm_get_map_values fw_inbound_def)
  then show ?thesis
    using D ok pipe r(2,3) keep by (simp add: in_transit_def nd' fw_inbound_def)
qed

section \<open>Any schedule of the receiving node\<close>

definition frames_in :: "aead_lib \<Rightarrow> (sock_addr, node_name \<times> tunnel_crypto) dmap \<Rightarrow> node_event list \<Rightarrow> (node_name \<times> received_packet) list" where
  \<comment> \<open>the packets the receive loop accepts from the datagrams of a schedule\<close>
  "frames_in lib peers es = concat (map (\<lambda>e. case e of Nd_Receive ev \<Rightarrow> accepted_packet lib peers ev | _ \<Rightarrow> []) es)"

lemma frames_in_simps [simp]:
  "frames_in lib peers [] = []"
  "frames_in lib peers (e # es) = (case e of Nd_Receive ev \<Rightarrow> accepted_packet lib peers ev | _ \<Rightarrow> []) @ frames_in lib peers es"
  by (simp_all add: frames_in_def)

definition schedule_ok :: "nat \<Rightarrow> u32 \<Rightarrow> u32 \<Rightarrow> instant set \<Rightarrow> node_event list \<Rightarrow> bool" where
  \<comment> \<open>the client stays and no write to it fails, new connections do not reuse its flow, and the timer's ticks
    come within the age limit of the times at which packets are handled\<close>
  "schedule_ok h f next ts es \<longleftrightarrow>
     Nd_Tcp_End h \<notin> set es \<and> Nd_Tcp_Write h False \<notin> set es \<and>
     (\<forall>k < length es. next + word_of_nat k \<noteq> f) \<and>
     (\<forall>t. Nd_Forward t \<in> set es \<longrightarrow> t \<in> ts) \<and>
     (\<forall>u. Nd_Flush u \<in> set es \<longrightarrow> (\<forall>t \<in> ts. (u - t) div 1000000 < 500))"

lemma schedule_ok_Cons:
  assumes "schedule_ok h f next ts (e # es)" and "next' = next \<or> next' = next + 1"
  shows "schedule_ok h f next' ts es" "next \<noteq> f"
    "e \<noteq> Nd_Tcp_End h" "e \<noteq> Nd_Tcp_Write h False"
    "\<And>t. e = Nd_Forward t \<Longrightarrow> t \<in> ts" "\<And>u. e = Nd_Flush u \<Longrightarrow> \<forall>t \<in> ts. (u - t) div 1000000 < 500"
proof -
  have fresh: "next + word_of_nat k \<noteq> f" if "k < Suc (length es)" for k
    using assms(1) that by (simp add: schedule_ok_def del: of_nat_Suc)
  have "next' + word_of_nat k \<noteq> f" if "k < length es" for k
    using fresh [of k] fresh [of "Suc k"] that assms(2) by (auto simp: add_ac)
  then show "schedule_ok h f next' ts es" using assms(1) by (simp add: schedule_ok_def)
  show "next \<noteq> f" using fresh [of 0] by simp
  show "e \<noteq> Nd_Tcp_End h" "e \<noteq> Nd_Tcp_Write h False"
    "\<And>t. e = Nd_Forward t \<Longrightarrow> t \<in> ts" "\<And>u. e = Nd_Flush u \<Longrightarrow> \<forall>t \<in> ts. (u - t) div 1000000 < 500"
    using assms(1) by (auto simp: schedule_ok_def)
qed

lemma accepted_packet_cases: "accepted_packet lib peers ev = [] \<or> (\<exists>x. accepted_packet lib peers ev = [x])"
  by (auto simp: accepted_packet_def split: recv_event.splits sum.splits prod.splits recv_result.splits)

lemma node_step_next:
  assumes "node_step env e nd = Some (Inr nd')"
  shows "ac_next (nd_tcp nd') = ac_next (nd_tcp nd) \<or> ac_next (nd_tcp nd') = ac_next (nd_tcp nd) + 1"
proof (cases "background e")
  case True
  from background_step(2) [OF this assms] show ?thesis by (auto simp: ac_next_step)
next
  case False
  have "ac_next (tcp_deliver f x s) = ac_next s" for f x s
    by (simp add: tcp_deliver_def deliver_def split: option.split)
  then have "ac_next (nd_tcp (dispatch_turn nd)) = ac_next (nd_tcp nd)"
    by (simp add: dispatch_turn_def dispatch_def split: list.split)
  moreover have "nd_tcp nd2 = nd_tcp nd" if "receive_turn env ev nd = Inr nd2" for ev nd2
    using receive_turn_probes [OF that] by simp
  ultimately show ?thesis
    using False assms
    by (auto simp: background_def node_step_def fw_turn_def obind_Some_Inr split: node_event.splits list.splits)
qed

abbreviation pg_all :: "progress \<Rightarrow> nat list" where
  "pg_all pg \<equiv> pg_done pg @ pg_queue pg @ pg_rest pg"

lemma transit_event_ok:
  assumes pg: "in_transit env d p tr ts before pg nd"
  shows "node_event_ok e nd"
proof (cases "pg_queue pg")
  case Nil
  then show ?thesis using in_transitD(8) [OF pg] by (simp add: node_event_ok_def split: node_event.split)
next
  case (Cons m q)
  have m: "m < d + p" using in_transitD(6) [OF pg] Cons by auto
  note sane = shard_packet_sane [OF in_transitD(1) [OF pg] m]
  then have "rp_type (tr_packet d p tr m) \<noteq> PACKET_PONG" by (auto simp: packet_types)
  then show ?thesis
    using in_transitD(8) [OF pg] sane Cons by (simp add: node_event_ok_def split: node_event.split)
qed

lemma transit_step:
  assumes env: "env_ok d p env" and pg: "in_transit env d p tr ts before pg nd"
    and sched: "schedule_ok (tr_handler tr) (tr_flow tr) (ac_next (nd_tcp nd)) ts (e # es)"
    and frames: "frames_in (env_aead env) (nd_peers nd) [e] = map (\<lambda>m. (tr_src tr, tr_packet d p tr m)) ms" "pg_rest pg = ms @ rest"
  obtains nd' pg' where "node_step env e nd = Some (Inr nd')" and "in_transit env d p tr ts before pg' nd'"
    and "pg_rest pg' = rest" and "pg_all pg' = pg_all pg"
proof -
  obtain nd' where step: "node_step env e nd = Some (Inr nd')" and ok: "node_ok d p nd'"
    using node_step_total [OF env in_transitD(2) [OF pg] transit_event_ok [OF pg]] by blast
  note S = schedule_ok_Cons [OF sched refl [THEN disjI1]]
  have none: "ms = []" if "\<forall>ev. e \<noteq> Nd_Receive ev" using frames(1) that by (cases e) simp_all
  consider (bg) "background e" | (recv) ev where "e = Nd_Receive ev" | (fwd) now where "e = Nd_Forward now"
    | (flush) now where "e = Nd_Flush now" | (disp) "e = Nd_Dispatch"
    by (cases e) (auto simp: background_def)
  then show thesis
  proof cases
    case bg
    then have "\<forall>ev. e \<noteq> Nd_Receive ev" by (auto simp: background_def)
    from none [OF this] frames(2) transit_background [OF pg bg step ok S(3,4,2)] show thesis
      using that [OF step] by (metis append_Nil progress.select_convs(1-3) progress.surjective progress.update_convs(4))
  next
    case (recv ev)
    show thesis
    proof (cases "accepted_packet (env_aead env) (nd_peers nd) ev = []")
      case True
      then have "in_transit env d p tr ts before pg nd'" using transit_rejected [OF pg ok] step recv by blast
      then show thesis using that [OF step] True recv frames by simp
    next
      case False
      then obtain x where "accepted_packet (env_aead env) (nd_peers nd) ev = [x]" using accepted_packet_cases by metis
      moreover from this obtain m where m: "ms = [m]" "x = (tr_src tr, tr_packet d p tr m)"
        using frames(1) recv by (auto simp: map_eq_Cons_conv [symmetric] Cons_eq_map_conv)
      ultimately have "in_transit env d p tr ts before (pg\<lparr>pg_queue := pg_queue pg @ [m], pg_rest := rest\<rparr>) nd'"
        using transit_frame [OF pg ok] step recv frames(2) by simp
      then show thesis using that [OF step] m frames(2) by simp
    qed
  next
    case (fwd now)
    obtain dn q where "in_transit env d p tr ts before (pg\<lparr>pg_done := dn, pg_queue := q\<rparr>) nd'"
      "dn @ q = pg_done pg @ pg_queue pg"
      using transit_forward [OF pg ok S(5) [OF fwd] step [unfolded fwd]] by metis
    moreover from this(2) have "dn @ q @ pg_rest pg = pg_all pg" by simp
    ultimately show thesis using that [OF step] none fwd frames(2) by simp
  next
    case (flush now)
    then show thesis
      using that [OF step transit_flush [OF pg ok S(6) [OF flush] step [unfolded flush]]] none frames(2) by simp
  next
    case disp
    obtain chan str where "in_transit env d p tr ts before (pg\<lparr>pg_chan := chan, pg_stream := str\<rparr>) nd'"
      using transit_dispatch [OF pg ok step [unfolded disp]] by metis
    then show thesis using that [OF step] none disp frames(2) by simp
  qed
qed

lemma transit_run:
  assumes env: "env_ok d p env"
  shows "in_transit env d p tr ts before pg nd \<Longrightarrow> schedule_ok (tr_handler tr) (tr_flow tr) (ac_next (nd_tcp nd)) ts es \<Longrightarrow>
    frames_in (env_aead env) (nd_peers nd) es = map (\<lambda>m. (tr_src tr, tr_packet d p tr m)) (pg_rest pg) \<Longrightarrow>
    \<exists>nd' pg'. node_run env es nd = Some (Inr nd') \<and> in_transit env d p tr ts before pg' nd' \<and>
      pg_rest pg' = [] \<and> pg_all pg' = pg_all pg"
proof (induction es arbitrary: nd pg)
  case Nil
  then show ?case by auto
next
  case (Cons e es)
  let ?f = "\<lambda>m. (tr_src tr, tr_packet d p tr m)"
  have "frames_in (env_aead env) (nd_peers nd) [e] @ frames_in (env_aead env) (nd_peers nd) es = map ?f (pg_rest pg)"
    using Cons.prems(3) by simp
  then obtain ms rest where ms: "pg_rest pg = ms @ rest" "frames_in (env_aead env) (nd_peers nd) [e] = map ?f ms"
    "frames_in (env_aead env) (nd_peers nd) es = map ?f rest"
    unfolding append_eq_map_conv by blast
  obtain nd1 pg1 where step: "node_step env e nd = Some (Inr nd1)" and pg1: "in_transit env d p tr ts before pg1 nd1"
    "pg_rest pg1 = rest" "pg_all pg1 = pg_all pg"
    using transit_step [OF env Cons.prems(1,2) ms(2,1)] .
  have "schedule_ok (tr_handler tr) (tr_flow tr) (ac_next (nd_tcp nd1)) ts es"
    using schedule_ok_Cons(1) [OF Cons.prems(2) node_step_next [OF step]] .
  moreover have "frames_in (env_aead env) (nd_peers nd1) es = map ?f (pg_rest pg1)"
    using ms(3) node_step_probes [OF step] pg1(2) by simp
  ultimately obtain nd' pg' where "node_run env es nd1 = Some (Inr nd')" "in_transit env d p tr ts before pg' nd'"
    "pg_rest pg' = []" "pg_all pg' = pg_all pg1"
    using Cons.IH [OF pg1(1)] by blast
  then show ?case using step pg1(3) by auto
qed

section \<open>Running dry\<close>

lemma drain_queue:
  assumes env: "env_ok d p env" and t: "t \<in> ts"
  shows "in_transit env d p tr ts before pg nd \<Longrightarrow> pg_rest pg = [] \<Longrightarrow>
    \<exists>nd' pg'. node_run env (replicate n (Nd_Forward t)) nd = Some (Inr nd') \<and>
      in_transit env d p tr ts before pg' nd' \<and> pg_rest pg' = [] \<and> pg_all pg' = pg_all pg \<and>
      length (nd_inbox nd') = length (nd_inbox nd) - n"
proof (induction n arbitrary: nd pg)
  case 0
  then show ?case by auto
next
  case (Suc n)
  obtain nd1 where step: "node_step env (Nd_Forward t) nd = Some (Inr nd1)" and ok: "node_ok d p nd1"
    using node_step_total [OF env in_transitD(2) [OF Suc.prems(1)] transit_event_ok [OF Suc.prems(1)]] by blast
  obtain dn q where pg1: "in_transit env d p tr ts before (pg\<lparr>pg_done := dn, pg_queue := q\<rparr>) nd1"
    "length (nd_inbox nd1) = length (nd_inbox nd) - 1" "dn @ q = pg_done pg @ pg_queue pg"
    using transit_forward [OF Suc.prems(1) ok t step] by metis
  from Suc.IH [OF pg1(1)] pg1(2,3) Suc.prems(2) step show ?case by fastforce
qed

lemma drain_local:
  assumes env: "env_ok d p env"
  shows "in_transit env d p tr ts before pg nd \<Longrightarrow>
    \<exists>nd' pg'. node_run env (replicate n Nd_Dispatch) nd = Some (Inr nd') \<and>
      in_transit env d p tr ts before pg' nd' \<and> pg_rest pg' = pg_rest pg \<and> pg_all pg' = pg_all pg \<and>
      nd_inbox nd' = nd_inbox nd \<and> length (fw_local (nd_fw nd')) = length (fw_local (nd_fw nd)) - n"
proof (induction n arbitrary: nd pg)
  case 0
  then show ?case by auto
next
  case (Suc n)
  obtain nd1 where step: "node_step env Nd_Dispatch nd = Some (Inr nd1)" and ok: "node_ok d p nd1"
    using node_step_total [OF env in_transitD(2) [OF Suc.prems(1)] transit_event_ok [OF Suc.prems(1)]] by blast
  obtain chan str where pg1: "in_transit env d p tr ts before (pg\<lparr>pg_chan := chan, pg_stream := str\<rparr>) nd1"
    "length (fw_local (nd_fw nd1)) = length (fw_local (nd_fw nd)) - 1"
    using transit_dispatch [OF Suc.prems(1) ok step] by metis
  moreover have "nd_inbox nd1 = nd_inbox nd"
    using step by (auto simp: node_step_def dispatch_turn_def dispatch_def split: list.split)
  ultimately show ?case using Suc.IH [OF pg1(1)] step by fastforce
qed

lemma drain_channel:
  assumes env: "env_ok d p env"
  shows "in_transit env d p tr ts before pg nd \<Longrightarrow>
    \<exists>nd' pg'. node_run env (replicate n (Nd_Tcp_Write (tr_handler tr) True)) nd = Some (Inr nd') \<and>
      in_transit env d p tr ts before pg' nd' \<and> pg_rest pg' = pg_rest pg \<and> pg_all pg' = pg_all pg \<and>
      nd_inbox nd' = nd_inbox nd \<and> nd_fw nd' = nd_fw nd \<and> length (pg_chan pg') = length (pg_chan pg) - n"
proof (induction n arbitrary: nd pg)
  case 0
  then show ?case by auto
next
  case (Suc n)
  note D = in_transitD [OF Suc.prems]
  define nd1 where "nd1 = nd\<lparr>nd_tcp := write_next (tr_handler tr) True (nd_tcp nd)\<rparr>"
  have step: "node_step env (Nd_Tcp_Write (tr_handler tr) True) nd = Some (Inr nd1)" by (simp add: node_step_def nd1_def)
  have "ac_ok TCP_CHANNEL (write_next (tr_handler tr) True (nd_tcp nd))"
    by (rule ac_ok_write) (use D(2) in \<open>simp add: node_ok_def\<close>)
  then have "node_ok d p nd1" using D(2) by (simp add: nd1_def node_ok_def)
  moreover have "flow_view (tr_flow tr) (tr_handler tr) (tl (pg_chan pg)) (pg_stream pg) (nd_tcp nd1)"
    using flow_view_write [OF D(11), of "tr_handler tr" True] by (simp add: nd1_def)
  ultimately have "in_transit env d p tr ts before (pg\<lparr>pg_chan := tl (pg_chan pg)\<rparr>) nd1"
    using D by (simp add: in_transit_def nd1_def due_def)
  from Suc.IH [OF this] step show ?case by (fastforce simp: nd1_def)
qed

definition drain :: "nat \<Rightarrow> instant \<Rightarrow> nat \<Rightarrow> node_event list" where
  "drain h t n = replicate n (Nd_Forward t) @ replicate n Nd_Dispatch @ replicate n (Nd_Tcp_Write h True)"

lemma transit_drained:
  assumes env: "env_ok d p env" and pg: "in_transit env d p tr ts before pg nd" "pg_rest pg = []" "d \<le> length (pg_all pg)"
    and n: "d + p + TCP_CHANNEL \<le> n"
  shows "\<exists>nd'. node_run env (drain (tr_handler tr) t n) nd = Some (Inr nd') \<and>
    cn_written (ac_conns (nd_tcp nd') ! tr_handler tr) = before @ tr_data tr"
proof -
  let ?ts = "insert t ts"
  have pg0: "in_transit env d p tr ?ts before pg nd" using in_transit_mono [OF pg(1)] by blast
  obtain nd1 pg1 where r1: "node_run env (replicate n (Nd_Forward t)) nd = Some (Inr nd1)"
    "in_transit env d p tr ?ts before pg1 nd1" "pg_rest pg1 = []" "pg_all pg1 = pg_all pg"
    "length (nd_inbox nd1) = length (nd_inbox nd) - n"
    using drain_queue [OF env _ pg0 pg(2), of t n] by auto
  obtain nd2 pg2 where r2: "node_run env (replicate n Nd_Dispatch) nd1 = Some (Inr nd2)"
    "in_transit env d p tr ?ts before pg2 nd2" "pg_rest pg2 = []" "pg_all pg2 = pg_all pg"
    "nd_inbox nd2 = nd_inbox nd1" "length (fw_local (nd_fw nd2)) = length (fw_local (nd_fw nd1)) - n"
    using drain_local [OF env r1(2), of n] r1(3,4) by auto
  obtain nd3 pg3 where r3: "node_run env (replicate n (Nd_Tcp_Write (tr_handler tr) True)) nd2 = Some (Inr nd3)"
    "in_transit env d p tr ?ts before pg3 nd3" "pg_rest pg3 = []" "pg_all pg3 = pg_all pg"
    "nd_inbox nd3 = nd_inbox nd2" "nd_fw nd3 = nd_fw nd2" "length (pg_chan pg3) = length (pg_chan pg2) - n"
    using drain_channel [OF env r2(2), of n] r2(3,4) by auto
  note D = in_transitD [OF r3(2)]
  have "length (nd_inbox nd) \<le> d + p"
  proof -
    note E = in_transitD [OF pg(1)]
    have "length (pg_queue pg) \<le> card {..<d + p}"
      using E(5,6) by (metis card_mono distinct_append distinct_card finite_lessThan le_sup_iff set_append)
    then show ?thesis by (simp add: E(8))
  qed
  then have "pg_queue pg3 = []" using n r1(5) r2(5) r3(5) D(8) by simp
  then have full: "\<not> length (pg_done pg3) < d" using pg(3) r3(3,4) by (metis append_Nil2 not_le)
  have "length (fw_local (nd_fw nd1)) \<le> TCP_CHANNEL" using in_transitD(13) [OF r1(2)] by simp
  then have loc: "fw_local (nd_fw nd3) = []" using n r2(6) r3(6) by simp
  have "length (pg_chan pg2) \<le> TCP_CHANNEL" using in_transitD(13) [OF r2(2)] by simp
  then have chan: "pg_chan pg3 = []" using n r3(7) by simp
  have "pg_stream pg3 = before @ tr_data tr" using D(12) loc full by (simp add: due_def)
  moreover have "cn_written (ac_conns (nd_tcp nd3) ! tr_handler tr) = pg_stream pg3"
    using D(11) chan by (auto simp: flow_view_def stream_def)
  moreover have "node_run env (drain (tr_handler tr) t n) nd = Some (Inr nd3)"
    by (simp add: drain_def node_run_append r1(1) r2(1) r3(1))
  ultimately show ?thesis by simp
qed

section \<open>The sending node\<close>

definition client_sends :: "nat \<Rightarrow> bytes list \<Rightarrow> node_event list" where
  \<comment> \<open>a TCP client of the node writes the chunks one by one, and each is relayed\<close>
  "client_sends i xs = concat (map (\<lambda>x. [Nd_Tcp_Read i (Read_Data x), Nd_Tcp_Send i]) xs)"

lemma client_sends_run:
  assumes env: "env_ok d p env"
  shows "fw_ok d p (nd_fw nd) \<Longrightarrow> routable env (nd_fw nd) (ac_dest (nd_tcp nd)) \<Longrightarrow>
    i < length (ac_conns (nd_tcp nd)) \<Longrightarrow> cn_reading (ac_conns (nd_tcp nd) ! i) \<Longrightarrow> cn_todo (ac_conns (nd_tcp nd) ! i) = [] \<Longrightarrow>
    \<forall>x \<in> set xs. 0 < length x \<and> length x \<le> MAX_RELAY_DATA \<Longrightarrow>
    fw_run env (send_events (ac_dest (nd_tcp nd)) (map (Pair (cn_flow (ac_conns (nd_tcp nd) ! i))) xs)) (nd_fw nd) = Some (Inr fw') \<Longrightarrow>
    node_run env (client_sends i xs) nd = Some (Inr (nd\<lparr>nd_fw := fw'\<rparr>))"
proof (induction xs arbitrary: nd)
  case Nil
  then show ?case by (simp add: client_sends_def send_events_def)
next
  case (Cons x xs)
  let ?s = "nd_tcp nd" and ?f = "cn_flow (ac_conns (nd_tcp nd) ! i)"
  have x: "0 < length x" "length x \<le> MAX_RELAY_DATA" using Cons.prems(6) by auto
  then have x30: "length x < 2 ^ 30" and xr: "length x \<le> READ_BUF" by (simp_all add: MAX_RELAY_DATA_def READ_BUF_def)
  obtain fw1 where send: "send_to_node env (ac_dest ?s) ?f x (nd_fw nd) = Some (Inr (Inr (), fw1))"
    and fw1: "fw_ok d p fw1" "routable env fw1 (ac_dest ?s)"
    using send_routable [OF env Cons.prems(1,2) x30] .
  have chunk: "chunks MAX_RELAY_DATA x = [x]"
    using x by (cases x) (simp_all add: chunks.simps)
  let ?s1 = "upd_conn i (tcp_read (Read_Data x)) ?s"
  have c: "ac_conns ?s1 ! i = (ac_conns ?s ! i)\<lparr>cn_todo := [x]\<rparr>"
    using Cons.prems(3-5) x xr chunk by (simp add: upd_conn_nth tcp_read_def min_absorb1)
  have s1: "ac_conns ?s1 = (ac_conns ?s)[i := (ac_conns ?s ! i)\<lparr>cn_todo := [x]\<rparr>]"
    using c Cons.prems(3) by (simp add: upd_conn_def)
  have same: "(ac_conns ?s ! i)\<lparr>cn_todo := []\<rparr> = ac_conns ?s ! i" using Cons.prems(5) by (cases "ac_conns ?s ! i") simp
  have "node_step env (Nd_Tcp_Read i (Read_Data x)) nd = Some (Inr (nd\<lparr>nd_tcp := ?s1\<rparr>))" by (simp add: node_step_def)
  moreover have "upd_conn i (piece_sent True) ?s1 = ?s"
    using Cons.prems(3) c s1 same by (simp add: upd_conn_def piece_sent_def)
  then have "node_step env (Nd_Tcp_Send i) (nd\<lparr>nd_tcp := ?s1\<rparr>) = Some (Inr (nd\<lparr>nd_fw := fw1\<rparr>))"
    using send_next_step [of i ?s1 x "[]" env "nd_fw nd"] Cons.prems(3) c send by (simp add: node_step_def)
  moreover have "fw_run env (send_events (ac_dest ?s) (map (Pair ?f) xs)) fw1 = Some (Inr fw')"
    using Cons.prems(7) send by (simp add: send_events_def fw_step_def)
  then have "node_run env (client_sends i xs) (nd\<lparr>nd_fw := fw1\<rparr>) = Some (Inr (nd\<lparr>nd_fw := fw'\<rparr>))"
    using Cons.IH [of "nd\<lparr>nd_fw := fw1\<rparr>"] Cons.prems fw1 by simp
  ultimately show ?case by (simp add: client_sends_def)
qed

lemma client_burst:
  assumes env: "env_ok d p env" and A: "node_ok d p A"
    and hop: "next_hop (env_pop env) (fw_router (nd_fw A)) dest = Some (Inr (Some r))"
      "dm_get (fw_tunnels (nd_fw A)) (next_hop_node r) = Some i" "dm_get (fw_senders (nd_fw A)) (next_hop_node r) = Some s"
    and client: "j < length (ac_conns (nd_tcp A))" "cn_reading (ac_conns (nd_tcp A) ! j)"
      "cn_todo (ac_conns (nd_tcp A) ! j) = []" "ac_dest (nd_tcp A) = dest"
    and xs: "snd_buffer s = []" "xs \<noteq> []" "length xs < d" "\<forall>x \<in> set xs. 0 < length x \<and> length dest + length x \<le> 1386"
    and dest: "length dest \<le> 255" "utf8_valid (str_bytes dest)"
  obtains ys A1 k A2 fs
  where "codeword (env_rs env) d p (relay_payloads dest (map (Pair (cn_flow (ac_conns (nd_tcp A) ! j))) xs)) ys"
    and "node_run env (client_sends j xs @ [Nd_Flush now]) A = Some (Inr A1)"
    and "node_run env (replicate (d + p) (Nd_Task k)) A1 = Some (Inr A2)"
    and "fw_sent (nd_fw A2) = fw_sent (nd_fw A) @ map (Pair (tun_peer_addr (fw_arena (nd_fw A) ! i))) fs"
    and "length fs = d + p"
    and "\<And>m. m < d + p \<Longrightarrow> frame_for (env_aead env) (tun_crypto (fw_arena (nd_fw A) ! i))
      (tun_tx_seq (fw_arena (nd_fw A) ! i) + word_of_nat m) (shard_frame (shards_cfg d p) (snd_block_id s) ys m) (fs ! m)"
proof -
  let ?fw = "nd_fw A" and ?ps = "map (Pair (cn_flow (ac_conns (nd_tcp A) ! j))) xs"
  have ok: "fw_ok d p ?fw" using A by (simp add: node_ok_def)
  have ps: "?ps \<noteq> []" "length ?ps < d" "\<forall>(f, x) \<in> set ?ps. length dest + length x \<le> 1386" using xs by auto
  have small: "\<forall>b \<in> set (relay_payloads dest ?ps). length b \<le> 20000"
    using relay_payload_facts(2) [OF dest ps(3)] by fastforce
  obtain ys F1 k F2 fs where code: "codeword (env_rs env) d p (relay_payloads dest ?ps) ys"
    and run: "fw_run env (send_events dest ?ps @ [Ev_Flush now]) ?fw = Some (Inr F1)"
      "fw_run env (replicate (d + p) (Ev_Task k)) F1 = Some (Inr F2)"
    and sent: "fw_sent F2 = fw_sent ?fw @ map (Pair (tun_peer_addr (fw_arena ?fw ! i))) fs" "length fs = d + p"
    and frames: "\<And>m. m < d + p \<Longrightarrow> frame_for (env_aead env) (tun_crypto (fw_arena ?fw ! i))
      (tun_tx_seq (fw_arena ?fw ! i) + word_of_nat m) (shard_frame (shards_cfg d p) (snd_block_id s) ys m) (fs ! m)"
    using partial_datagrams [OF env ok hop xs(1) ps(1,2) small, of now] by metis
  obtain F0 where F0: "fw_run env (send_events dest ?ps) ?fw = Some (Inr F0)" "fw_step env (Ev_Flush now) F0 = Some (Inr F1)"
    using run(1) by (auto simp: fw_run_append obind_Some_Inr)
  have "routable env ?fw (ac_dest (nd_tcp A))" using hop client(4) by (auto simp: routable_def)
  moreover have "\<forall>x \<in> set xs. 0 < length x \<and> length x \<le> MAX_RELAY_DATA" using xs(4) by (fastforce simp: MAX_RELAY_DATA_def)
  ultimately have "node_run env (client_sends j xs) A = Some (Inr (A\<lparr>nd_fw := F0\<rparr>))"
    using client_sends_run [OF env ok _ client(1-3)] F0(1) client(4) by blast
  then have "node_run env (client_sends j xs @ [Nd_Flush now]) A = Some (Inr (A\<lparr>nd_fw := F1\<rparr>))"
    using F0(2) by (simp add: node_run_append node_step_def fw_turn_def)
  moreover have "node_run env (replicate (d + p) (Nd_Task k)) (A\<lparr>nd_fw := F1\<rparr>) = Some (Inr (A\<lparr>nd_fw := F2\<rparr>))"
    using node_fw_run [of env "replicate (d + p) k" "A\<lparr>nd_fw := F1\<rparr>" F2] run(2) by simp
  ultimately show thesis using that [OF code _ _ _ sent(2) frames] sent(1) by simp
qed

text \<open>What becomes of the datagrams of such a burst at the other node.\<close>

lemma burst_received:
  assumes env: "env_ok d p env" and B: "node_ok d p B"
    and code: "codeword (env_rs env) d p (relay_payloads dest (map (Pair f) xs)) ys"
    and frames: "\<And>m. m < d + p \<Longrightarrow> frame_for (env_aead env) c (seq + word_of_nat m) (shard_frame (shards_cfg d p) blk ys m) (fs ! m)"
    and xs: "xs \<noteq> []" "length xs < d" "\<forall>x \<in> set xs. 0 < length x \<and> length dest + length x \<le> 1386"
    and dest: "length dest \<le> 255" "utf8_valid (str_bytes dest)"
    and at_B: "fw_node_id (nd_fw B) = dest" "fw_local_open (nd_fw B)" "nd_inbox B = []" "fw_local (nd_fw B) = []"
      "dm_get (nd_peers B) addr = Some (a, c)" "dm_get (fw_receivers (nd_fw B)) a = Some rcv" "dm_get (rcv_blocks rcv) blk = None"
    and peer: "f < QUIC_FLOWS" "flow_view f h q before (nd_tcp B)" "length q + length xs \<le> TCP_CHANNEL"
    and ms: "distinct ms" "set ms \<subseteq> {..<d + p}" "d \<le> length ms" "length ms < 2 * d"
    and es: "schedule_ok h f (ac_next (nd_tcp B)) {t. Nd_Forward t \<in> set es} es"
      "frames_in (env_aead env) (nd_peers B) es =
        frames_in (env_aead env) (nd_peers B) (map (\<lambda>m. Nd_Receive (Recv_Dgram (fs ! m) addr)) ms)"
    and n: "d + p + TCP_CHANNEL \<le> n"
  shows "\<exists>B1 B2. node_run env es B = Some (Inr B1) \<and> prefix (stream (ac_conns (nd_tcp B1) ! h)) (before @ xs) \<and>
    node_run env (drain h t n) B1 = Some (Inr B2) \<and> cn_written (ac_conns (nd_tcp B2) ! h) = before @ xs"
proof -
  define tr where "tr = \<lparr>tr_src = a, tr_addr = addr, tr_crypto = c, tr_seq = seq,
    tr_block = blk, tr_shards = ys, tr_flow = f, tr_data = xs, tr_handler = h\<rparr>"
  have tr: "transfer_ok env d p dest tr" using code xs dest peer(1) by (simp add: transfer_ok_def tr_def tr_payloads_def)
  note T = transfer_facts [OF tr]
  have sel: "tr_handler tr = h" "tr_flow tr = f" "tr_data tr = xs" by (simp_all add: tr_def)
  have acc: "accepted_packet (env_aead env) (nd_peers B) (Recv_Dgram (fs ! m) addr) = [(a, tr_packet d p tr m)]" if "m < d + p" for m
    using frame_accepted [OF frames [OF that] at_B(5)] shard_frame_length [OF T(1) that T(9,6)]
    by (simp add: tr_packet_def tr_frame_def tr_def MAX_PAYLOAD_def)
  define pg where "pg = \<lparr>pg_done = [], pg_queue = [], pg_rest = ms, pg_chan = q, pg_stream = before\<rparr>"
  have start: "in_transit env d p tr {t. Nd_Forward t \<in> set es} before pg B"
    using tr B at_B peer T(2) ms
    by (simp add: in_transit_def pg_def tr_def block_view_def arrived_def due_def)
  have "frames_in (env_aead env) (nd_peers B) es = map (\<lambda>m. (tr_src tr, tr_packet d p tr m)) (pg_rest pg)"
    using ms(2) unfolding es(2) by (simp add: pg_def frames_in_def comp_def tr_def) (induction ms; simp add: acc [unfolded tr_def])
  from transit_run [OF env start, unfolded sel, OF es(1) this] obtain B1 pg1 where B1: "node_run env es B = Some (Inr B1)"
    "in_transit env d p tr {t. Nd_Forward t \<in> set es} before pg1 B1" "pg_rest pg1 = []" "pg_all pg1 = pg_all pg"
    by blast
  note D = in_transitD [OF B1(2)]
  have "stream (ac_conns (nd_tcp B1) ! h) = pg_stream pg1" using D(11) by (simp add: flow_view_def tr_def)
  moreover have "prefix (pg_stream pg1) (before @ due d tr pg1)" using D(12) by (metis prefixI)
  moreover have "prefix (before @ due d tr pg1) (before @ xs)" by (simp add: due_def tr_def)
  ultimately have "prefix (stream (ac_conns (nd_tcp B1) ! h)) (before @ xs)" using prefix_order.trans by metis
  moreover have "d \<le> length (pg_all pg1)" using ms(3) B1(4) by (simp add: pg_def)
  from transit_drained [OF env B1(2,3) this n] obtain B2 where
    "node_run env (drain h t n) B1 = Some (Inr B2)" "cn_written (ac_conns (nd_tcp B2) ! h) = before @ xs"
    unfolding sel by blast
  ultimately show ?thesis using B1(1) by blast
qed

section \<open>Property\<close>

text \<open>C1. What a client of one node writes, the client of the other node reads, as long as its chunks are small: non-empty and,
  with the name of node B (at most 255 bytes), at most 1386 bytes (a full 1400-byte chunk is lost, C34). A TCP client of A,
  its flow number below 1,000,000, writes fewer than \<open>d\<close> of them while A has a route to B and nothing buffered for the
  next hop; the next tick sends them, and the task puts \<open>d + p\<close> datagrams on the wire. B, its queues empty, may run
  any schedule and see any forged datagrams, as long as the packets it accepts are those of at least \<open>d\<close> and
  fewer than \<open>2 * d\<close> of A's datagrams, in any order, the client stays and has room in its channel, no write to it fails, its
  flow number is not reused, and no tick comes 500 ms or more after a packet is handled: its stream holds only a
  prefix of the chunks after what it had before, and after turns of the forwarder, the dispatcher and the write task it has
  been written all of them, in order, once.\<close>

theorem client_to_client:
  assumes env: "env_ok d p env" and A: "node_ok d p A" and B: "node_ok d p B"
    and hop: "next_hop (env_pop env) (fw_router (nd_fw A)) dest = Some (Inr (Some r))"
      "dm_get (fw_tunnels (nd_fw A)) (next_hop_node r) = Some i" "dm_get (fw_senders (nd_fw A)) (next_hop_node r) = Some s"
    and client: "j < length (ac_conns (nd_tcp A))" "cn_reading (ac_conns (nd_tcp A) ! j)"
      "cn_todo (ac_conns (nd_tcp A) ! j) = []" "ac_dest (nd_tcp A) = dest" "cn_flow (ac_conns (nd_tcp A) ! j) = f"
    and xs: "snd_buffer s = []" "xs \<noteq> []" "length xs < d" "\<forall>x \<in> set xs. 0 < length x \<and> length dest + length x \<le> 1386"
    and dest: "length dest \<le> 255" "utf8_valid (str_bytes dest)"
    and at_B: "fw_node_id (nd_fw B) = dest" "fw_local_open (nd_fw B)" "nd_inbox B = []" "fw_local (nd_fw B) = []"
      "dm_get (nd_peers B) addr = Some (a, tun_crypto (fw_arena (nd_fw A) ! i))"
      "dm_get (fw_receivers (nd_fw B)) a = Some rcv" "dm_get (rcv_blocks rcv) (snd_block_id s) = None"
    and peer: "f < QUIC_FLOWS" "flow_view f h q before (nd_tcp B)" "length q + length xs \<le> TCP_CHANNEL"
  shows "\<exists>A1 k A2 fs. node_run env (client_sends j xs @ [Nd_Flush now]) A = Some (Inr A1) \<and>
    node_run env (replicate (d + p) (Nd_Task k)) A1 = Some (Inr A2) \<and>
    fw_sent (nd_fw A2) = fw_sent (nd_fw A) @ map (Pair (tun_peer_addr (fw_arena (nd_fw A) ! i))) fs \<and> length fs = d + p \<and>
    (\<forall>ms es t n. distinct ms \<and> set ms \<subseteq> {..<d + p} \<and> d \<le> length ms \<and> length ms < 2 * d \<and>
       schedule_ok h f (ac_next (nd_tcp B)) {t. Nd_Forward t \<in> set es} es \<and>
       frames_in (env_aead env) (nd_peers B) es =
         frames_in (env_aead env) (nd_peers B) (map (\<lambda>m. Nd_Receive (Recv_Dgram (fs ! m) addr)) ms) \<and>
       d + p + TCP_CHANNEL \<le> n \<longrightarrow>
       (\<exists>B1 B2. node_run env es B = Some (Inr B1) \<and> prefix (stream (ac_conns (nd_tcp B1) ! h)) (before @ xs) \<and>
          node_run env (drain h t n) B1 = Some (Inr B2) \<and> cn_written (ac_conns (nd_tcp B2) ! h) = before @ xs))"
proof -
  let ?t = "fw_arena (nd_fw A) ! i"
  obtain ys A1 k A2 fs
    where code: "codeword (env_rs env) d p (relay_payloads dest (map (Pair f) xs)) ys"
      and runs: "node_run env (client_sends j xs @ [Nd_Flush now]) A = Some (Inr A1)"
        "node_run env (replicate (d + p) (Nd_Task k)) A1 = Some (Inr A2)"
        "fw_sent (nd_fw A2) = fw_sent (nd_fw A) @ map (Pair (tun_peer_addr ?t)) fs" "length fs = d + p"
      and frames: "\<And>m. m < d + p \<Longrightarrow> frame_for (env_aead env) (tun_crypto ?t) (tun_tx_seq ?t + word_of_nat m)
        (shard_frame (shards_cfg d p) (snd_block_id s) ys m) (fs ! m)"
    using client_burst [OF env A hop client(1-4) xs dest, of now] unfolding client(5) by metis
  note received = burst_received [OF env B code frames xs(2-4) dest at_B peer]
  show ?thesis
    by (intro exI [of _ A1] exI [of _ k] exI [of _ A2] exI [of _ fs] conjI runs) (intro allI impI, elim conjE, rule received)
qed

definition syd_node :: node where
  "syd_node = \<lparr>nd_fw = measured_forwarder, nd_peers = [], nd_buf = replicate MAX_PACKET 0, nd_inbox = [], nd_probes = [],
     nd_probe_ms = 500, nd_tcp = demo_edge, nd_quic = quic_acceptor_new ''lon''\<rparr>"

definition lon_node :: node where
  "lon_node = \<lparr>nd_fw = lon_forwarder, nd_peers = [((2, 9001), (''syd'', tun_crypto demo_tunnel))],
     nd_buf = replicate MAX_PACKET 0, nd_inbox = [], nd_probes = [], nd_probe_ms = 500, nd_tcp = demo_edge,
     nd_quic = quic_acceptor_new ''lon''\<rparr>"

lemma demo_nodes_ok: "node_ok 2 1 syd_node" "node_ok 2 1 lon_node"
proof -
  have "fw_ok 2 1 lon_forwarder"
    unfolding lon_forwarder_def by (intro fw_ok_add_tunnel fresh_forwarder_ok) (simp_all add: tunnel_ok_def)
  then show "node_ok 2 1 syd_node" "node_ok 2 1 lon_node"
    using measured_forwarder_ok demo_edge_ok(1) ac_ok_new(2) by (simp_all add: node_ok_def syd_node_def lon_node_def)
qed

theorem client_to_client_witness:
  "\<exists>A1 k A2 fs B1 B2. node_run demo_env (client_sends 0 [[7]] @ [Nd_Flush 5]) syd_node = Some (Inr A1) \<and>
     node_run demo_env (replicate 3 (Nd_Task k)) A1 = Some (Inr A2) \<and> fw_sent (nd_fw A2) = map (Pair (1, 9000)) fs \<and>
     node_run demo_env [Nd_Receive (Recv_Dgram [1, 2] (9, 9)), Nd_Receive (Recv_Dgram (fs ! 2) (2, 9001)), Nd_Flush 3,
       Nd_Receive (Recv_Dgram (fs ! 0) (2, 9001)), Nd_Forward 5] lon_node = Some (Inr B1) \<and>
     node_run demo_env (drain 0 6 3000) B1 = Some (Inr B2) \<and> cn_written (ac_conns (nd_tcp B2) ! 0) = [[7]]"
proof -
  let ?r = "\<lparr>next_hop_node = ''lon'', total_rtt = 50000000, route_path = [''syd'', ''lon'']\<rparr>"
  let ?es = "\<lambda>fs. [Nd_Receive (Recv_Dgram [1, 2] (9, 9)), Nd_Receive (Recv_Dgram (fs ! 2) (2, 9001)), Nd_Flush 3,
       Nd_Receive (Recv_Dgram (fs ! 0) (2, 9001)), Nd_Forward 5]"
  have A: "nd_fw syd_node = measured_forwarder" "nd_tcp syd_node = demo_edge" by (simp_all add: syd_node_def)
  have B: "nd_fw lon_node = lon_forwarder" "nd_tcp lon_node = demo_edge" "nd_inbox lon_node = []"
    "dm_get (nd_peers lon_node) (2, 9001) = Some (''syd'', tun_crypto (fw_arena measured_forwarder ! 0))"
    by (simp_all add: lon_node_def dm_get_def measured_hop)
  have e: "ac_dest demo_edge = ''lon''" "length (ac_conns demo_edge) = 2" "ac_conns demo_edge ! 0 = conn_new 1"
    by (simp_all add: demo_edge_def open_flow_def next_flow_def fetch_add_def tcp_splitter_new_def)
  have tun: "dm_get (fw_tunnels measured_forwarder) (next_hop_node ?r) = Some 0"
    and snd: "dm_get (fw_senders measured_forwarder) (next_hop_node ?r) = Some (empty_sender (shards_cfg 2 1))"
    by (simp_all add: measured_hop)
  have forged: "accepted_packet demo_aead (nd_peers lon_node) (Recv_Dgram [1, 2] (9, 9)) = []"
    by (simp add: accepted_packet_def recv_multi_def recv_from_def Let_def HEADER_SIZE_def MAX_PACKET_eq)
  have c: "0 < length (ac_conns demo_edge)" "cn_reading (ac_conns demo_edge ! 0)" "cn_todo (ac_conns demo_edge ! 0) = []"
    "cn_flow (ac_conns demo_edge ! 0) = 1"
    by (simp_all add: e conn_new_def)
  have s: "snd_buffer (empty_sender (shards_cfg 2 1)) = []" "dm_get (rcv_blocks fec_receiver_new) b = None" for b
    by (simp_all add: empty_sender_def fec_receiver_new_def)
  have x: "[[7 :: byte]] \<noteq> []" "length [[7 :: byte]] < 2"
    "\<forall>x \<in> set [[7 :: byte]]. 0 < length x \<and> length ''lon'' + length x \<le> 1386" "length ''lon'' \<le> 255"
    by simp_all
  have q: "(1 :: u32) < QUIC_FLOWS" "length ([] :: bytes list) + length [[7 :: byte]] \<le> TCP_CHANNEL"
    by (simp_all add: QUIC_FLOWS_def TCP_CHANNEL_def)
  from client_to_client [OF demo_env_ok demo_nodes_ok, unfolded A B(1-3), OF measured_hop(1) tun snd c(1-3) e(1) c(4) s(1)
      x str_lon(2) lon_forwarder_simps(1,2) _ lon_forwarder_simps(3) B(4) lon_forwarder_simps(4) s(2) q(1) demo_edge_ok(2) q(2), of 5]
  obtain A1 k A2 fs where runs: "node_run demo_env (client_sends 0 [[7]] @ [Nd_Flush 5]) syd_node = Some (Inr A1)"
      "node_run demo_env (replicate (2 + 1) (Nd_Task k)) A1 = Some (Inr A2)"
      "fw_sent (nd_fw A2) = fw_sent measured_forwarder @ map (Pair (tun_peer_addr (fw_arena measured_forwarder ! 0))) fs"
    and recv: "\<And>ms es t n. distinct ms \<and> set ms \<subseteq> {..<2 + 1} \<and> 2 \<le> length ms \<and> length ms < 2 * 2 \<and>
       schedule_ok 0 1 (ac_next demo_edge) {t. Nd_Forward t \<in> set es} es \<and>
       frames_in (env_aead demo_env) (nd_peers lon_node) es =
         frames_in (env_aead demo_env) (nd_peers lon_node) (map (\<lambda>m. Nd_Receive (Recv_Dgram (fs ! m) (2, 9001))) ms) \<and>
       2 + 1 + TCP_CHANNEL \<le> n \<Longrightarrow>
       \<exists>B1 B2. node_run demo_env es lon_node = Some (Inr B1) \<and> prefix (stream (ac_conns (nd_tcp B1) ! 0)) ([] @ [[7]]) \<and>
          node_run demo_env (drain 0 t n) B1 = Some (Inr B2) \<and> cn_written (ac_conns (nd_tcp B2) ! 0) = [] @ [[7]]"
    by blast
  have fresh: "ac_next demo_edge + word_of_nat k \<noteq> 1" if "k < 5" for k
  proof -
    have "k = 0 \<or> k = 1 \<or> k = 2 \<or> k = 3 \<or> k = 4" using that by linarith
    then show ?thesis by (auto simp: demo_edge_ok)
  qed
  have "schedule_ok 0 1 (ac_next demo_edge) {t. Nd_Forward t \<in> set (?es fs)} (?es fs)"
    using fresh by (simp add: schedule_ok_def)
  moreover have "frames_in (env_aead demo_env) (nd_peers lon_node) (?es fs) =
      frames_in (env_aead demo_env) (nd_peers lon_node) (map (\<lambda>m. Nd_Receive (Recv_Dgram (fs ! m) (2, 9001))) [2, 0])"
    by (simp add: forged)
  ultimately have "\<exists>B1 B2. node_run demo_env (?es fs) lon_node = Some (Inr B1) \<and>
      prefix (stream (ac_conns (nd_tcp B1) ! 0)) ([] @ [[7]]) \<and>
      node_run demo_env (drain 0 6 3000) B1 = Some (Inr B2) \<and> cn_written (ac_conns (nd_tcp B2) ! 0) = [] @ [[7]]"
    by (intro recv [of "[2, 0]"]) (simp add: TCP_CHANNEL_def)
  moreover have "fw_sent (nd_fw A2) = map (Pair (1, 9000)) fs" using runs(3) by (simp add: measured_hop)
  ultimately show ?thesis using runs(1,2) unfolding append_Nil by (metis add_2_eq_Suc' numeral_plus_one semiring_norm(5))
qed

end
