(* ===== verification/Mesh_Bootstrap.thy ===== *)
theory Mesh_Bootstrap
  imports Client_To_Client
begin

text \<open>
  From two configuration files to the bytes at a client.  A node as \<open>main\<close> builds it has a tunnel to every
  peer and no route at all: its matrix is empty.  The first probe to a peer, the pong that comes back and
  the measurement it yields open the route; from then on the two nodes are in the situation of \<open>Client_To_Client\<close>.
\<close>

section \<open>The links of a configured node\<close>

definition linked :: "node \<Rightarrow> nat \<Rightarrow> node_name \<Rightarrow> sock_addr \<Rightarrow> bytes \<Rightarrow> bool" where
  \<comment> \<open>the probe loop and the tunnel number \<open>k\<close> are for peer \<open>b\<close> at \<open>addr\<close>, and nothing has been sent or received\<close>
  "linked nd k b addr key \<longleftrightarrow>
     k < length (nd_probes nd) \<and> nd_probes nd ! k = (b, k) \<and>
     k < length (fw_arena (nd_fw nd)) \<and> fw_arena (nd_fw nd) ! k = tunnel_new addr key \<and>
     dm_get (fw_tunnels (nd_fw nd)) b = Some k \<and>
     dm_get (nd_peers nd) addr = Some (b, crypto_new key) \<and>
     dm_get (fw_senders (nd_fw nd)) b = Some (empty_sender (fw_fec_config (nd_fw nd))) \<and>
     dm_get (fw_receivers (nd_fw nd)) b = Some fec_receiver_new"

lemma dm_get_or_insert: "dm_get (or_insert k v m) k' = (if k = k' \<and> dm_get m k = None then Some v else dm_get m k')"
  by (auto simp: or_insert_def split: option.split)

lemma add_peer_keeps_link:
  assumes "add_peer b64 x nd = Inr nd'" "linked nd k b addr key" "pc_node_id x \<noteq> b" "pc_addr x \<noteq> addr"
  shows "linked nd' k b addr key"
  using assms(1)
  by (rule add_peer_InrE) (use assms(2-4) in \<open>simp add: peer_added_def linked_def tunnel_added_def dm_get_or_insert nth_append\<close>)

lemma add_peer_links:
  assumes "add_peer b64 x nd = Inr nd'" "length (nd_probes nd) = length (fw_arena (nd_fw nd))"
    and "dm_get (fw_senders (nd_fw nd)) (pc_node_id x) = None" "dm_get (fw_receivers (nd_fw nd)) (pc_node_id x) = None"
    and "decode_key b64 x = Inr key"
  shows "linked nd' (length (nd_probes nd)) (pc_node_id x) (pc_addr x) key"
  using assms(1)
  by (rule add_peer_InrE) (use assms(2-5) in \<open>simp add: peer_added_def linked_def tunnel_added_def dm_get_or_insert nth_append\<close>)

lemma add_peer_counts:
  assumes "add_peer b64 x nd = Inr nd'"
  shows "length (nd_probes nd') = Suc (length (nd_probes nd))" "length (fw_arena (nd_fw nd')) = Suc (length (fw_arena (nd_fw nd)))"
    and "b \<noteq> pc_node_id x \<Longrightarrow> dm_get (fw_senders (nd_fw nd')) b = dm_get (fw_senders (nd_fw nd)) b"
    and "b \<noteq> pc_node_id x \<Longrightarrow> dm_get (fw_receivers (nd_fw nd')) b = dm_get (fw_receivers (nd_fw nd)) b"
  using assms by (rule add_peer_InrE; simp add: peer_added_def tunnel_added_def dm_get_or_insert)+

lemma add_peers_keep_link:
  "add_peers b64 xs nd = Inr nd' \<Longrightarrow> linked nd k b addr key \<Longrightarrow> b \<notin> pc_node_id ` set xs \<Longrightarrow> addr \<notin> pc_addr ` set xs \<Longrightarrow>
   linked nd' k b addr key"
proof (induction xs arbitrary: nd)
  case (Cons x xs)
  then obtain nd1 where "add_peer b64 x nd = Inr nd1" "add_peers b64 xs nd1 = Inr nd'" by (auto simp: rbind_eq_Inr_iff)
  with Cons add_peer_keeps_link show ?case by (metis image_insert insert_iff list.simps(15))
qed simp

lemma add_peers_link:
  "add_peers b64 xs nd = Inr nd' \<Longrightarrow> length (nd_probes nd) = length (fw_arena (nd_fw nd)) \<Longrightarrow>
   \<forall>x \<in> set xs. dm_get (fw_senders (nd_fw nd)) (pc_node_id x) = None \<and> dm_get (fw_receivers (nd_fw nd)) (pc_node_id x) = None \<Longrightarrow>
   distinct (map pc_node_id xs) \<Longrightarrow> distinct (map pc_addr xs) \<Longrightarrow> j < length xs \<Longrightarrow> decode_key b64 (xs ! j) = Inr key \<Longrightarrow>
   linked nd' (length (nd_probes nd) + j) (pc_node_id (xs ! j)) (pc_addr (xs ! j)) key"
proof (induction xs arbitrary: nd j)
  case (Cons x xs)
  obtain nd1 where nd1: "add_peer b64 x nd = Inr nd1" "add_peers b64 xs nd1 = Inr nd'"
    using Cons.prems(1) by (auto simp: rbind_eq_Inr_iff)
  show ?case
  proof (cases j)
    case 0
    have "linked nd1 (length (nd_probes nd)) (pc_node_id x) (pc_addr x) key"
      using Cons.prems nd1(1) 0 by (intro add_peer_links) simp_all
    with add_peers_keep_link [OF nd1(2)] Cons.prems(4,5) 0 show ?thesis by simp
  next
    case (Suc i)
    have "\<forall>y \<in> set xs. dm_get (fw_senders (nd_fw nd1)) (pc_node_id y) = None \<and>
        dm_get (fw_receivers (nd_fw nd1)) (pc_node_id y) = None"
    proof
      fix y
      assume y: "y \<in> set xs"
      then have "pc_node_id y \<noteq> pc_node_id x" using Cons.prems(4) by (metis distinct.simps(2) imageI list.simps(9) set_map)
      then show "dm_get (fw_senders (nd_fw nd1)) (pc_node_id y) = None \<and> dm_get (fw_receivers (nd_fw nd1)) (pc_node_id y) = None"
        using add_peer_counts(3,4) [OF nd1(1)] Cons.prems(3) y by simp
    qed
    then have "linked nd' (length (nd_probes nd1) + i) (pc_node_id (xs ! i)) (pc_addr (xs ! i)) key"
      using Cons.prems Suc add_peer_counts(1,2) [OF nd1(1)] by (intro Cons.IH [OF nd1(2)]) simp_all
    then show ?thesis using add_peer_counts(1) [OF nd1(1)] Suc by simp
  qed
qed simp

definition as_built :: "config \<Rightarrow> node \<Rightarrow> bool" where
  "as_built c nd \<longleftrightarrow> nd_inbox nd = [] \<and> nd_probe_ms nd = mc_probe_interval_ms (cfg_mesh c) \<and>
     fw_node_id (nd_fw nd) = cfg_node_id c \<and> fw_router_node (nd_fw nd) = cfg_node_id c \<and>
     fw_prober (nd_fw nd) = prober_new (cfg_node_id c) matrix_new \<and> fw_local_open (nd_fw nd) \<and> fw_local (nd_fw nd) = [] \<and>
     fw_sent (nd_fw nd) = [] \<and> fw_fec_config (nd_fw nd) = fec_config_of (cfg_relay c) \<and>
     ac_dest (nd_tcp nd) = rc_default_dest (cfg_relay c) \<and> ac_active (nd_tcp nd) = [] \<and> ac_next (nd_tcp nd) = 1 \<and>
     ac_conns (nd_tcp nd) = []"

lemma add_peers_as_built: "add_peers b64 xs nd = Inr nd' \<Longrightarrow> as_built c nd \<Longrightarrow> as_built c nd'"
proof (induction xs arbitrary: nd)
  case (Cons x xs)
  then obtain nd1 where nd1: "add_peer b64 x nd = Inr nd1" "add_peers b64 xs nd1 = Inr nd'" by (auto simp: rbind_eq_Inr_iff)
  have "as_built c nd1"
    using nd1(1) by (rule add_peer_InrE) (use Cons.prems(2) in \<open>simp add: as_built_def peer_added_def tunnel_added_def\<close>)
  with Cons.IH nd1(2) show ?case by blast
qed simp

lemma configured_node:
  assumes c: "config_ok b64 c" "fec_config_of (cfg_relay c) = shards_cfg d p" "0 < d" "d \<le> 256" "mc_probe_interval_ms (cfg_mesh c) \<noteq> 0"
    and dist: "distinct (map pc_node_id (cfg_peers c))" "distinct (map pc_addr (cfg_peers c))"
    and k: "k < length (cfg_peers c)" "decode_key b64 (cfg_peers c ! k) = Inr key"
  obtains nd where "node_new b64 c = Inr nd" "node_ok d p nd" "as_built c nd"
    "linked nd k (pc_node_id (cfg_peers c ! k)) (pc_addr (cfg_peers c ! k)) key"
proof -
  obtain nd where nd: "node_new b64 c = Inr nd" "node_ok d p nd" using node_new_ok [OF c] by metis
  then obtain nd1 where nd1: "add_peers b64 (cfg_peers c) (node_base c) = Inr nd1" "nd = nd1 \<or> nd = node_with_tls nd1"
    by (auto simp: node_new_def rbind_eq_Inr_iff split: option.splits)
  have base: "as_built c (node_base c)"
    by (simp add: as_built_def node_base_def forwarder_new_def tcp_splitter_new_def Let_def)
  have "linked nd1 (length (nd_probes (node_base c)) + k) (pc_node_id (cfg_peers c ! k)) (pc_addr (cfg_peers c ! k)) key"
    using dist k by (intro add_peers_link [OF nd1(1)]) (simp_all add: node_base_def forwarder_new_def Let_def)
  then have "linked nd k (pc_node_id (cfg_peers c ! k)) (pc_addr (cfg_peers c ! k)) key"
    using nd1(2) by (auto simp: node_base_def Let_def linked_def node_with_tls_def)
  moreover have "as_built c nd"
    using add_peers_as_built [OF nd1(1) base] nd1(2) by (auto simp: as_built_def node_with_tls_def with_tls_def)
  ultimately show thesis using nd that by blast
qed

section \<open>A probe and its answer\<close>

definition sent_over :: "nat \<Rightarrow> bytes \<Rightarrow> forwarder \<Rightarrow> forwarder" where
  \<comment> \<open>the datagram has been sent over tunnel \<open>i\<close>\<close>
  "sent_over i f fw = fw\<lparr>fw_arena := (fw_arena fw)[i := snd (next_seq (fw_arena fw ! i))],
     fw_sent := fw_sent fw @ [(tun_peer_addr (fw_arena fw ! i), f)]\<rparr>"

lemma tunnel_send_frame:
  assumes "aead_lawful (env_aead env)" "length (cipher_key (tun_crypto (fw_arena fw ! i))) = 32" "length x < 2 ^ 32"
  obtains ok f where "tunnel_send env i ty x fw = Inr (ok, sent_over i f fw)"
    and "frame_for (env_aead env) (tun_crypto (fw_arena fw ! i)) (tun_tx_seq (fw_arena fw ! i)) (ty, x) f"
proof -
  obtain ct where "decrypt (env_aead env) (tun_crypto (fw_arena fw ! i)) (tun_tx_seq (fw_arena fw ! i)) ct = Inr (Inr x)"
    "length ct = length x + 16"
    and s: "send (env_aead env) (env_sock env) ty x (fw_arena fw ! i) =
      Inr (header_bytes ty (tun_tx_seq (fw_arena fw ! i)) (word_of_nat (length ct)) @ ct,
        env_sock env (tun_peer_addr (fw_arena fw ! i)) (header_bytes ty (tun_tx_seq (fw_arena fw ! i)) (word_of_nat (length ct)) @ ct),
        snd (next_seq (fw_arena fw ! i)))"
    using send_ok [OF assms] .
  moreover from this have "frame_for (env_aead env) (tun_crypto (fw_arena fw ! i)) (tun_tx_seq (fw_arena fw ! i)) (ty, x)
      (header_bytes ty (tun_tx_seq (fw_arena fw ! i)) (word_of_nat (length ct)) @ ct)"
    unfolding frame_for_def by auto
  ultimately show thesis by (intro that) (simp_all add: tunnel_send_def sent_over_def Let_def)
qed

text \<open>A control datagram is taken from the socket and handled in the next two steps.\<close>

lemma frame_handled:
  assumes env: "env_ok d p env" and nd: "node_ok d p nd" "nd_inbox nd = []"
    and f: "frame_for (env_aead env) c seq (ty, x) f" "dm_get (nd_peers nd) src = Some (pid, c)" "length x \<le> MAX_PAYLOAD"
    and ty: "ty \<noteq> PACKET_DATA" "ty \<noteq> PACKET_PARITY"
    and pong: "ty = PACKET_PONG \<Longrightarrow> matrix_fits (pr_matrix (handle_pong now pid x (fw_prober (nd_fw nd))))"
    and h: "handle_inbound env now pid \<lparr>rp_type = ty, rp_seq = seq, rp_payload = x, rp_from = src\<rparr> (nd_fw nd) = Some (Inr fw)"
  obtains buf where "node_run env [Nd_Receive (Recv_Dgram f src), Nd_Forward now] nd = Some (Inr (nd\<lparr>nd_buf := buf, nd_fw := fw\<rparr>))"
    and "node_ok d p (nd\<lparr>nd_buf := buf, nd_fw := fw\<rparr>)"
proof -
  let ?pkt = "\<lparr>rp_type = ty, rp_seq = seq, rp_payload = x, rp_from = src\<rparr>"
  have "length (nd_buf nd) = MAX_PACKET" using nd(1) by (simp add: node_ok_def)
  from receive_turn_queues [OF this, of env "Recv_Dgram f src"] obtain buf where
    "receive_turn env (Recv_Dgram f src) nd = Inr (nd\<lparr>nd_inbox := [(pid, ?pkt)], nd_buf := buf\<rparr>)"
    using frame_accepted [OF f(1,2)] f(3) nd(2) by (auto simp: INBOX_SIZE_def)
  then have r: "node_step env (Nd_Receive (Recv_Dgram f src)) nd = Some (Inr (nd\<lparr>nd_inbox := [(pid, ?pkt)], nd_buf := buf\<rparr>))"
    by (simp add: node_step_def)
  then have ok: "node_ok d p (nd\<lparr>nd_inbox := [(pid, ?pkt)], nd_buf := buf\<rparr>)"
    using node_step_total [OF env nd(1), of "Nd_Receive (Recv_Dgram f src)"] by (auto simp: node_event_ok_def)
  have e: "nd\<lparr>nd_buf := buf, nd_inbox := [], nd_fw := fw\<rparr> = nd\<lparr>nd_buf := buf, nd_fw := fw\<rparr>" using nd(2) by simp
  have s: "node_step env (Nd_Forward now) (nd\<lparr>nd_inbox := [(pid, ?pkt)], nd_buf := buf\<rparr>) =
      Some (Inr (nd\<lparr>nd_buf := buf, nd_fw := fw\<rparr>))"
    using h e by (simp add: node_step_def fw_turn_def fw_step_def)
  have "node_event_ok (Nd_Forward now) (nd\<lparr>nd_inbox := [(pid, ?pkt)], nd_buf := buf\<rparr>)"
    using ty pong by (simp add: node_event_ok_def)
  from node_step_total [OF env ok this] s have "node_ok d p (nd\<lparr>nd_buf := buf, nd_fw := fw\<rparr>)" by auto
  with r s show thesis by (intro that [of buf]) simp_all
qed

lemma direct_route:
  assumes ok: "fw_ok d p fw" and pop: "max_heap pop" and b: "b \<noteq> fw_router_node fw"
    and rtt: "get_rtt (pr_matrix (fw_prober fw)) (fw_router_node fw) b = Some r" "as_micros r < 2 ^ 64 - 1"
  obtains e where "next_hop pop (fw_router fw) b = Some (Inr (Some e))" "next_hop_node e = b" "total_rtt e = r"
proof -
  let ?rt = "fw_router fw"
  have m: "rt_matrix ?rt = pr_matrix (fw_prober fw)" "rt_local ?rt = fw_router_node fw" by (simp_all add: fw_router_def)
  have wf: "dm_wf (rt_matrix ?rt)" "matrix_fits (rt_matrix ?rt)" "star_matrix (rt_local ?rt) (rt_matrix ?rt)"
    using fw_okD(2-5) [OF ok] by (simp_all add: m prober_ok_def)
  have "(fw_router_node fw, b, r) \<in> set (all_edges (rt_matrix ?rt))" using wf(1) rtt(1) by (simp add: all_edges_iff m)
  from walk.step [OF walk.start this] have w: "walk (all_edges (rt_matrix ?rt)) (rt_local ?rt) [fw_router_node fw, b] (cost r) b"
    by (simp add: m)
  have short: "cost r < 2 ^ 64 - 1" using rtt(2) by (simp add: cost_def edge_cost_def unat_of_nat)
  have "b \<noteq> rt_local ?rt" using b m by simp
  have "next_hop pop ?rt b \<noteq> Some (Inr None)"
  proof (rule next_hop_total [OF pop \<open>b \<noteq> rt_local ?rt\<close>])
    assume "\<forall>q d. walk (all_edges (rt_matrix ?rt)) (rt_local ?rt) q d b \<longrightarrow> 2 ^ 64 - 1 \<le> d"
    then have "2 ^ 64 - 1 \<le> cost r" using w by blast
    then show "next_hop pop ?rt b \<noteq> Some (Inr None)" using short by (meson not_less)
  qed (simp split: if_split)
  with pop wf(2) show thesis
  proof (cases rule: next_hop_returns [of pop ?rt b])
    case (2 q)
    then have "q = [rt_local ?rt, b]" using star_walk_direct [OF wf(1,3)] b m by metis
    then show ?thesis
      using 2(1) rtt(1) m by (intro that [of "\<lparr>next_hop_node = b, total_rtt = r, route_path = [fw_router_node fw, b]\<rparr>"]) simp_all
  qed simp
qed

text \<open>The prober of a fresh node after its first ping, and after the pong.\<close>

lemma fresh_ping:
  "create_ping t0 b (prober_new a matrix_new) =
     (u32_to_le 1, \<lparr>pr_node = a, pr_matrix = matrix_new, pr_pending = [(1, b, t0)], pr_next_id = 2\<rparr>)"
  by (simp add: create_ping_def next_probe_def fetch_add_def prober_new_def dm_retain_def dm_insert_def PROBE_MAX_AGE_def)

definition measured :: "node_name \<Rightarrow> node_name \<Rightarrow> instant \<Rightarrow> duration \<Rightarrow> prober" where
  "measured a b t r = \<lparr>pr_node = a, pr_matrix = [((a, b), entry_new t r), ((b, a), entry_new t r)], pr_pending = [], pr_next_id = 2\<rparr>"

lemma fresh_pong:
  assumes "a \<noteq> b"
  shows "handle_pong t2 x (u32_to_le 1) \<lparr>pr_node = a, pr_matrix = matrix_new, pr_pending = [(1, b, t0)], pr_next_id = 2\<rparr> =
    measured a b t2 (t2 - t0)"
  using handle_pong_hit [of "\<lparr>pr_node = a, pr_matrix = matrix_new, pr_pending = [(1, b, t0)], pr_next_id = 2\<rparr>" 1 b t0 t2 x "[]"]
    assms by (simp add: measured_def matrix_update_def matrix_new_def dm_get_def dm_insert_def dm_remove_def)

lemma measured_fits: "r < 10 ^ 18 \<Longrightarrow> matrix_fits (pr_matrix (measured a b t r))"
  by (simp add: measured_def matrix_fits_def entry_new_def DURATION_END_def)

lemma probe_exchange:
  assumes env: "env_ok d p env"
    and A: "node_ok d p A" "as_built cA A" "linked A k b addrB key"
    and B: "node_ok d p B" "as_built cB B" "linked B l a addrA key"
    and ab: "cfg_node_id cA = a" "a \<noteq> b" "t2 - t0 < 10 ^ 18" "length key = 32"
  obtains f g bufA bufB A1 A2 B1 where
    "A2 = A\<lparr>nd_buf := bufA, nd_fw := (sent_over k f (nd_fw A))\<lparr>fw_prober := measured a b t2 (t2 - t0)\<rparr>\<rparr>"
    and "B1 = B\<lparr>nd_buf := bufB, nd_fw := sent_over l g (nd_fw B)\<rparr>"
    and "node_run env [Nd_Probe t0 k] A = Some (Inr A1)" and "fw_sent (nd_fw A1) = [(addrB, f)]"
    and "node_run env [Nd_Receive (Recv_Dgram f addrA), Nd_Forward t1] B = Some (Inr B1)"
    and "node_run env [Nd_Receive (Recv_Dgram g addrB), Nd_Forward t2] A1 = Some (Inr A2)"
    and "node_ok d p A2" "node_ok d p B1"
proof -
  let ?lib = "env_aead env" and ?P1 = "\<lparr>pr_node = a, pr_matrix = matrix_new, pr_pending = [(1, b, t0)], pr_next_id = 2\<rparr>"
  let ?F = "(nd_fw A)\<lparr>fw_prober := ?P1\<rparr>"
  have lib: "aead_lawful ?lib" using env by (simp add: env_ok_def)
  have La: "fw_arena (nd_fw A) ! k = tunnel_new addrB key" "k < length (nd_probes A)" "nd_probes A ! k = (b, k)"
    "dm_get (nd_peers A) addrB = Some (b, crypto_new key)" "nd_inbox A = []" "fw_prober (nd_fw A) = prober_new a matrix_new"
    "fw_sent (nd_fw A) = []" "nd_probe_ms A \<noteq> 0"
    using A ab(1) by (simp_all add: linked_def as_built_def node_ok_def)
  have Lb: "fw_arena (nd_fw B) ! l = tunnel_new addrA key" "dm_get (nd_peers B) addrA = Some (a, crypto_new key)"
    "nd_inbox B = []" "dm_get (fw_tunnels (nd_fw B)) a = Some l"
    using B(2,3) by (simp_all add: linked_def as_built_def)
  have key: "length (cipher_key (crypto_new key)) = 32" using ab(4) by (simp add: crypto_new_def)
  have new: "tun_crypto (tunnel_new addr key) = crypto_new key" "tun_peer_addr (tunnel_new addr key) = addr" for addr
    by (simp_all add: tunnel_new_def)
  have id: "length (u32_to_le 1) < 2 ^ 32" "length (u32_to_le 1) \<le> MAX_PAYLOAD" by (simp_all add: MAX_PAYLOAD_def)
  obtain okA f where f: "tunnel_send env k PACKET_PING (u32_to_le 1) ?F = Inr (okA, sent_over k f ?F)"
    "frame_for ?lib (crypto_new key) (tun_tx_seq (tunnel_new addrB key)) (PACKET_PING, u32_to_le 1) f"
    using tunnel_send_frame [OF lib _ id(1), of ?F k PACKET_PING] key La(1) new by auto
  let ?A1 = "A\<lparr>nd_fw := sent_over k f ?F\<rparr>"
  have A1: "node_step env (Nd_Probe t0 k) A = Some (Inr ?A1)"
    using La f(1) fresh_ping by (simp add: node_step_def fw_turn_def fw_step_def)
  have A1_ok: "node_ok d p ?A1"
    using node_step_total [OF env A(1), of "Nd_Probe t0 k"] A1 by (auto simp: node_event_ok_def)
  obtain okB g where g: "tunnel_send env l PACKET_PONG (u32_to_le 1) (nd_fw B) = Inr (okB, sent_over l g (nd_fw B))"
    "frame_for ?lib (crypto_new key) (tun_tx_seq (tunnel_new addrA key)) (PACKET_PONG, u32_to_le 1) g"
    using tunnel_send_frame [OF lib _ id(1), of "nd_fw B" l PACKET_PONG] key Lb(1) new by auto
  have "handle_inbound env t1 a \<lparr>rp_type = PACKET_PING, rp_seq = q, rp_payload = u32_to_le 1, rp_from = addrA\<rparr> (nd_fw B) =
      Some (Inr (sent_over l g (nd_fw B)))" for q
    using Lb(4) g(1) by (simp add: handle_inbound_def create_pong_def)
  from frame_handled [OF env B(1) Lb(3) f(2) Lb(2) id(2) _ _ _ this] obtain bufB where
    B1: "node_run env [Nd_Receive (Recv_Dgram f addrA), Nd_Forward t1] B =
      Some (Inr (B\<lparr>nd_buf := bufB, nd_fw := sent_over l g (nd_fw B)\<rparr>))"
      "node_ok d p (B\<lparr>nd_buf := bufB, nd_fw := sent_over l g (nd_fw B)\<rparr>)"
    by (auto simp: packet_types)
  have p: "fw_prober (nd_fw ?A1) = ?P1" "nd_inbox ?A1 = []" "dm_get (nd_peers ?A1) addrB = Some (b, crypto_new key)"
    using La by (simp_all add: sent_over_def)
  have pong: "handle_pong t2 b (u32_to_le 1) (fw_prober (nd_fw ?A1)) = measured a b t2 (t2 - t0)"
    unfolding p(1) using ab(2) by (rule fresh_pong)
  then have "handle_inbound env t2 b \<lparr>rp_type = PACKET_PONG, rp_seq = q, rp_payload = u32_to_le 1, rp_from = addrB\<rparr> (nd_fw ?A1) =
      Some (Inr ((sent_over k f (nd_fw A))\<lparr>fw_prober := measured a b t2 (t2 - t0)\<rparr>))" for q
    by (simp add: handle_inbound_def packet_types sent_over_def)
  note h = this
  have fits: "matrix_fits (pr_matrix (handle_pong t2 b (u32_to_le 1) (fw_prober (nd_fw ?A1))))"
    unfolding pong using ab(3) by (rule measured_fits)
  obtain bufA where
    A2: "node_run env [Nd_Receive (Recv_Dgram g addrB), Nd_Forward t2] ?A1 =
      Some (Inr (?A1\<lparr>nd_buf := bufA, nd_fw := (sent_over k f (nd_fw A))\<lparr>fw_prober := measured a b t2 (t2 - t0)\<rparr>\<rparr>))"
      "node_ok d p (?A1\<lparr>nd_buf := bufA, nd_fw := (sent_over k f (nd_fw A))\<lparr>fw_prober := measured a b t2 (t2 - t0)\<rparr>\<rparr>)"
    by (rule frame_handled [OF env A1_ok p(2) g(2) p(3) id(2) _ _ fits h]) (simp_all add: packet_types)
  have e: "?A1\<lparr>nd_buf := bufA, nd_fw := F\<rparr> = A\<lparr>nd_buf := bufA, nd_fw := F\<rparr>" for F by simp
  have "fw_sent (nd_fw ?A1) = [(addrB, f)]" using La(1,7) new by (simp add: sent_over_def)
  with A1 B1 A2 show thesis unfolding e by (intro that [OF refl refl, where ?A1.0 = ?A1]) simp_all
qed

section \<open>The first clients\<close>

lemma first_accept:
  assumes "as_built c nd"
  shows "tcp_accept True (nd_tcp nd) = open_flow (nd_tcp nd)" "ac_conns (open_flow (nd_tcp nd)) = [conn_new 1]"
    "ac_next (open_flow (nd_tcp nd)) = 2" "ac_dest (open_flow (nd_tcp nd)) = rc_default_dest (cfg_relay c)"
    "flow_view 1 0 [] [] (open_flow (nd_tcp nd))"
  using assms
  by (simp_all add: as_built_def tcp_accept_def open_flow_def next_flow_def fetch_add_def flow_view_def conn_new_def stream_def)

lemma accept_run:
  assumes env: "env_ok d p env" and nd: "node_ok d p nd" "nd_tcp nd = nd_tcp nd0" "as_built c nd0"
  shows "node_step env (Nd_Tcp_Accept True) nd = Some (Inr (nd\<lparr>nd_tcp := open_flow (nd_tcp nd0)\<rparr>))"
    "node_ok d p (nd\<lparr>nd_tcp := open_flow (nd_tcp nd0)\<rparr>)"
proof -
  show s: "node_step env (Nd_Tcp_Accept True) nd = Some (Inr (nd\<lparr>nd_tcp := open_flow (nd_tcp nd0)\<rparr>))"
    using first_accept(1) [OF nd(3)] nd(2) by (simp add: node_step_def)
  show "node_ok d p (nd\<lparr>nd_tcp := open_flow (nd_tcp nd0)\<rparr>)"
    using node_step_total [OF env nd(1), of "Nd_Tcp_Accept True"] s by (auto simp: node_event_ok_def)
qed

lemma walk_no_edges: "walk [] s q c v \<Longrightarrow> v = s"
  by (induction rule: walk.induct) simp_all

lemma no_route_yet:
  assumes "as_built c nd" "max_heap pop" "b \<noteq> cfg_node_id c"
  shows "next_hop pop (fw_router (nd_fw nd)) b = Some (Inr None)"
proof -
  have rt: "rt_local (fw_router (nd_fw nd)) = cfg_node_id c" "all_edges (rt_matrix (fw_router (nd_fw nd))) = []"
    using assms(1) by (simp_all add: as_built_def fw_router_def matrix_new_def all_edges_def)
  show ?thesis
    by (rule next_hop_total [OF assms(2), of b "fw_router (nd_fw nd)"]) (use assms(3) rt walk_no_edges in auto)
qed

lemma opened_route:
  assumes env: "env_ok d p env" and A: "as_built c A" "b \<noteq> cfg_node_id c" "r < 10 ^ 18"
    and A2: "A2 = A\<lparr>nd_buf := buf, nd_fw := (sent_over k f (nd_fw A))\<lparr>fw_prober := measured (cfg_node_id c) b t r\<rparr>\<rparr>" "node_ok d p A2"
  obtains e where "next_hop (env_pop env) (fw_router (nd_fw A2)) b = Some (Inr (Some e))" "next_hop_node e = b" "total_rtt e = r"
proof -
  have pop: "max_heap (env_pop env)" using env by (simp add: env_ok_def)
  have ok: "fw_ok d p (nd_fw A2)" using A2(2) by (simp add: node_ok_def)
  have "get_rtt (pr_matrix (fw_prober (nd_fw A2))) (fw_router_node (nd_fw A2)) b = Some r" "fw_router_node (nd_fw A2) = cfg_node_id c"
    using A(1) by (simp_all add: A2(1) measured_def get_rtt_def dm_get_def entry_new_def sent_over_def as_built_def)
  moreover have "as_micros r < 2 ^ 64 - 1" using A(3) by (simp add: as_micros_def)
  ultimately show thesis using direct_route [OF ok pop] A(2) that by metis
qed

text \<open>What \<open>client_burst\<close> asks of the sending and \<open>burst_received\<close> of the receiving node.\<close>

lemma sender_ready:
  assumes "as_built c A" "linked A k b addr key" "rc_default_dest (cfg_relay c) = b"
    and "A3 = A\<lparr>nd_buf := buf, nd_fw := (sent_over k f (nd_fw A))\<lparr>fw_prober := pr\<rparr>, nd_tcp := open_flow (nd_tcp A)\<rparr>"
  shows "dm_get (fw_tunnels (nd_fw A3)) b = Some k"
    "dm_get (fw_senders (nd_fw A3)) b = Some (empty_sender (fec_config_of (cfg_relay c)))"
    "0 < length (ac_conns (nd_tcp A3))" "cn_reading (ac_conns (nd_tcp A3) ! 0)" "cn_todo (ac_conns (nd_tcp A3) ! 0) = []"
    "ac_dest (nd_tcp A3) = b" "cn_flow (ac_conns (nd_tcp A3) ! 0) = 1"
    and "tun_crypto (fw_arena (nd_fw A3) ! k) = crypto_new key" "tun_peer_addr (fw_arena (nd_fw A3) ! k) = addr"
    "fw_sent (nd_fw A3) = [(addr, f)]"
proof -
  note acc = first_accept [OF assms(1)]
  show "0 < length (ac_conns (nd_tcp A3))" "cn_reading (ac_conns (nd_tcp A3) ! 0)" "cn_todo (ac_conns (nd_tcp A3) ! 0) = []"
    "ac_dest (nd_tcp A3) = b" "cn_flow (ac_conns (nd_tcp A3) ! 0) = 1"
    using acc assms(3) by (simp_all add: assms(4) conn_new_def)
  show "dm_get (fw_tunnels (nd_fw A3)) b = Some k"
    "dm_get (fw_senders (nd_fw A3)) b = Some (empty_sender (fec_config_of (cfg_relay c)))"
    "tun_crypto (fw_arena (nd_fw A3) ! k) = crypto_new key" "tun_peer_addr (fw_arena (nd_fw A3) ! k) = addr"
    "fw_sent (nd_fw A3) = [(addr, f)]"
    using assms(1,2)
    by (simp_all add: assms(4) sent_over_def linked_def as_built_def next_seq_def fetch_add_def tunnel_new_def)
qed

lemma receiver_ready:
  assumes "as_built c B" "linked B l a addr key"
    and "B2 = B\<lparr>nd_buf := buf, nd_fw := sent_over l g (nd_fw B), nd_tcp := open_flow (nd_tcp B)\<rparr>"
  shows "fw_node_id (nd_fw B2) = cfg_node_id c" "fw_local_open (nd_fw B2)" "nd_inbox B2 = []" "fw_local (nd_fw B2) = []"
    "dm_get (nd_peers B2) addr = Some (a, crypto_new key)" "dm_get (fw_receivers (nd_fw B2)) a = Some fec_receiver_new"
    and "flow_view 1 0 [] [] (nd_tcp B2)" "ac_next (nd_tcp B2) = 2"
  using assms(1,2) first_accept [OF assms(1)] by (simp_all add: assms(3) sent_over_def linked_def as_built_def)

text \<open>Once the route is open, the first clients of the two nodes are served.\<close>

lemma first_clients_served:
  assumes env: "env_ok d p env" "length xs \<le> TCP_CHANNEL"
    and A: "as_built cA A0" "linked A0 k b addrB key" "fec_config_of (cfg_relay cA) = shards_cfg d p"
      "A2 = A0\<lparr>nd_buf := bufA, nd_fw := (sent_over k f (nd_fw A0))\<lparr>fw_prober := pr\<rparr>\<rparr>" "node_ok d p A2"
    and B: "as_built cB B0" "linked B0 l a addrA key" "cfg_node_id cB = b"
      "B1 = B0\<lparr>nd_buf := bufB, nd_fw := sent_over l g (nd_fw B0)\<rparr>" "node_ok d p B1"
    and hop: "next_hop (env_pop env) (fw_router (nd_fw A2)) b = Some (Inr (Some e))" "next_hop_node e = b"
    and dest: "rc_default_dest (cfg_relay cA) = b" "length b \<le> 255" "utf8_valid (str_bytes b)"
    and xs: "xs \<noteq> []" "length xs < d" "\<forall>x \<in> set xs. 0 < length x \<and> length b + length x \<le> 1386"
  shows "\<exists>A3 j A4 fs B2. node_run env (Nd_Tcp_Accept True # client_sends 0 xs @ [Nd_Flush now]) A2 = Some (Inr A3) \<and>
     node_run env (replicate (d + p) (Nd_Task j)) A3 = Some (Inr A4) \<and>
     fw_sent (nd_fw A4) = (addrB, f) # map (Pair addrB) fs \<and> length fs = d + p \<and>
     node_run env [Nd_Tcp_Accept True] B1 = Some (Inr B2) \<and>
     (\<forall>ms es t n. distinct ms \<and> set ms \<subseteq> {..<d + p} \<and> d \<le> length ms \<and> length ms < 2 * d \<and>
        schedule_ok 0 1 2 {t. Nd_Forward t \<in> set es} es \<and>
        frames_in (env_aead env) (nd_peers B2) es =
          frames_in (env_aead env) (nd_peers B2) (map (\<lambda>m. Nd_Receive (Recv_Dgram (fs ! m) addrA)) ms) \<and>
        d + p + TCP_CHANNEL \<le> n \<longrightarrow>
        (\<exists>B3 B4. node_run env es B2 = Some (Inr B3) \<and> prefix (stream (ac_conns (nd_tcp B3) ! 0)) xs \<and>
           node_run env (drain 0 t n) B3 = Some (Inr B4) \<and> cn_written (ac_conns (nd_tcp B4) ! 0) = xs))"
proof -
  let ?A3 = "A2\<lparr>nd_tcp := open_flow (nd_tcp A0)\<rparr>" and ?B2 = "B1\<lparr>nd_tcp := open_flow (nd_tcp B0)\<rparr>"
  have acc_A: "node_step env (Nd_Tcp_Accept True) A2 = Some (Inr ?A3)" "node_ok d p ?A3"
    using accept_run [OF env(1) A(5) _ A(1)] by (simp_all add: A(4))
  have acc_B: "node_step env (Nd_Tcp_Accept True) B1 = Some (Inr ?B2)" "node_ok d p ?B2"
    using accept_run [OF env(1) B(5) _ B(1)] by (simp_all add: B(4))
  have S: "?A3 = A0\<lparr>nd_buf := bufA, nd_fw := (sent_over k f (nd_fw A0))\<lparr>fw_prober := pr\<rparr>, nd_tcp := open_flow (nd_tcp A0)\<rparr>"
    by (simp add: A(4))
  note S = sender_ready [OF A(1,2) dest(1) S]
  have R: "?B2 = B0\<lparr>nd_buf := bufB, nd_fw := sent_over l g (nd_fw B0), nd_tcp := open_flow (nd_tcp B0)\<rparr>" by (simp add: B(4))
  note R = receiver_ready [OF B(1,2) R, unfolded B(3)]
  have s: "snd_buffer (empty_sender cfg) = []" "dm_get (rcv_blocks fec_receiver_new) i = None" for cfg i
    by (simp_all add: empty_sender_def fec_receiver_new_def)
  have q: "(1 :: u32) < QUIC_FLOWS" "length ([] :: bytes list) + length xs \<le> TCP_CHANNEL"
    using env(2) by (simp_all add: QUIC_FLOWS_def)
  have hop3: "next_hop (env_pop env) (fw_router (nd_fw ?A3)) b = Some (Inr (Some e))" using hop(1) by simp
  obtain ys A3 j A4 fs where code: "codeword (env_rs env) d p (relay_payloads b (map (Pair 1) xs)) ys"
    and sends: "node_run env (client_sends 0 xs @ [Nd_Flush now]) ?A3 = Some (Inr A3)"
      "node_run env (replicate (d + p) (Nd_Task j)) A3 = Some (Inr A4)"
      "fw_sent (nd_fw A4) = [(addrB, f)] @ map (Pair addrB) fs" "length fs = d + p"
    and frames: "\<And>m. m < d + p \<Longrightarrow> frame_for (env_aead env) (crypto_new key) (tun_tx_seq (fw_arena (nd_fw ?A3) ! k) + word_of_nat m)
      (shard_frame (shards_cfg d p) (snd_block_id (empty_sender (fec_config_of (cfg_relay cA)))) ys m) (fs ! m)"
    using client_burst [OF env(1) acc_A(2) hop3 S(1,2) [folded hop(2)] S(3-6) s(1) xs dest(2,3), of now] unfolding S(7-10) by metis
  note received = burst_received [OF env(1) acc_B(2) code frames xs dest(2,3) R(1-6) s(2) q(1) R(7) q(2), unfolded R(8) append_Nil]
  have sent: "node_run env (Nd_Tcp_Accept True # client_sends 0 xs @ [Nd_Flush now]) A2 = Some (Inr A3)"
    "fw_sent (nd_fw A4) = (addrB, f) # map (Pair addrB) fs"
    using acc_A(1) sends(1,3) by simp_all
  have accept: "node_run env [Nd_Tcp_Accept True] B1 = Some (Inr ?B2)" using acc_B(1) by simp
  show ?thesis
    by (rule exI [of _ A3], rule exI [of _ j], rule exI [of _ A4], rule exI [of _ fs], rule exI [of _ ?B2],
        intro conjI sent sends(2,4) accept, intro allI impI, elim conjE, rule received)
qed

section \<open>Property\<close>

text \<open>C2. Two configuration files are enough. They name two different nodes as each other's peer, with one key, the same
  valid shard counts, a probe interval above zero, peers of distinct names and addresses, and the first has the second as default destination. Both nodes are built, the first without a route to the second. One probe, its datagram handed to the other
  node, and the answer handed back within \<open>10 ^ 18\<close> ns open the route, as long as the time that passed. Now the first
  client of the first node writes fewer than \<open>d\<close> chunks, each non-empty and with the second node's name (at most 255 bytes) at
  most 1386 bytes (C34: full chunks are lost), the next tick sends \<open>d + p\<close> datagrams, and the first client of the second
  node gets exactly these chunks, in order, under any schedule that accepts at least \<open>d\<close> and fewer than \<open>2 * d\<close> of the
  datagrams, in any order, and is \<open>schedule_ok\<close>: the client stays, its writes succeed, its flow number is unused, no
  tick 500 ms after a packet.\<close>

theorem configured_nodes_serve_clients:
  assumes env: "env_ok d p env"
    and A: "config_ok b64 cA" "fec_config_of (cfg_relay cA) = shards_cfg d p" "mc_probe_interval_ms (cfg_mesh cA) \<noteq> 0"
      "distinct (map pc_node_id (cfg_peers cA))" "distinct (map pc_addr (cfg_peers cA))"
      "k < length (cfg_peers cA)" "pc_node_id (cfg_peers cA ! k) = cfg_node_id cB" "pc_addr (cfg_peers cA ! k) = addrB"
    and B: "config_ok b64 cB" "fec_config_of (cfg_relay cB) = shards_cfg d p" "mc_probe_interval_ms (cfg_mesh cB) \<noteq> 0"
      "distinct (map pc_node_id (cfg_peers cB))" "distinct (map pc_addr (cfg_peers cB))"
      "l < length (cfg_peers cB)" "pc_node_id (cfg_peers cB ! l) = cfg_node_id cA" "pc_addr (cfg_peers cB ! l) = addrA"
    and key: "decode_key b64 (cfg_peers cA ! k) = Inr key" "decode_key b64 (cfg_peers cB ! l) = Inr key"
    and dest: "cfg_node_id cA \<noteq> cfg_node_id cB" "rc_default_dest (cfg_relay cA) = cfg_node_id cB"
      "length (cfg_node_id cB) \<le> 255" "utf8_valid (str_bytes (cfg_node_id cB))"
    and rtt: "t2 - t0 < 10 ^ 18"
    and xs: "xs \<noteq> []" "length xs < d" "\<forall>x \<in> set xs. 0 < length x \<and> length (cfg_node_id cB) + length x \<le> 1386"
  shows "\<exists>A0 B0 A1 f B1 g A2. node_new b64 cA = Inr A0 \<and> node_new b64 cB = Inr B0 \<and>
    next_hop (env_pop env) (fw_router (nd_fw A0)) (cfg_node_id cB) = Some (Inr None) \<and>
    node_run env [Nd_Probe t0 k] A0 = Some (Inr A1) \<and> fw_sent (nd_fw A1) = [(addrB, f)] \<and>
    node_run env [Nd_Receive (Recv_Dgram f addrA), Nd_Forward t1] B0 = Some (Inr B1) \<and> fw_sent (nd_fw B1) = [(addrA, g)] \<and>
    node_run env [Nd_Receive (Recv_Dgram g addrB), Nd_Forward t2] A1 = Some (Inr A2) \<and>
    (\<exists>e. next_hop (env_pop env) (fw_router (nd_fw A2)) (cfg_node_id cB) = Some (Inr (Some e)) \<and>
       next_hop_node e = cfg_node_id cB \<and> total_rtt e = t2 - t0) \<and>
    (\<exists>A3 j A4 fs B2. node_run env (Nd_Tcp_Accept True # client_sends 0 xs @ [Nd_Flush now]) A2 = Some (Inr A3) \<and>
       node_run env (replicate (d + p) (Nd_Task j)) A3 = Some (Inr A4) \<and>
       fw_sent (nd_fw A4) = (addrB, f) # map (Pair addrB) fs \<and> length fs = d + p \<and>
       node_run env [Nd_Tcp_Accept True] B1 = Some (Inr B2) \<and>
       (\<forall>ms es t n. distinct ms \<and> set ms \<subseteq> {..<d + p} \<and> d \<le> length ms \<and> length ms < 2 * d \<and>
          schedule_ok 0 1 2 {t. Nd_Forward t \<in> set es} es \<and>
          frames_in (env_aead env) (nd_peers B2) es =
            frames_in (env_aead env) (nd_peers B2) (map (\<lambda>m. Nd_Receive (Recv_Dgram (fs ! m) addrA)) ms) \<and>
          d + p + TCP_CHANNEL \<le> n \<longrightarrow>
          (\<exists>B3 B4. node_run env es B2 = Some (Inr B3) \<and> prefix (stream (ac_conns (nd_tcp B3) ! 0)) xs \<and>
             node_run env (drain 0 t n) B3 = Some (Inr B4) \<and> cn_written (ac_conns (nd_tcp B4) ! 0) = xs)))"
proof -
  let ?a = "cfg_node_id cA" and ?b = "cfg_node_id cB"
  have env': "0 < d" "d + p \<le> 256" "max_heap (env_pop env)" using env by (simp_all add: env_ok_def rs_lawful_def)
  have d: "0 < d" "d \<le> 256" using env'(1,2) by simp_all
  have key32: "length key = 32" using A(1,6) key(1) by (auto simp: decode_key_Inr_iff)
  obtain A0 where A0: "node_new b64 cA = Inr A0" "node_ok d p A0" "as_built cA A0" "linked A0 k ?b addrB key"
    using configured_node [OF A(1,2) d A(3-6) key(1)] A(7,8) by metis
  obtain B0 where B0: "node_new b64 cB = Inr B0" "node_ok d p B0" "as_built cB B0" "linked B0 l ?a addrA key"
    using configured_node [OF B(1,2) d B(3-6) key(2)] B(7,8) by metis
  obtain f g bufA bufB A1 A2 B1 where
    A2: "A2 = A0\<lparr>nd_buf := bufA, nd_fw := (sent_over k f (nd_fw A0))\<lparr>fw_prober := measured ?a ?b t2 (t2 - t0)\<rparr>\<rparr>"
    and B1: "B1 = B0\<lparr>nd_buf := bufB, nd_fw := sent_over l g (nd_fw B0)\<rparr>"
    and runs: "node_run env [Nd_Probe t0 k] A0 = Some (Inr A1)" "fw_sent (nd_fw A1) = [(addrB, f)]"
      "node_run env [Nd_Receive (Recv_Dgram f addrA), Nd_Forward t1] B0 = Some (Inr B1)"
      "node_run env [Nd_Receive (Recv_Dgram g addrB), Nd_Forward t2] A1 = Some (Inr A2)"
    and ok: "node_ok d p A2" "node_ok d p B1"
    by (rule probe_exchange [OF env A0(2-4) B0(2-4) refl dest(1) rtt key32])
  have B_sent: "fw_sent (nd_fw B1) = [(addrA, g)]"
    using B0(3,4) by (simp add: B1 sent_over_def as_built_def linked_def tunnel_new_def)
  obtain e where e: "next_hop (env_pop env) (fw_router (nd_fw A2)) ?b = Some (Inr (Some e))" "next_hop_node e = ?b" "total_rtt e = t2 - t0"
    using opened_route [OF env A0(3) dest(1) [symmetric] rtt A2 ok(1)] by metis
  have few: "length xs \<le> TCP_CHANNEL" using xs(2) env'(2) by (simp add: TCP_CHANNEL_def)
  note served = first_clients_served [OF env few A0(3,4) A(2) A2 ok(1) B0(3,4) refl B1 ok(2) e(1,2) dest(2-4) xs, of now]
  have none: "next_hop (env_pop env) (fw_router (nd_fw A0)) ?b = Some (Inr None)"
    using no_route_yet [OF A0(3) env'(3)] dest(1) by simp
  show ?thesis
    by (rule exI [of _ A0], rule exI [of _ B0], rule exI [of _ A1], rule exI [of _ f], rule exI [of _ B1], rule exI [of _ g], rule exI [of _ A2])
      (use A0(1) B0(1) none runs B_sent e served in blast)
qed

definition lon_config :: config where
  "lon_config = demo_config\<lparr>cfg_node_id := ''lon'', cfg_peers := [\<lparr>pc_node_id = ''syd'', pc_region = ''au'', pc_addr = (2, 9001),
     pc_shared_key = ''k32''\<rparr>]\<rparr>"

theorem configured_nodes_serve_clients_witness:
  "\<exists>A0 B0 A1 f B1 g A2 A3 j A4 fs B2 B3 B4. node_new demo_b64 demo_config = Inr A0 \<and> node_new demo_b64 lon_config = Inr B0 \<and>
    node_run demo_env [Nd_Probe 5 0] A0 = Some (Inr A1) \<and>
    node_run demo_env [Nd_Receive (Recv_Dgram f (2, 9001)), Nd_Forward 6] B0 = Some (Inr B1) \<and>
    node_run demo_env [Nd_Receive (Recv_Dgram g (1, 9000)), Nd_Forward 30] A1 = Some (Inr A2) \<and>
    node_run demo_env (Nd_Tcp_Accept True # client_sends 0 [[7]] @ [Nd_Flush 40]) A2 = Some (Inr A3) \<and>
    node_run demo_env (replicate 3 (Nd_Task j)) A3 = Some (Inr A4) \<and>
    node_run demo_env [Nd_Tcp_Accept True] B1 = Some (Inr B2) \<and>
    node_run demo_env [Nd_Receive (Recv_Dgram (fs ! 2) (2, 9001)), Nd_Receive (Recv_Dgram (fs ! 0) (2, 9001))] B2 = Some (Inr B3) \<and>
    node_run demo_env (drain 0 50 3000) B3 = Some (Inr B4) \<and> cn_written (ac_conns (nd_tcp B4) ! 0) = [[7]]"
proof -
  have c: "config_ok demo_b64 demo_config" "config_ok demo_b64 lon_config"
    by (simp_all add: config_ok_def lon_config_def demo_config_def demo_b64_def)
  have fec: "fec_config_of (cfg_relay demo_config) = shards_cfg 2 1" "fec_config_of (cfg_relay lon_config) = shards_cfg 2 1"
    by (simp_all add: fec_config_of_def lon_config_def demo_config_def)
  have ms: "mc_probe_interval_ms (cfg_mesh demo_config) \<noteq> 0" "mc_probe_interval_ms (cfg_mesh lon_config) \<noteq> 0"
    by (simp_all add: lon_config_def demo_config_def)
  have dist: "distinct (map pc_node_id (cfg_peers demo_config))" "distinct (map pc_addr (cfg_peers demo_config))"
    "distinct (map pc_node_id (cfg_peers lon_config))" "distinct (map pc_addr (cfg_peers lon_config))"
    by (simp_all add: lon_config_def demo_config_def)
  have peer: "0 < length (cfg_peers demo_config)" "pc_node_id (cfg_peers demo_config ! 0) = cfg_node_id lon_config"
    "pc_addr (cfg_peers demo_config ! 0) = (1, 9000)" "0 < length (cfg_peers lon_config)"
    "pc_node_id (cfg_peers lon_config ! 0) = cfg_node_id demo_config" "pc_addr (cfg_peers lon_config ! 0) = (2, 9001)"
    "\<exists>key. decode_key demo_b64 (cfg_peers demo_config ! 0) = Inr key \<and> decode_key demo_b64 (cfg_peers lon_config ! 0) = Inr key"
    by (simp_all add: lon_config_def demo_config_def decode_key_def demo_b64_def)
  then obtain key where key: "decode_key demo_b64 (cfg_peers demo_config ! 0) = Inr key"
    "decode_key demo_b64 (cfg_peers lon_config ! 0) = Inr key" by blast
  have dest: "cfg_node_id demo_config \<noteq> cfg_node_id lon_config" "rc_default_dest (cfg_relay demo_config) = cfg_node_id lon_config"
    "length (cfg_node_id lon_config) \<le> 255" "utf8_valid (str_bytes (cfg_node_id lon_config))"
    using str_lon by (simp_all add: lon_config_def demo_config_def)
  have x: "[[7 :: byte]] \<noteq> []" "length [[7 :: byte]] < 2" "\<forall>x \<in> set [[7 :: byte]]. 0 < length x \<and> length (cfg_node_id lon_config) + length x \<le> 1386"
    "(30 :: instant) - 5 < 10 ^ 18"
    by (simp_all add: lon_config_def)
  from configured_nodes_serve_clients [OF demo_env_ok c(1) fec(1) ms(1) dist(1,2) peer(1-3) c(2) fec(2) ms(2) dist(3,4) peer(4-6)
      key dest x(4) x(1-3), of 6 40]
  obtain A0 B0 A1 f B1 g A2 A3 j A4 fs B2 where runs: "node_new demo_b64 demo_config = Inr A0" "node_new demo_b64 lon_config = Inr B0"
    "node_run demo_env [Nd_Probe 5 0] A0 = Some (Inr A1)"
    "node_run demo_env [Nd_Receive (Recv_Dgram f (2, 9001)), Nd_Forward 6] B0 = Some (Inr B1)"
    "node_run demo_env [Nd_Receive (Recv_Dgram g (1, 9000)), Nd_Forward 30] A1 = Some (Inr A2)"
    "node_run demo_env (Nd_Tcp_Accept True # client_sends 0 [[7]] @ [Nd_Flush 40]) A2 = Some (Inr A3)"
    "node_run demo_env (replicate (2 + 1) (Nd_Task j)) A3 = Some (Inr A4)"
    "node_run demo_env [Nd_Tcp_Accept True] B1 = Some (Inr B2)"
    and recv: "\<And>ms es t n. distinct ms \<and> set ms \<subseteq> {..<2 + 1} \<and> 2 \<le> length ms \<and> length ms < 2 * 2 \<and>
      schedule_ok 0 1 2 {t. Nd_Forward t \<in> set es} es \<and>
      frames_in (env_aead demo_env) (nd_peers B2) es =
        frames_in (env_aead demo_env) (nd_peers B2) (map (\<lambda>m. Nd_Receive (Recv_Dgram (fs ! m) (2, 9001))) ms) \<and>
      2 + 1 + TCP_CHANNEL \<le> n \<Longrightarrow>
      \<exists>B3 B4. node_run demo_env es B2 = Some (Inr B3) \<and> prefix (stream (ac_conns (nd_tcp B3) ! 0)) [[7]] \<and>
         node_run demo_env (drain 0 t n) B3 = Some (Inr B4) \<and> cn_written (ac_conns (nd_tcp B4) ! 0) = [[7]]"
    by blast
  let ?es = "[Nd_Receive (Recv_Dgram (fs ! 2) (2, 9001)), Nd_Receive (Recv_Dgram (fs ! 0) (2, 9001))]"
  have "\<forall>k < length ?es. (2 :: u32) + word_of_nat k \<noteq> 1"
    by (auto simp: less_Suc_eq)
  then have "schedule_ok 0 1 2 {t. Nd_Forward t \<in> set ?es} ?es" by (simp add: schedule_ok_def)
  then obtain B3 B4 where fin: "node_run demo_env ?es B2 = Some (Inr B3)" "node_run demo_env (drain 0 50 3000) B3 = Some (Inr B4)"
    "cn_written (ac_conns (nd_tcp B4) ! 0) = [[7]]"
    using recv [of "[2, 0]" ?es 3000 50] by (auto simp: TCP_CHANNEL_def)
  have three: "(3 :: nat) = 2 + 1" by simp
  show ?thesis unfolding three by (intro exI conjI) (rule runs fin)+
qed

end
