(* ===== verification/Admin.thy ===== *)
theory Admin
  imports Node_Safe
begin

text \<open>
  The admin endpoints of \<open>src/admin.rs\<close>: the bearer-token check, the routes, and the status document.
  The HTTP server is a parameter: \<open>to_str\<close> reads a header value as text, and \<open>other\<close> is what the
  server answers by itself to a request no route takes.  The flow counts the document reports are
  proved to be the handlers still running.
\<close>

section \<open>State and requests\<close>

record admin_state =
  as_node_id :: node_name
  as_region :: string
  as_matrix :: latency_matrix
  as_forwarder :: forwarder
  as_tcp :: tcp_splitter
  as_quic :: quic_acceptor
  as_token :: "string option"

record http_request =
  rq_method :: string
  rq_path :: string
  rq_authorization :: "bytes option"

record status_doc =
  st_node_id :: node_name
  st_region :: string
  st_peers :: nat
  st_tcp_flows :: nat
  st_quic_flows :: nat
  st_paths :: nat
  st_latencies :: "(node_name \<times> node_name \<times> nat) list"

datatype http_response = Health_Ok string | Status_Doc status_doc | Unauthorized | Server_Answer nat

definition admin_of :: "config \<Rightarrow> node \<Rightarrow> admin_state" where
  \<comment> \<open>the state the endpoints share with the node\<close>
  "admin_of c nd =
     \<lparr>as_node_id = cfg_node_id c, as_region = cfg_region c, as_matrix = pr_matrix (fw_prober (nd_fw nd)),
      as_forwarder = nd_fw nd, as_tcp = nd_tcp nd, as_quic = nd_quic nd,
      as_token = lc_admin_token (cfg_listen c)\<rparr>"

section \<open>Handlers\<close>

definition auth_middleware ::
    "(bytes \<Rightarrow> string option) \<Rightarrow> admin_state \<Rightarrow> http_request \<Rightarrow> http_response \<Rightarrow> http_response" where
  "auth_middleware to_str st req next_response =
     (case as_token st of
        None \<Rightarrow> next_response
      | Some expected \<Rightarrow>
          (case Option.bind (rq_authorization req) to_str of
             Some value \<Rightarrow>
               if take 7 value = ''Bearer ''
               then if drop 7 value \<noteq> expected then Unauthorized else next_response
               else Unauthorized
           | None \<Rightarrow> Unauthorized))"

definition health :: string where
  "health = ''ok''"

definition status :: "admin_state \<Rightarrow> status_doc" where
  "status st =
     (let edges = all_edges (as_matrix st)
      in \<lparr>st_node_id = as_node_id st, st_region = as_region st, st_peers = peer_count (as_forwarder st),
          st_tcp_flows = active_flow_count (as_tcp st), st_quic_flows = active_flow_count (as_quic st),
          st_paths = path_count (as_matrix st),
          st_latencies = map (\<lambda>(src, dst, rtt). (src, dst, as_micros rtt)) edges\<rparr>)"

definition admin_router ::
    "(bytes \<Rightarrow> string option) \<Rightarrow> (http_request \<Rightarrow> nat) \<Rightarrow> admin_state \<Rightarrow> http_request \<Rightarrow> http_response" where
  "admin_router to_str other st req =
     (if rq_path req = ''/health'' then
        if rq_method req = ''GET'' then Health_Ok health else Server_Answer (other req)
      else if rq_path req = ''/status'' then
        auth_middleware to_str st req
          (if rq_method req = ''GET'' then Status_Doc (status st) else Server_Answer (other req))
      else Server_Answer (other req))"

section \<open>The flow counts\<close>

text \<open>
  Before the flow identifiers of an edge wrap around, a handler is registered exactly while it has
  not ended, so the size of the map is the number of handlers still running.
\<close>

definition flows_exact :: "u32 \<Rightarrow> 'a acceptor_scheme \<Rightarrow> bool" where
  "flows_exact c s \<longleftrightarrow> ac_next s = c + word_of_nat (length (ac_conns s)) \<and> dm_wf (ac_active s) \<and>
     (\<forall>i < length (ac_conns s). cn_flow (ac_conns s ! i) = c + word_of_nat i) \<and>
     (\<forall>f i. dm_get (ac_active s) f = Some i \<longleftrightarrow>
        i < length (ac_conns s) \<and> cn_flow (ac_conns s ! i) = f \<and> \<not> cn_ended (ac_conns s ! i))"

lemma flow_number_inject:
  "i < 2 ^ 32 \<Longrightarrow> j < 2 ^ 32 \<Longrightarrow> (c :: u32) + word_of_nat i = c + word_of_nat j \<longleftrightarrow> i = j"
  by (simp add: word_unat_eq_iff [of "word_of_nat i"] unat_of_nat)

lemma flows_exactD:
  assumes "flows_exact c s"
  shows "ac_next s = c + word_of_nat (length (ac_conns s))" "dm_wf (ac_active s)"
    "\<And>i. i < length (ac_conns s) \<Longrightarrow> cn_flow (ac_conns s ! i) = c + word_of_nat i"
    "\<And>f i. dm_get (ac_active s) f = Some i \<longleftrightarrow>
        i < length (ac_conns s) \<and> cn_flow (ac_conns s ! i) = f \<and> \<not> cn_ended (ac_conns s ! i)"
  using assms unfolding flows_exact_def by blast+

lemma flows_exact_count:
  assumes "flows_exact c s"
  shows "active_flow_count s = card {i. i < length (ac_conns s) \<and> \<not> cn_ended (ac_conns s ! i)}"
proof -
  note D = flows_exactD [OF assms]
  have "snd ` set (ac_active s) = {i. i < length (ac_conns s) \<and> \<not> cn_ended (ac_conns s ! i)}"
  proof safe
    fix f i
    assume "(f, i) \<in> set (ac_active s)"
    then have "dm_get (ac_active s) f = Some i" by (simp add: dm_get_in_set [OF D(2)])
    then show "snd (f, i) < length (ac_conns s)" "cn_ended (ac_conns s ! snd (f, i)) \<Longrightarrow> False"
      using D(4) by auto
  next
    fix i
    assume "i < length (ac_conns s)" "\<not> cn_ended (ac_conns s ! i)"
    then have "dm_get (ac_active s) (cn_flow (ac_conns s ! i)) = Some i" by (simp add: D(4))
    from dm_get_SomeD [OF this] show "i \<in> snd ` set (ac_active s)" by force
  qed
  moreover have "inj_on snd (set (ac_active s))"
  proof (rule inj_onI)
    fix x y
    assume "x \<in> set (ac_active s)" "y \<in> set (ac_active s)" "snd x = snd y"
    then show "x = y"
      using D(4) dm_get_in_set [OF D(2)] by (metis prod.collapse)
  qed
  then have "card (snd ` set (ac_active s)) = card (set (ac_active s))" by (rule card_image)
  moreover have "distinct (ac_active s)" using D(2) by (simp add: dm_wf_def distinct_map)
  ultimately show ?thesis by (simp add: active_flow_count_def distinct_card)
qed

lemma flows_exact_upd:
  assumes "flows_exact c s" "\<And>x. cn_flow (g x) = cn_flow x" "\<And>x. cn_ended (g x) = cn_ended x"
  shows "flows_exact c (upd_conn j g s)"
proof (cases "j < length (ac_conns s)")
  case True
  have "cn_flow (ac_conns (upd_conn j g s) ! i) = cn_flow (ac_conns s ! i)"
    "cn_ended (ac_conns (upd_conn j g s) ! i) = cn_ended (ac_conns s ! i)" for i
    using assms(2,3) True by (simp_all add: upd_conn_nth)
  with assms(1) show ?thesis unfolding flows_exact_def upd_conn_simps by (simp only:) simp
next
  case False
  with assms(1) show ?thesis by (simp add: upd_conn_def)
qed

lemma flows_exact_open:
  assumes ex: "flows_exact c s" and room: "length (ac_conns s) < 2 ^ 32"
  shows "flows_exact c (open_flow s)"
proof -
  note D = flows_exactD [OF ex]
  let ?n = "length (ac_conns s)" and ?cs = "ac_conns s @ [conn_new (ac_next s)]"
  have old: "?cs ! i = ac_conns s ! i" if "i < ?n" for i using that by (simp add: nth_append)
  have new: "?cs ! ?n = conn_new (ac_next s)" by simp
  have fresh: "cn_flow (ac_conns s ! i) \<noteq> ac_next s" if "i < ?n" for i
    using that room D(1,3) flow_number_inject [of i ?n c] by simp
  have "cn_flow (?cs ! i) = c + word_of_nat i" if "i < Suc ?n" for i
    using that old new D(1,3) by (cases "i < ?n") (auto simp: less_Suc_eq conn_new_def)
  moreover have "(if f = ac_next s then Some ?n else dm_get (ac_active s) f) = Some i \<longleftrightarrow>
      i < Suc ?n \<and> cn_flow (?cs ! i) = f \<and> \<not> cn_ended (?cs ! i)" for f i
  proof (cases "i < ?n")
    case True
    then show ?thesis using old [OF True] fresh [OF True] D(4) by auto
  next
    case False
    then have "dm_get (ac_active s) f \<noteq> Some i" using D(4) by auto
    then show ?thesis using False new by (auto simp: less_Suc_eq conn_new_def)
  qed
  ultimately show ?thesis
    using D(1,2) by (simp add: flows_exact_def open_flow_fields)
qed

lemma flows_exact_end:
  assumes ex: "flows_exact c s" and room: "length (ac_conns s) \<le> 2 ^ 32"
  shows "flows_exact c (end_flow j s)"
proof (cases "j < length (ac_conns s) \<and> \<not> cn_ended (ac_conns s ! j) \<and>
    (\<not> cn_reading (ac_conns s ! j) \<or> \<not> cn_writing (ac_conns s ! j))")
  case False
  then show ?thesis using ex by (auto simp: end_flow_def Let_def)
next
  case True
  note D = flows_exactD [OF ex]
  let ?s = "end_flow j s" and ?f = "cn_flow (ac_conns s ! j)"
  have s: "?s = (upd_conn j (\<lambda>c. c\<lparr>cn_ended := True\<rparr>) s)\<lparr>ac_active := dm_remove ?f (ac_active s)\<rparr>"
    using True by (simp add: end_flow_def Let_def)
  have nth: "ac_conns ?s ! i = (if i = j then (ac_conns s ! j)\<lparr>cn_ended := True\<rparr> else ac_conns s ! i)" for i
    using True by (auto simp: s upd_conn_nth)
  have other: "cn_flow (ac_conns s ! i) \<noteq> ?f" if "i < length (ac_conns s)" "i \<noteq> j" for i
    using that True D(3) room flow_number_inject [of i j c] by simp
  have "dm_get (ac_active ?s) f = Some i \<longleftrightarrow>
      i < length (ac_conns ?s) \<and> cn_flow (ac_conns ?s ! i) = f \<and> \<not> cn_ended (ac_conns ?s ! i)" for f i
  proof (cases "i = j")
    case True
    then show ?thesis using D(4) [of f j] by (auto simp: nth) (auto simp: s split: if_splits)
  next
    case False
    then show ?thesis using D(4) [of f i] other [of i] by (auto simp: nth) (auto simp: s split: if_splits)
  qed
  moreover have "cn_flow (ac_conns ?s ! i) = c + word_of_nat i" if "i < length (ac_conns ?s)" for i
    using that D(3) by (auto simp: nth) (auto simp: s)
  moreover have "ac_next ?s = c + word_of_nat (length (ac_conns ?s))" "dm_wf (ac_active ?s)"
    using D(1,2) by (simp_all add: s)
  ultimately show ?thesis unfolding flows_exact_def by blast
qed

lemma cn_ended_try_send [simp]: "cn_ended (try_send cap d c) = cn_ended c"
  by (simp add: try_send_def)

lemma length_conns_step: "length (ac_conns (edge_step rd cap e s)) = length (ac_conns s) + (if e = Ed_Open then 1 else 0)"
  by (cases e) (auto simp: edge_step_def open_flow_fields write_next_def end_flow_def deliver_def Let_def split: option.splits)

lemma flows_exact_step:
  assumes rd: "keeps_output rd" "\<And>r c. cn_ended (rd r c) = cn_ended c"
    and ex: "flows_exact c s" and room: "length (ac_conns (edge_step rd cap e s)) \<le> 2 ^ 32"
  shows "flows_exact c (edge_step rd cap e s)"
proof (cases e)
  case Ed_Open
  then have "length (ac_conns s) < 2 ^ 32" using room length_conns_step [of rd cap e s] by simp
  with flows_exact_open [OF ex] Ed_Open show ?thesis by (simp add: edge_step_def)
next
  case (Ed_End j)
  then have "length (ac_conns s) \<le> 2 ^ 32" using room length_conns_step [of rd cap e s] by simp
  with flows_exact_end [OF ex] Ed_End show ?thesis by (simp add: edge_step_def)
next
  case (Ed_Deliver f d)
  then show ?thesis
    using ex by (auto simp: edge_step_def deliver_def split: option.splits intro!: flows_exact_upd)
next
  case (Ed_Write j ok)
  then show ?thesis
    using ex unfolding Ed_Write edge_step_def edge_event.case write_next_def
    by (intro flows_exact_upd) (auto split: list.splits)
next
  case (Ed_Read j r)
  then show ?thesis
    using ex rd by (auto simp: edge_step_def keeps_output_def intro!: flows_exact_upd)
next
  case (Ed_Sent j ok)
  have "cn_ended (piece_sent ok x) = cn_ended x" for x by (simp add: piece_sent_def)
  with ex Ed_Sent show ?thesis by (auto simp: edge_step_def intro!: flows_exact_upd)
qed

lemma flows_exact_run:
  assumes rd: "keeps_output rd" "\<And>r c. cn_ended (rd r c) = cn_ended c"
  shows "flows_exact c s \<Longrightarrow> length (ac_conns s) + count_list es Ed_Open \<le> 2 ^ 32 \<Longrightarrow>
    flows_exact c (edge_run rd cap es s)"
proof (induction es arbitrary: s)
  case Nil
  then show ?case by (simp add: edge_run_def)
next
  case (Cons e es)
  have len: "length (ac_conns (edge_step rd cap e s)) + count_list es Ed_Open \<le> 2 ^ 32"
    using Cons.prems(2) length_conns_step [of rd cap e s] by auto
  then have "flows_exact c (edge_step rd cap e s)"
    by (intro flows_exact_step [OF rd Cons.prems(1)]) simp
  from Cons.IH [OF this len] show ?case by simp
qed

section \<open>Properties\<close>

lemma take_drop_eq_append: "length xs = n \<Longrightarrow> take n v = xs \<and> drop n v = ys \<longleftrightarrow> v = xs @ ys"
  by (metis append_eq_conv_conj)

text \<open>C18. The status document is guarded by the exact token: a request for \<open>/status\<close> is refused if and only if
  a token is configured and the request does not carry an authorization header whose text is exactly
  \<open>Bearer\<close>, a space and the token; without a configured token everybody gets it; \<open>/health\<close> is
  answered to everybody.\<close>

theorem admin_status_guarded:
  assumes "rq_method req = ''GET''"
  shows "(rq_path req = ''/status'' \<longrightarrow>
      admin_router to_str other st req =
        (case as_token st of
           None \<Rightarrow> Status_Doc (status st)
         | Some tok \<Rightarrow> if \<exists>v. rq_authorization req = Some v \<and> to_str v = Some (''Bearer '' @ tok)
                      then Status_Doc (status st) else Unauthorized)) \<and>
    (rq_path req = ''/health'' \<longrightarrow> admin_router to_str other st req = Health_Ok ''ok'')"
proof -
  have bearer: "take 7 v = ''Bearer '' \<and> drop 7 v = tok \<longleftrightarrow> v = ''Bearer '' @ tok" for v tok :: string
    by (rule take_drop_eq_append) simp
  then show ?thesis using assms
    by (auto simp: admin_router_def auth_middleware_def health_def split: option.splits Option.bind_splits)
qed

theorem admin_status_guarded_witness:
  "admin_router (\<lambda>bs. Some (bytes_str bs)) (\<lambda>_. 404)
     \<lparr>as_node_id = ''syd'', as_region = ''au'', as_matrix = [], as_forwarder = demo_forwarder,
      as_tcp = demo_edge, as_quic = quic_acceptor_new ''lon'', as_token = Some ''secret''\<rparr>
     \<lparr>rq_method = ''GET'', rq_path = ''/status'', rq_authorization = Some (str_bytes ''Bearer secret2'')\<rparr> = Unauthorized"
  using admin_status_guarded [of "\<lparr>rq_method = ''GET'', rq_path = ''/status'',
     rq_authorization = Some (str_bytes ''Bearer secret2'')\<rparr>" "\<lambda>bs. Some (bytes_str bs)" "\<lambda>_. 404"
     "\<lparr>as_node_id = ''syd'', as_region = ''au'', as_matrix = [], as_forwarder = demo_forwarder,
      as_tcp = demo_edge, as_quic = quic_acceptor_new ''lon'', as_token = Some ''secret''\<rparr>"]
  by simp

text \<open>C19. The reported flow counts are exact: after any steps of an edge that opened at most \<open>2^32\<close> flows, the
  count in the status document is the number of handlers that have not ended, on both edges.\<close>

theorem active_flows_exact:
  assumes "count_list es Ed_Open \<le> 2 ^ 32"
  shows "(let s = edge_run tcp_read TCP_CHANNEL es (tcp_splitter_new dest)
      in active_flow_count s = card {i. i < length (ac_conns s) \<and> \<not> cn_ended (ac_conns s ! i)}) \<and>
    (let s = edge_run quic_read QUIC_CHANNEL es (quic_acceptor_new dest)
      in active_flow_count s = card {i. i < length (ac_conns s) \<and> \<not> cn_ended (ac_conns s ! i)})"
proof -
  have "flows_exact 1 (tcp_splitter_new dest)" "flows_exact 1000000 (quic_acceptor_new dest)"
    by (simp_all add: flows_exact_def tcp_splitter_new_def quic_acceptor_new_def)
  then have "flows_exact 1 (edge_run tcp_read TCP_CHANNEL es (tcp_splitter_new dest))"
    "flows_exact 1000000 (edge_run quic_read QUIC_CHANNEL es (quic_acceptor_new dest))"
    using assms keeps_output_readers readers_keep_ended
    by (auto intro!: flows_exact_run simp: tcp_splitter_new_def quic_acceptor_new_def)
  then show ?thesis by (simp add: Let_def flows_exact_count [of 1] flows_exact_count [of 1000000])
qed

theorem active_flows_exact_witness:
  "active_flow_count (edge_run tcp_read TCP_CHANNEL [Ed_Open, Ed_Open, Ed_Read 0 Read_End, Ed_End 0] (tcp_splitter_new ''lon'')) = 1"
proof -
  let ?es = "[Ed_Open, Ed_Open, Ed_Read 0 Read_End, Ed_End 0]"
  let ?s = "edge_run tcp_read TCP_CHANNEL ?es (tcp_splitter_new ''lon'')"
  have "length (ac_conns ?s) = 2" "cn_ended (ac_conns ?s ! 0)" "\<not> cn_ended (ac_conns ?s ! 1)"
    by (simp_all add: edge_run_def edge_step_def open_flow_def next_flow_def fetch_add_def tcp_splitter_new_def
        upd_conn_def conn_new_def tcp_read_def end_flow_def)
  then have "{i. i < length (ac_conns ?s) \<and> \<not> cn_ended (ac_conns ?s ! i)} = {1}"
    by (auto simp: less_2_cases_iff)
  with active_flows_exact [of ?es "''lon''"] show ?thesis by (simp add: Let_def)
qed

text \<open>C31. The reported latencies are the measured ones: in every state a node reaches, the document lists each
  measured path once, in whole microseconds of its smoothed time, every one of them ends at the node
  itself, and the number of paths is their number.\<close>

theorem admin_status_truthful:
  assumes "env_ok d p env" "node_ok d p nd0" "node_reachable env nd0 nd"
  shows "let doc = status (admin_of c nd); m = pr_matrix (fw_prober (nd_fw nd)) in
    st_paths doc = length (st_latencies doc) \<and>
    set (st_latencies doc) = {(a, b, as_micros rtt) |a b rtt. get_rtt m a b = Some rtt} \<and>
    distinct (map (\<lambda>(a, b, us). (a, b)) (st_latencies doc)) \<and>
    (\<forall>(a, b, us) \<in> set (st_latencies doc). a = pr_node (fw_prober (nd_fw nd)) \<or> b = pr_node (fw_prober (nd_fw nd)))"
proof -
  let ?m = "pr_matrix (fw_prober (nd_fw nd))" and ?doc = "status (admin_of c nd)"
  have ok: "fw_ok d p (nd_fw nd)"
    using node_reachable_ok [OF assms(3,1,2)] by (simp add: node_ok_def)
  then have wf: "dm_wf ?m" and star: "star_matrix (pr_node (fw_prober (nd_fw nd))) ?m"
    using fw_okD(3,5) [OF ok] by (simp_all add: prober_ok_def)
  have lat: "st_latencies ?doc = map (\<lambda>(a, b, rtt). (a, b, as_micros rtt)) (all_edges ?m)"
    "st_paths ?doc = length ?m"
    by (simp_all add: status_def admin_of_def Let_def path_count_def)
  have set: "set (st_latencies ?doc) = {(a, b, as_micros rtt) |a b rtt. get_rtt ?m a b = Some rtt}"
  proof (rule set_eqI, clarify)
    fix a b us
    have "(a, b, us) \<in> set (st_latencies ?doc) \<longleftrightarrow> (\<exists>rtt. (a, b, rtt) \<in> set (all_edges ?m) \<and> us = as_micros rtt)"
      unfolding lat set_map by force
    then show "(a, b, us) \<in> set (st_latencies ?doc) \<longleftrightarrow>
        (a, b, us) \<in> {(a, b, as_micros rtt) |a b rtt. get_rtt ?m a b = Some rtt}"
      by (simp only: all_edges_iff [OF wf]) blast
  qed
  moreover have "st_paths ?doc = length (st_latencies ?doc)" by (simp add: lat all_edges_def)
  moreover have "map (\<lambda>(a, b, us). (a, b)) (st_latencies ?doc) = map fst ?m"
    by (simp add: lat all_edges_def comp_def split_def)
  then have "distinct (map (\<lambda>(a, b, us). (a, b)) (st_latencies ?doc))" using wf by (simp add: dm_wf_def)
  moreover have "a = pr_node (fw_prober (nd_fw nd)) \<or> b = pr_node (fw_prober (nd_fw nd))"
    if "(a, b, us) \<in> set (st_latencies ?doc)" for a b us
    using that star by (auto simp: set get_rtt_entry star_matrix_def)
  ultimately show ?thesis by (auto simp: Let_def)
qed

theorem admin_status_truthful_witness:
  "\<exists>nd0. node_new demo_b64 demo_config = Inr nd0 \<and>
     st_paths (status (admin_of demo_config nd0)) = length (st_latencies (status (admin_of demo_config nd0)))"
proof -
  obtain nd0 where nd0: "node_new demo_b64 demo_config = Inr nd0" "node_ok 2 1 nd0"
    by (rule node_new_ok [OF demo_config_ok demo_fec _ _ demo_probe_ms]) simp_all
  from admin_status_truthful [OF demo_env_ok nd0(2) node_reachable.start, of demo_config] nd0(1)
  show ?thesis by (simp add: Let_def)
qed

end
