(* ===== verification/Startup.thy ===== *)
theory Startup
  imports Node_Props Admin
begin

text \<open>
  The start of the program: \<open>main\<close>, \<open>run\<close> and \<open>load_tls_config\<close> of \<open>src/main.rs\<close>, and the server
  configuration of the QUIC edge (\<open>generate_self_signed_cert\<close>, \<open>make_server_config\<close> of
  \<open>src/edge/quic_acceptor.rs\<close>).  A computation threads the calls made to the operating system and the
  tasks spawned so far, and ends in a value, in an error of \<open>run\<close>, or in a panic.  The operating system,
  \<open>rustls\<close>, \<open>rustls-pemfile\<close>, \<open>rcgen\<close> and \<open>quinn\<close> are parameters: the answer of the system to a call may
  depend on all calls before it.  The properties: a node starts exactly when every stage succeeds, the
  error is that of the first stage that fails, and what runs then is the node of \<open>Node\<close>.
\<close>

section \<open>TLS configurations\<close>

record tls_config =
  tc_certs :: "bytes list"
  tc_key :: bytes
  alpn_protocols :: "string list"
  max_early_data_size :: u32

record tls_lib =
  pem_certs :: "bytes \<Rightarrow> (string + bytes) list"
  pem_private_key :: "bytes \<Rightarrow> string + bytes option"
  with_single_cert :: "bytes list \<Rightarrow> bytes \<Rightarrow> string + tls_config"
  quic_server_config :: "tls_config \<Rightarrow> string + tls_config"

record ('kp, 'pa) rcgen_lib =
  rg_generate :: "string + 'kp"
  rg_params :: "string list \<Rightarrow> string + 'pa"
  rg_self_signed :: "'pa \<Rightarrow> 'kp \<Rightarrow> string + bytes"
  rg_serialize_der :: "'kp \<Rightarrow> bytes"
  rg_key_try_from :: "bytes \<Rightarrow> string + bytes"

datatype run_error =
    Run_Config config_error
  | Run_Io string
  | Run_No_Key
  | Run_Tls string

definition show_run_error :: "run_error \<Rightarrow> string" where
  "show_run_error e =
     (case e of
        Run_Config ce \<Rightarrow> show_config_error ce
      | Run_Io m \<Rightarrow> m
      | Run_No_Key \<Rightarrow> ''no private key found in TLS key file''
      | Run_Tls m \<Rightarrow> m)"

fun collect_results :: "('e + 'a) list \<Rightarrow> 'e + 'a list" where
  \<comment> \<open>\<open>Iterator::collect::<Result<Vec<_>, _>>\<close>\<close>
  "collect_results [] = Inr []"
| "collect_results (r # rs) = rbind r (\<lambda>x. rbind (collect_results rs) (\<lambda>xs. Inr (x # xs)))"

definition map_err :: "('e \<Rightarrow> 'f) \<Rightarrow> 'e + 'a \<Rightarrow> 'f + 'a" where
  "map_err f r = (case r of Inl e \<Rightarrow> Inl (f e) | Inr x \<Rightarrow> Inr x)"

definition load_tls_config ::
    "tls_lib \<Rightarrow> (string \<Rightarrow> string + bytes) \<Rightarrow> string \<Rightarrow> string \<Rightarrow> run_error + tls_config" where
  "load_tls_config tls read_file cert_path key_path =
     rbind (map_err Run_Io (read_file cert_path)) (\<lambda>cert_data.
     rbind (map_err Run_Io (read_file key_path)) (\<lambda>key_data.
     rbind (map_err Run_Io (collect_results (pem_certs tls cert_data))) (\<lambda>certs.
     rbind (map_err Run_Io (pem_private_key tls key_data)) (\<lambda>key.
     case key of
       None \<Rightarrow> Inl Run_No_Key
     | Some key \<Rightarrow> map_err Run_Tls (with_single_cert tls certs key)))))"

definition expect :: "string \<Rightarrow> string + 'a \<Rightarrow> 'a outcome" where
  \<comment> \<open>\<open>Result::expect\<close>: the message, a colon and the error\<close>
  "expect msg r = map_err (\<lambda>e. Expect_Panic (msg @ '': '' @ e)) r"

definition generate_self_signed_cert :: "('kp, 'pa) rcgen_lib \<Rightarrow> (bytes list \<times> bytes) outcome" where
  "generate_self_signed_cert rg =
     rbind (expect ''keygen failed'' (rg_generate rg)) (\<lambda>key_pair.
     rbind (expect ''cert params failed'' (rg_params rg [''localhost''])) (\<lambda>params.
     rbind (expect ''self-sign failed'' (rg_self_signed rg params key_pair)) (\<lambda>cert_der.
     rbind (expect ''key serialization failed'' (rg_key_try_from rg (rg_serialize_der rg key_pair))) (\<lambda>key_der.
     Inr ([cert_der], key_der)))))"

definition make_server_config :: "tls_lib \<Rightarrow> ('kp, 'pa) rcgen_lib \<Rightarrow> tls_config outcome" where
  "make_server_config tls rg =
     rbind (generate_self_signed_cert rg) (\<lambda>(certs, key).
     rbind (expect ''TLS config failed'' (with_single_cert tls certs key)) (\<lambda>tls_config.
     expect ''QUIC config failed''
       (quic_server_config tls
          (tls_config\<lparr>alpn_protocols := [''entrouter''], max_early_data_size := - 1\<rparr>))))"

section \<open>Computations of the start\<close>

datatype os_call =
    Socket_New
  | Set_Recv_Buffer nat
  | Set_Send_Buffer nat
  | Set_Nonblocking
  | Bind_Udp sock_addr
  | From_Std
  | Bind_Tcp sock_addr
  | Quic_Endpoint tls_config sock_addr

datatype spawned =
    Probe_Loop node_name u64
  | Receive_Loop
  | Forwarder_Run
  | Tcp_Listen
  | Quic_Listen
  | Local_Dispatch
  | Admin_Serve

datatype failure = Run_Error run_error | Run_Panic panic

fun build_failure :: "build_error \<Rightarrow> failure" where
  "build_failure (Build_Config e) = Run_Error (Run_Config e)"
| "build_failure (Build_Panic p) = Run_Panic p"

record startup =
  su_calls :: "os_call list"
  su_tasks :: "spawned list"

type_synonym 'a start = "startup \<Rightarrow> (failure + 'a) \<times> startup"

definition sbind :: "'a start \<Rightarrow> ('a \<Rightarrow> 'b start) \<Rightarrow> 'b start" where
  "sbind m f = (\<lambda>s. case m s of (Inl e, s) \<Rightarrow> (Inl e, s) | (Inr x, s) \<Rightarrow> f x s)"

definition slift :: "failure + 'a \<Rightarrow> 'a start" where
  "slift r = (\<lambda>s. (r, s))"

definition spawn :: "spawned \<Rightarrow> unit start" where
  "spawn t = (\<lambda>s. (Inr (), s\<lparr>su_tasks := su_tasks s @ [t]\<rparr>))"

type_synonym os = "os_call list \<Rightarrow> os_call \<Rightarrow> string option"

definition os_call_ok :: "os \<Rightarrow> os_call \<Rightarrow> unit start" where
  \<comment> \<open>a call whose error is handed on by \<open>?\<close>\<close>
  "os_call_ok os c = (\<lambda>s.
     (case os (su_calls s) c of None \<Rightarrow> Inr () | Some e \<Rightarrow> Inl (Run_Error (Run_Io e)),
      s\<lparr>su_calls := su_calls s @ [c]\<rparr>))"

definition os_call_ignored :: "os_call \<Rightarrow> unit start" where
  \<comment> \<open>a call whose error is dropped by \<open>ok()\<close>\<close>
  "os_call_ignored c = (\<lambda>s. (Inr (), s\<lparr>su_calls := su_calls s @ [c]\<rparr>))"

section \<open>The stages of run\<close>

record ('kp, 'pa) program_env =
  pe_os :: os
  pe_read :: "string \<Rightarrow> string + bytes"
  pe_read_to_string :: "string \<Rightarrow> string + string"
  pe_toml :: "string \<Rightarrow> string + config"
  pe_base64 :: base64_lib
  pe_tls :: tls_lib
  pe_rcgen :: "('kp, 'pa) rcgen_lib"

definition cli_config :: "string option \<Rightarrow> string" where
  \<comment> \<open>the command line: the value of \<open>--config\<close>, if it was given\<close>
  "cli_config arg = (case arg of None \<Rightarrow> ''config.toml'' | Some path \<Rightarrow> path)"

definition SOCKET_BUFFER :: nat where "SOCKET_BUFFER = 4 * 1024 * 1024"

definition bind_udp :: "os \<Rightarrow> sock_addr \<Rightarrow> unit start" where
  "bind_udp os addr =
     sbind (os_call_ok os Socket_New) (\<lambda>_.
     sbind (os_call_ignored (Set_Recv_Buffer SOCKET_BUFFER)) (\<lambda>_.
     sbind (os_call_ignored (Set_Send_Buffer SOCKET_BUFFER)) (\<lambda>_.
     sbind (os_call_ok os Set_Nonblocking) (\<lambda>_.
     sbind (os_call_ok os (Bind_Udp addr)) (\<lambda>_.
     os_call_ok os From_Std)))))"

fun start_peers :: "base64_lib \<Rightarrow> u64 \<Rightarrow> peer_config list \<Rightarrow> node \<Rightarrow> node start" where
  "start_peers b64 ms [] nd = slift (Inr nd)"
| "start_peers b64 ms (peer # peers) nd =
     sbind (slift (map_err build_failure (add_peer b64 peer nd))) (\<lambda>nd.
     sbind (spawn (Probe_Loop (pc_node_id peer) ms)) (\<lambda>_.
     start_peers b64 ms peers nd))"

definition start_tls :: "tls_lib \<Rightarrow> (string \<Rightarrow> string + bytes) \<Rightarrow> listen_config \<Rightarrow> node \<Rightarrow> run_error + node" where
  "start_tls tls read_file lc nd =
     (case (lc_tls_cert_path lc, lc_tls_key_path lc) of
        (Some cert_path, Some key_path) \<Rightarrow>
          rbind (load_tls_config tls read_file cert_path key_path) (\<lambda>_. Inr (node_with_tls nd))
      | _ \<Rightarrow> Inr nd)"

definition start_edges :: "('kp, 'pa) program_env \<Rightarrow> listen_config \<Rightarrow> node \<Rightarrow> node start" where
  \<comment> \<open>from the receive loop to the admin server\<close>
  "start_edges env lc nd =
     sbind (spawn Receive_Loop) (\<lambda>_.
     sbind (spawn Forwarder_Run) (\<lambda>_.
     sbind (os_call_ok (pe_os env) (Bind_Tcp (lc_tcp_addr lc))) (\<lambda>_.
     sbind (slift (map_err Run_Error (start_tls (pe_tls env) (pe_read env) lc nd))) (\<lambda>nd.
     sbind (spawn Tcp_Listen) (\<lambda>_.
     sbind (slift (map_err Run_Panic (make_server_config (pe_tls env) (pe_rcgen env)))) (\<lambda>quic_config.
     sbind (os_call_ok (pe_os env) (Quic_Endpoint quic_config (lc_quic_addr lc))) (\<lambda>_.
     sbind (spawn Quic_Listen) (\<lambda>_.
     sbind (spawn Local_Dispatch) (\<lambda>_.
     sbind (os_call_ok (pe_os env) (Bind_Tcp (lc_admin_addr lc))) (\<lambda>_.
     sbind (spawn Admin_Serve) (\<lambda>_.
     slift (Inr nd))))))))))))"

definition run_node :: "('kp, 'pa) program_env \<Rightarrow> string option \<Rightarrow> (config \<times> node) start" where
  \<comment> \<open>up to the wait for \<open>ctrl_c\<close>: the configuration and the node whose tasks then run\<close>
  "run_node env arg =
     sbind (slift (map_err (\<lambda>e. Run_Error (Run_Config e))
              (load (pe_read_to_string env) (pe_toml env) (pe_base64 env) (cli_config arg)))) (\<lambda>c.
     sbind (bind_udp (pe_os env) (lc_relay_addr (cfg_listen c))) (\<lambda>_.
     sbind (start_peers (pe_base64 env) (mc_probe_interval_ms (cfg_mesh c)) (cfg_peers c) (node_base c)) (\<lambda>nd.
     sbind (start_edges env (cfg_listen c) nd) (\<lambda>nd.
     slift (Inr (c, nd))))))"

datatype process_exit = Exit_Success | Exit_Failure string | Abort panic

definition program_main :: "('kp, 'pa) program_env \<Rightarrow> string option \<Rightarrow> process_exit" where
  \<comment> \<open>how the process ends, after \<open>ctrl_c\<close> if it started; the release profile aborts on a panic\<close>
  "program_main env arg =
     (case fst (run_node env arg \<lparr>su_calls = [], su_tasks = []\<rparr>) of
        Inr _ \<Rightarrow> Exit_Success
      | Inl (Run_Error e) \<Rightarrow> Exit_Failure (show_run_error e)
      | Inl (Run_Panic p) \<Rightarrow> Abort p)"

section \<open>What a start has to get through\<close>

definition udp_calls :: "sock_addr \<Rightarrow> os_call list" where
  "udp_calls addr = [Socket_New, Set_Recv_Buffer SOCKET_BUFFER, Set_Send_Buffer SOCKET_BUFFER, Set_Nonblocking,
     Bind_Udp addr, From_Std]"

definition os_failure :: "os \<Rightarrow> os_call list \<Rightarrow> os_call \<Rightarrow> failure option" where
  "os_failure os before c = map_option (\<lambda>e. Run_Error (Run_Io e)) (os before c)"

definition sum_failure :: "('e \<Rightarrow> failure) \<Rightarrow> 'e + 'a \<Rightarrow> failure option" where
  "sum_failure f r = (case r of Inl e \<Rightarrow> Some (f e) | Inr _ \<Rightarrow> None)"

definition tls_failure :: "('kp, 'pa) program_env \<Rightarrow> listen_config \<Rightarrow> failure option" where
  "tls_failure env lc =
     (case (lc_tls_cert_path lc, lc_tls_key_path lc) of
        (Some cp, Some kp) \<Rightarrow> sum_failure Run_Error (load_tls_config (pe_tls env) (pe_read env) cp kp)
      | _ \<Rightarrow> None)"

definition startup_calls :: "('kp, 'pa) program_env \<Rightarrow> listen_config \<Rightarrow> os_call list" where
  "startup_calls env lc =
     udp_calls (lc_relay_addr lc) @
     [Bind_Tcp (lc_tcp_addr lc), Quic_Endpoint (projr (make_server_config (pe_tls env) (pe_rcgen env))) (lc_quic_addr lc),
      Bind_Tcp (lc_admin_addr lc)]"

definition capacity_failure :: "fec_config \<Rightarrow> failure option" where
  \<comment> \<open>the buffers of a peer's sender are too large\<close>
  "capacity_failure cfg = (if sender_fits cfg then None else Some (Run_Panic Capacity_Panic))"

definition startup_checks :: "('kp, 'pa) program_env \<Rightarrow> config \<Rightarrow> failure option list" where
  \<comment> \<open>the stages after the configuration, each judged as if all before it had succeeded\<close>
  "startup_checks env c =
     (let calls = startup_calls env (cfg_listen c); call = (\<lambda>k. os_failure (pe_os env) (take k calls) (calls ! k))
      in [call 0, call 3, call 4, call 5, capacity_failure (fec_config_of (cfg_relay c)), call 6,
          tls_failure env (cfg_listen c), sum_failure Run_Panic (make_server_config (pe_tls env) (pe_rcgen env)),
          call 7, call 8])"

fun first_failure :: "failure option list \<Rightarrow> failure option" where
  "first_failure [] = None"
| "first_failure (None # fs) = first_failure fs"
| "first_failure (Some f # fs) = Some f"

definition startup_tasks :: "config \<Rightarrow> spawned list" where
  "startup_tasks c =
     map (\<lambda>peer. Probe_Loop (pc_node_id peer) (mc_probe_interval_ms (cfg_mesh c))) (cfg_peers c) @
     [Receive_Loop, Forwarder_Run, Tcp_Listen, Quic_Listen, Local_Dispatch, Admin_Serve]"

named_theorems start_simps \<open>running the computations of a start\<close>

lemma run_steps [start_simps]:
  "slift r s = (r, s)"
  "spawn t s = (Inr (), s\<lparr>su_tasks := su_tasks s @ [t]\<rparr>)"
  "os_call_ignored c s = (Inr (), s\<lparr>su_calls := su_calls s @ [c]\<rparr>)"
  "map_err f (Inl e) = Inl (f e)"
  "map_err f (Inr x) = Inr x"
  by (simp_all add: slift_def spawn_def os_call_ignored_def map_err_def)

lemma sbind_steps [start_simps]:
  "m s = (Inr x, s') \<Longrightarrow> sbind m f s = f x s'"
  "m s = (Inl e, s') \<Longrightarrow> sbind m f s = (Inl e, s')"
  by (simp_all add: sbind_def)

lemma os_call_steps [start_simps]:
  "os_failure os (su_calls s) c = None \<Longrightarrow> os_call_ok os c s = (Inr (), s\<lparr>su_calls := su_calls s @ [c]\<rparr>)"
  "os_failure os (su_calls s) c = Some f \<Longrightarrow> os_call_ok os c s = (Inl f, s\<lparr>su_calls := su_calls s @ [c]\<rparr>)"
  by (auto simp: os_failure_def os_call_ok_def)

lemma start_peers_ok:
  "add_peers b64 peers nd = Inr nd' \<Longrightarrow>
   start_peers b64 ms peers nd s = (Inr nd', s\<lparr>su_tasks := su_tasks s @ map (\<lambda>p. Probe_Loop (pc_node_id p) ms) peers\<rparr>)"
proof (induction peers arbitrary: nd s)
  case Nil
  then show ?case by (simp add: start_simps)
next
  case (Cons peer peers)
  from Cons.prems obtain nd1 where add: "add_peer b64 peer nd = Inr nd1" "add_peers b64 peers nd1 = Inr nd'"
    by (auto simp: rbind_eq_Inr_iff)
  show ?case by (simp add: start_simps add(1) Cons.IH [OF add(2)])
qed

lemma start_peers_fails:
  "add_peers b64 peers nd = Inl e \<Longrightarrow> fst (start_peers b64 ms peers nd s) = Inl (build_failure e)"
proof (induction peers arbitrary: nd s)
  case (Cons peer peers)
  then show ?case by (cases "add_peer b64 peer nd") (simp_all add: start_simps)
qed simp

definition runs_as :: "failure option list \<Rightarrow> (failure + 'a) \<times> startup \<Rightarrow> 'a \<Rightarrow> startup \<Rightarrow> bool" where
  \<comment> \<open>a computation fails with the first failure of the list, or ends in the value and the state\<close>
  "runs_as fs r x s = (case first_failure fs of None \<Rightarrow> r = (Inr x, s) | Some f \<Rightarrow> fst r = Inl f)"

lemma runs_as_step:
  "case c of None \<Rightarrow> m s = (Inr y, s') \<and> runs_as fs (f y s') x t | Some e \<Rightarrow> fst (m s) = Inl e \<Longrightarrow>
   runs_as (c # fs) (sbind m f s) x t"
  by (cases "m s") (auto simp: runs_as_def sbind_def split: option.splits)

lemma runs_as_os_call:
  assumes "c = os_failure os (su_calls s) cl"
    and "runs_as fs (f () (s\<lparr>su_calls := su_calls s @ [cl]\<rparr>)) x t"
  shows "runs_as (c # fs) (sbind (os_call_ok os cl) f s) x t"
  using assms by (intro runs_as_step [where s' = "s\<lparr>su_calls := su_calls s @ [cl]\<rparr>"])
    (auto simp: start_simps split: option.splits)

lemma runs_as_lift:
  assumes "c = sum_failure h r" and "\<And>y. r = Inr y \<Longrightarrow> runs_as fs (f y s) x t"
  shows "runs_as (c # fs) (sbind (slift (map_err h r)) f s) x t"
  using assms by (cases r) (auto simp: runs_as_def sum_failure_def sbind_def start_simps)

lemma runs_as_pure:
  "runs_as fs (f () (s\<lparr>su_tasks := su_tasks s @ [k]\<rparr>)) x t \<Longrightarrow> runs_as fs (sbind (spawn k) f s) x t"
  "runs_as fs (f () (s\<lparr>su_calls := su_calls s @ [cl]\<rparr>)) x t \<Longrightarrow> runs_as fs (sbind (os_call_ignored cl) f s) x t"
  by (simp_all add: sbind_def start_simps)

lemma runs_as_peers:
  assumes "c = sum_failure build_failure (add_peers b64 peers nd)"
    and "\<And>nd'. add_peers b64 peers nd = Inr nd' \<Longrightarrow>
      runs_as fs (f nd' (s\<lparr>su_tasks := su_tasks s @ map (\<lambda>p. Probe_Loop (pc_node_id p) ms) peers\<rparr>)) x t"
  shows "runs_as (c # fs) (sbind (start_peers b64 ms peers nd) f s) x t"
proof (cases "add_peers b64 peers nd")
  case (Inl e)
  then show ?thesis using start_peers_fails [OF Inl, of ms s] assms(1)
    by (cases "start_peers b64 ms peers nd s") (simp add: runs_as_def sbind_def sum_failure_def)
next
  case (Inr nd')
  then show ?thesis using assms by (simp add: runs_as_def sum_failure_def sbind_def start_peers_ok)
qed

lemma runs_as_return:
  "runs_as fs (f y s) x t \<Longrightarrow> runs_as fs (sbind (slift (Inr y)) f s) x t"
  "x = y \<Longrightarrow> s = t \<Longrightarrow> runs_as [] (slift (Inr y) s) x t"
  by (simp_all add: sbind_def start_simps runs_as_def)

lemma sbind_assoc: "sbind (sbind m f) g = sbind m (\<lambda>x. sbind (f x) g)"
  by (auto simp: sbind_def fun_eq_iff split: prod.splits sum.splits)

lemma start_tls_failure: "sum_failure Run_Error (start_tls (pe_tls env) (pe_read env) lc nd) = tls_failure env lc"
  by (auto simp: start_tls_def tls_failure_def sum_failure_def split: option.splits sum.splits)

lemma start_tls_value:
  assumes "add_peers b64 (cfg_peers c) (node_base c) = Inr nd" "start_tls tls rd (cfg_listen c) nd = Inr nd'"
  shows "node_new b64 c = Inr nd'"
  using assms by (auto simp: start_tls_def node_new_def rbind_eq_Inr_iff split: option.splits)

lemma config_load_iff:
  "load read_file from_toml b64 path = Inr c \<longleftrightarrow>
   (\<exists>content. read_file path = Inr content \<and> from_toml content = Inr c) \<and> config_ok b64 c"
  by (auto simp: load_def rbind_eq_Inr_iff validate_Inr_iff split: sum.splits)

lemma first_failure_None: "first_failure fs = None \<Longrightarrow> f \<in> set fs \<Longrightarrow> f = None"
  by (induction fs rule: first_failure.induct) auto

lemma peers_capacity:
  assumes "config_ok b64 c"
  shows "capacity_failure (fec_config_of (cfg_relay c)) = sum_failure build_failure (add_peers b64 (cfg_peers c) (node_base c))"
proof -
  have keys: "cfg_peers c \<noteq> []" "\<forall>peer \<in> set (cfg_peers c). \<exists>key. decode_key b64 peer = Inr key"
    using assms by (auto simp: config_ok_def decode_key_Inr_iff)
  have base: "fw_fec_config (nd_fw (node_base c)) = fec_config_of (cfg_relay c)" "fw_senders (nd_fw (node_base c)) = []"
    by (simp_all add: node_base_def forwarder_new_def Let_def)
  show ?thesis
    using add_peers_total [OF keys(2), of "node_base c"] add_peers_too_big [OF keys base(2)]
    by (auto simp: base(1) capacity_failure_def sum_failure_def)
qed

lemma run_as_checks:
  assumes load: "load (pe_read_to_string env) (pe_toml env) (pe_base64 env) (cli_config arg) = Inr c"
  shows "\<exists>nd. (sender_fits (fec_config_of (cfg_relay c)) \<longrightarrow> node_new (pe_base64 env) c = Inr nd) \<and>
    runs_as (startup_checks env c) (run_node env arg \<lparr>su_calls = [], su_tasks = []\<rparr>) (c, nd)
      \<lparr>su_calls = startup_calls env (cfg_listen c), su_tasks = startup_tasks c\<rparr>"
proof -
  let ?lc = "cfg_listen c" and ?b64 = "pe_base64 env"
  have ok: "config_ok ?b64 c"
    using load by (simp add: config_load_iff)
  have fits: "\<exists>nd. node_new ?b64 c = Inr nd" if "sender_fits (fec_config_of (cfg_relay c))"
    using node_new_fits [OF _ that] ok by (auto simp: config_ok_def decode_key_Inr_iff)
  define nd where "nd = projr (node_new ?b64 c)"
  have tls: "y = nd" if "add_peers ?b64 (cfg_peers c) (node_base c) = Inr nd0" "start_tls tls rd ?lc nd0 = Inr y" for tls rd y nd0
    using start_tls_value [OF that] by (simp add: nd_def)
  have "runs_as (startup_checks env c) (run_node env arg \<lparr>su_calls = [], su_tasks = []\<rparr>) (c, nd)
      \<lparr>su_calls = startup_calls env ?lc, su_tasks = startup_tasks c\<rparr>"
    unfolding run_node_def load startup_checks_def Let_def startup_calls_def udp_calls_def bind_udp_def start_edges_def
      sbind_assoc
    by (simp only: start_simps, intro runs_as_os_call runs_as_pure runs_as_lift runs_as_peers runs_as_return)
      (auto simp: peers_capacity [OF ok] start_tls_failure startup_tasks_def sbind_def runs_as_def start_simps dest: tls)
  then show ?thesis using fits by (intro exI [of _ nd]) (auto simp: nd_def)
qed

lemma started_fits:
  assumes "first_failure (startup_checks env c) = None"
  shows "sender_fits (fec_config_of (cfg_relay c))"
proof -
  have "capacity_failure (fec_config_of (cfg_relay c)) \<in> set (startup_checks env c)"
    by (simp add: startup_checks_def Let_def)
  then have "capacity_failure (fec_config_of (cfg_relay c)) = None" using first_failure_None [OF assms] by blast
  then show ?thesis by (simp add: capacity_failure_def split: if_splits)
qed

section \<open>Properties\<close>

text \<open>C14. The program reports the first thing that goes wrong: starting fails with the error of the
  configuration if it does not load; otherwise with the failure of the first stage that fails, in the order
  relay socket, buffers of the peers' senders, TCP listener, TLS certificate, QUIC certificate, QUIC endpoint, admin
  listener, where buffers that exceed \<open>isize::MAX\<close> bytes and a failed certificate generation are panics; and
  with no failing stage the node that the configuration describes is built, and the program runs it. Nothing else makes
  the start fail: no key fails to decode once the configuration has loaded.\<close>

theorem startup_reports_first_failure:
  "let start = fst (run_node env arg \<lparr>su_calls = [], su_tasks = []\<rparr>)
   in case load (pe_read_to_string env) (pe_toml env) (pe_base64 env) (cli_config arg) of
        Inl e \<Rightarrow> start = Inl (Run_Error (Run_Config e))
      | Inr c \<Rightarrow>
          (case first_failure (startup_checks env c) of
             Some f \<Rightarrow> start = Inl f
           | None \<Rightarrow> \<exists>nd. node_new (pe_base64 env) c = Inr nd \<and> start = Inr (c, nd))"
proof (cases "load (pe_read_to_string env) (pe_toml env) (pe_base64 env) (cli_config arg)")
  case (Inl e)
  then show ?thesis by (simp add: run_node_def start_simps Let_def)
next
  case (Inr c)
  with run_as_checks [OF Inr] started_fits [of env c] show ?thesis
    by (auto simp: runs_as_def Let_def split: option.splits)
qed

text \<open>C15. A started program is the node of its configuration: when \<open>run\<close> reaches its wait for the signal, the
  configuration was accepted, the state is the one \<open>node_new\<close> builds, every socket was bound, in
  order, and exactly the tasks of the node model were spawned, one probe loop for each peer among them.  When the
  configured shard counts are a code of the Reed-Solomon library, as \<open>env_ok\<close> says, and the probe interval is not
  zero, neither of which is checked, the node satisfies the invariant under which no step of its tasks panics.\<close>

theorem started_program_is_node:
  assumes "run_node env arg \<lparr>su_calls = [], su_tasks = []\<rparr> = (Inr (c, nd), s)"
  shows "config_ok (pe_base64 env) c \<and> node_new (pe_base64 env) c = Inr nd \<and>
    su_calls s = startup_calls env (cfg_listen c) \<and> su_tasks s = startup_tasks c \<and>
    program_main env arg = Exit_Success \<and>
    (env_ok d p renv \<and> fec_config_of (cfg_relay c) = shards_cfg d p \<and> mc_probe_interval_ms (cfg_mesh c) \<noteq> 0 \<longrightarrow>
       node_ok d p nd)"
proof -
  have "load (pe_read_to_string env) (pe_toml env) (pe_base64 env) (cli_config arg) \<noteq> Inl e" for e
    using assms by (auto simp: run_node_def start_simps)
  then obtain c' where load: "load (pe_read_to_string env) (pe_toml env) (pe_base64 env) (cli_config arg) = Inr c'"
    by (metis sum.exhaust)
  obtain nd' where nd': "sender_fits (fec_config_of (cfg_relay c')) \<longrightarrow> node_new (pe_base64 env) c' = Inr nd'"
    and runs: "runs_as (startup_checks env c') (run_node env arg \<lparr>su_calls = [], su_tasks = []\<rparr>) (c', nd')
      \<lparr>su_calls = startup_calls env (cfg_listen c'), su_tasks = startup_tasks c'\<rparr>"
    using run_as_checks [OF load] by blast
  have none: "first_failure (startup_checks env c') = None"
    using runs assms by (auto simp: runs_as_def split: option.splits)
  then have c: "c' = c" and nd: "node_new (pe_base64 env) c = Inr nd"
    and s: "s = \<lparr>su_calls = startup_calls env (cfg_listen c), su_tasks = startup_tasks c\<rparr>"
    using runs assms nd' started_fits [OF none] by (auto simp: runs_as_def)
  have ok: "config_ok (pe_base64 env) c" using load by (simp add: config_load_iff c)
  moreover have "node_ok d p nd"
    if "env_ok d p renv" "fec_config_of (cfg_relay c) = shards_cfg d p" "mc_probe_interval_ms (cfg_mesh c) \<noteq> 0"
  proof -
    have d: "0 < d" "d \<le> 256" using that(1) by (simp_all add: env_ok_def rs_lawful_def)
    from node_new_ok [OF ok that(2) d that(3)] nd show ?thesis by (metis sum.inject(2))
  qed
  ultimately show ?thesis using nd s assms by (simp add: program_main_def)
qed

definition demo_tls :: tls_lib where
  "demo_tls = \<lparr>pem_certs = (\<lambda>_. [Inr [1]]), pem_private_key = (\<lambda>_. Inr (Some [2])),
     with_single_cert = (\<lambda>certs key. Inr \<lparr>tc_certs = certs, tc_key = key, alpn_protocols = [], max_early_data_size = 0\<rparr>),
     quic_server_config = Inr\<rparr>"

definition demo_rcgen :: "(nat, nat) rcgen_lib" where
  "demo_rcgen = \<lparr>rg_generate = Inr 5, rg_params = (\<lambda>names. Inr (length names)), rg_self_signed = (\<lambda>_ _. Inr [3]),
     rg_serialize_der = (\<lambda>_. [4]), rg_key_try_from = Inr\<rparr>"

definition demo_program :: "(nat, nat) program_env" where
  "demo_program = \<lparr>pe_os = (\<lambda>_ _. None), pe_read = (\<lambda>_. Inl ''no such file''), pe_read_to_string = (\<lambda>_. Inr ''toml''),
     pe_toml = (\<lambda>_. Inr demo_config), pe_base64 = demo_b64, pe_tls = demo_tls, pe_rcgen = demo_rcgen\<rparr>"

lemma demo_checks: "first_failure (startup_checks demo_program demo_config) = None"
  by (simp add: startup_checks_def capacity_failure_def fec_config_of_def startup_calls_def udp_calls_def os_failure_def tls_failure_def sum_failure_def
      make_server_config_def generate_self_signed_cert_def expect_def map_err_def demo_program_def demo_tls_def
      demo_rcgen_def demo_config_def Let_def)

theorem started_program_is_node_witness:
  "\<exists>nd s. run_node demo_program None \<lparr>su_calls = [], su_tasks = []\<rparr> = (Inr (demo_config, nd), s) \<and>
     program_main demo_program None = Exit_Success \<and> node_ok 2 1 nd \<and>
     su_tasks s = [Probe_Loop ''lon'' 500, Receive_Loop, Forwarder_Run, Tcp_Listen, Quic_Listen, Local_Dispatch, Admin_Serve]"
proof -
  have "load (pe_read_to_string demo_program) (pe_toml demo_program) (pe_base64 demo_program) (cli_config None) = Inr demo_config"
    by (simp add: config_load_iff demo_program_def demo_config_ok)
  from run_as_checks [OF this] obtain nd s
    where r: "run_node demo_program None \<lparr>su_calls = [], su_tasks = []\<rparr> = (Inr (demo_config, nd), s)"
    by (auto simp: runs_as_def demo_checks)
  from started_program_is_node [OF r, of 2 1 demo_env] r demo_env_ok demo_fec demo_probe_ms
  show ?thesis by (simp add: startup_tasks_def) (simp add: demo_config_def)
qed

end
