(* ===== verification/Edge_Listen.thy ===== *)
theory Edge_Listen
  imports Edge_Flows
begin

text \<open>
  The accept loops of the edges: \<open>TcpSplitter::listen\<close> (\<open>src/edge/tcp_split.rs\<close>), and
  \<open>QuicAcceptor::listen\<close> with its \<open>handle_connection\<close> (\<open>src/edge/quic_acceptor.rs\<close>).  What the sockets
  return is an event of the environment; a spawned task runs when its event comes.  The loops only
  ever open flows, so what \<open>Edge_Flows\<close> and \<open>Node\<close> show of an accepted stream as a step covers them.
\<close>

section \<open>TCP\<close>

datatype tcp_listen_event = Tl_Accepted | Tl_Accept_Error | Tl_Task bool

record tcp_listener =
  tl_edge :: tcp_splitter
  tl_tasks :: nat

definition tcp_listener_new :: "tcp_splitter \<Rightarrow> tcp_listener" where
  "tcp_listener_new s = \<lparr>tl_edge = s, tl_tasks = 0\<rparr>"

definition tcp_listen_turn :: "tcp_listen_event \<Rightarrow> tcp_listener \<Rightarrow> tcp_listener" where
  \<comment> \<open>an accepted connection spawns a task, which does the TLS handshake and then handles the connection;
      an accept error is logged and the loop goes on\<close>
  "tcp_listen_turn e l =
     (case e of
        Tl_Accepted \<Rightarrow> l\<lparr>tl_tasks := tl_tasks l + 1\<rparr>
      | Tl_Accept_Error \<Rightarrow> l
      | Tl_Task tls_ok \<Rightarrow>
          if tl_tasks l = 0 then l
          else l\<lparr>tl_edge := tcp_accept tls_ok (tl_edge l), tl_tasks := tl_tasks l - 1\<rparr>)"

definition tcp_listen :: "tcp_listen_event list \<Rightarrow> tcp_listener \<Rightarrow> tcp_listener" where
  "tcp_listen es l = fold tcp_listen_turn es l"

section \<open>QUIC\<close>

datatype quic_listen_event =
    Ql_Incoming bool
  | Ql_Closed
  | Ql_Stream nat
  | Ql_Application_Closed nat
  | Ql_Stream_Error nat

record quic_listener =
  ql_edge :: quic_acceptor
  ql_listening :: bool
  ql_conns :: "bool list"

definition quic_listener_new :: "quic_acceptor \<Rightarrow> quic_listener" where
  "quic_listener_new s = \<lparr>ql_edge = s, ql_listening = True, ql_conns = []\<rparr>"

definition conn_open :: "nat \<Rightarrow> quic_listener \<Rightarrow> bool" where
  "conn_open i l \<longleftrightarrow> i < length (ql_conns l) \<and> ql_conns l ! i"

definition quic_handle_connection :: "nat \<Rightarrow> bool \<Rightarrow> quic_listener \<Rightarrow> quic_listener" where
  \<comment> \<open>one turn of the loop over \<open>accept_bi\<close> of connection \<open>i\<close>: a stream is handled, any error ends the loop\<close>
  "quic_handle_connection i accepted l =
     (if \<not> conn_open i l then l
      else if accepted then l\<lparr>ql_edge := open_flow (ql_edge l)\<rparr>
      else l\<lparr>ql_conns := (ql_conns l)[i := False]\<rparr>)"

definition quic_listen_turn :: "quic_listen_event \<Rightarrow> quic_listener \<Rightarrow> quic_listener" where
  "quic_listen_turn e l =
     (case e of
        Ql_Incoming ok \<Rightarrow> if ql_listening l \<and> ok then l\<lparr>ql_conns := ql_conns l @ [True]\<rparr> else l
      | Ql_Closed \<Rightarrow> l\<lparr>ql_listening := False\<rparr>
      | Ql_Stream i \<Rightarrow> quic_handle_connection i True l
      | Ql_Application_Closed i \<Rightarrow> quic_handle_connection i False l
      | Ql_Stream_Error i \<Rightarrow> quic_handle_connection i False l)"

definition quic_listen :: "quic_listen_event list \<Rightarrow> quic_listener \<Rightarrow> quic_listener" where
  "quic_listen es l = fold quic_listen_turn es l"

section \<open>The loops open flows and nothing else\<close>

definition opens :: "nat \<Rightarrow> 'a acceptor_scheme \<Rightarrow> 'a acceptor_scheme" where
  "opens k s = (open_flow ^^ k) s"

lemma opens_simps [simp]: "opens 0 s = s" "open_flow (opens k s) = opens (Suc k) s"
  by (simp_all add: opens_def)

lemma opens_run: "opens k s = edge_run rd cap (replicate k Ed_Open) s"
proof (induction k)
  case 0
  then show ?case by (simp add: edge_run_def)
next
  case (Suc k)
  have "edge_run rd cap (replicate (Suc k) Ed_Open) s = edge_step rd cap Ed_Open (edge_run rd cap (replicate k Ed_Open) s)"
    by (simp add: edge_run_def replicate_append_same [symmetric] del: replicate.simps)
  also have "\<dots> = open_flow (opens k s)" by (simp add: edge_step_def Suc)
  finally show ?case by simp
qed

lemma tls_opens [simp]: "ts_tls (opens k s) = ts_tls s"
  by (induction k arbitrary: s) (simp_all add: opens_def open_flow_def next_flow_def fetch_add_def)

text \<open>
  After any events, every accepted TCP connection is a task still to run, a refused handshake or a
  flow: none is lost, an accept error stops nothing, and without TLS none is refused.
\<close>

lemma tcp_listen_inv:
  "tl_edge l = opens k s \<Longrightarrow> k + refused + tl_tasks l = n \<Longrightarrow> (\<not> ts_tls s \<longrightarrow> refused = 0) \<Longrightarrow>
   \<exists>k' refused'. tl_edge (tcp_listen es l) = opens k' s \<and>
     k' + refused' + tl_tasks (tcp_listen es l) = n + count_list es Tl_Accepted \<and> (\<not> ts_tls s \<longrightarrow> refused' = 0)"
proof (induction es arbitrary: l k refused n)
  case Nil
  then show ?case by (auto simp: tcp_listen_def)
next
  case (Cons e es)
  have step: "\<exists>k1 refused1. tl_edge (tcp_listen_turn e l) = opens k1 s \<and>
      k1 + refused1 + tl_tasks (tcp_listen_turn e l) = n + (if e = Tl_Accepted then 1 else 0) \<and>
      (\<not> ts_tls s \<longrightarrow> refused1 = 0)"
  proof (cases e)
    case (Tl_Task ok)
    show ?thesis
    proof -
      consider (idle) "tl_tasks l = 0" | (refused) "ts_tls s" "\<not> ok" "0 < tl_tasks l"
        | (opened) "ts_tls s \<longrightarrow> ok" "0 < tl_tasks l" by auto
      then show ?thesis
      proof cases
        case idle
        with Cons.prems show ?thesis by (intro exI [of _ k] exI [of _ refused]) (simp add: Tl_Task tcp_listen_turn_def)
      next
        case refused
        with Cons.prems show ?thesis
          by (intro exI [of _ k] exI [of _ "Suc refused"]) (simp add: Tl_Task tcp_listen_turn_def tcp_accept_def)
      next
        case opened
        with Cons.prems show ?thesis
          by (intro exI [of _ "Suc k"] exI [of _ refused]) (simp add: Tl_Task tcp_listen_turn_def tcp_accept_def)
      qed
    qed
  next
    case Tl_Accepted
    with Cons.prems show ?thesis by (intro exI [of _ k] exI [of _ refused]) (simp add: tcp_listen_turn_def)
  next
    case Tl_Accept_Error
    with Cons.prems show ?thesis by (intro exI [of _ k] exI [of _ refused]) (simp add: tcp_listen_turn_def)
  qed
  then obtain k1 refused1 where "tl_edge (tcp_listen_turn e l) = opens k1 s"
    "k1 + refused1 + tl_tasks (tcp_listen_turn e l) = n + (if e = Tl_Accepted then 1 else 0)"
    "\<not> ts_tls s \<longrightarrow> refused1 = 0"
    by blast
  from Cons.IH [OF this]
  have "\<exists>k' refused'. tl_edge (tcp_listen es (tcp_listen_turn e l)) = opens k' s \<and>
      k' + refused' + tl_tasks (tcp_listen es (tcp_listen_turn e l)) =
        n + (if e = Tl_Accepted then 1 else 0) + count_list es Tl_Accepted \<and> (\<not> ts_tls s \<longrightarrow> refused' = 0)" .
  moreover have "n + (if e = Tl_Accepted then 1 else 0) + count_list es Tl_Accepted = n + count_list (e # es) Tl_Accepted"
    by simp
  moreover have "tcp_listen (e # es) l = tcp_listen es (tcp_listen_turn e l)" by (simp add: tcp_listen_def)
  ultimately show ?case by simp
qed

theorem tcp_listen_loses_none:
  "\<exists>k refused. tl_edge (tcp_listen es (tcp_listener_new s)) = edge_run tcp_read TCP_CHANNEL (replicate k Ed_Open) s \<and>
     k + refused + tl_tasks (tcp_listen es (tcp_listener_new s)) = count_list es Tl_Accepted \<and>
     (\<not> ts_tls s \<longrightarrow> refused = 0)"
  using tcp_listen_inv [of "tcp_listener_new s" 0 s 0 0 es]
  by (simp add: tcp_listener_new_def opens_run [symmetric])

text \<open>The QUIC loops open a flow for every stream of an open connection, and none once it failed.\<close>

lemma quic_listen_opens:
  "ql_edge l = opens k s \<Longrightarrow> \<exists>k'. k \<le> k' \<and> ql_edge (quic_listen es l) = opens k' s"
proof (induction es arbitrary: l k)
  case Nil
  then show ?case by (auto simp: quic_listen_def)
next
  case (Cons e es)
  have "ql_edge (quic_listen_turn e l) = opens k s \<or> ql_edge (quic_listen_turn e l) = opens (Suc k) s"
    using Cons.prems by (auto simp: quic_listen_turn_def quic_handle_connection_def split: quic_listen_event.splits)
  then obtain k1 where "k \<le> k1" "ql_edge (quic_listen_turn e l) = opens k1 s" by (metis le_Suc_eq order_refl)
  with Cons.IH [OF this(2)] show ?case by (auto simp: quic_listen_def intro: order_trans)
qed

lemma closed_conn_stays:
  "\<not> conn_open i l \<Longrightarrow> i < length (ql_conns l) \<Longrightarrow>
   \<not> conn_open i (quic_listen es l) \<and> i < length (ql_conns (quic_listen es l))"
proof (induction es arbitrary: l)
  case Nil
  then show ?case by (simp add: quic_listen_def)
next
  case (Cons e es)
  then have "\<not> conn_open i (quic_listen_turn e l)" "i < length (ql_conns (quic_listen_turn e l))"
    by (auto simp: quic_listen_turn_def quic_handle_connection_def conn_open_def nth_append nth_list_update
        split: quic_listen_event.splits)
  from Cons.IH [OF this] show ?case by (simp add: quic_listen_def)
qed

theorem failed_connection_opens_none:
  assumes "e = Ql_Application_Closed i \<or> e = Ql_Stream_Error i" "i < length (ql_conns l)"
  shows "let l' = quic_listen es (quic_listen_turn e l) in quic_listen_turn (Ql_Stream i) l' = l'"
proof -
  have "\<not> conn_open i (quic_listen_turn e l)" "i < length (ql_conns (quic_listen_turn e l))"
    using assms by (auto simp: quic_listen_turn_def quic_handle_connection_def conn_open_def split: if_splits)
  from closed_conn_stays [OF this, of es] show ?thesis
    by (simp add: Let_def quic_listen_turn_def quic_handle_connection_def)
qed

end
