(* ===== verification/Lossy_Proxy.thy ===== *)
theory Lossy_Proxy
  imports Tunnel "HOL-Library.Sublist"
begin

text \<open>
  The lossy UDP proxy used to test the error correction, \<open>src/bin/lossy_proxy.rs\<close>: it stands between
  a sender and a target and drops a share of the packets.  The random generator is a
  parameter with its own state; \<open>draw\<close> is \<open>gen::<f64>()\<close>, called only where the program calls it.  A
  datagram is cut to the 2048 bytes of the buffer.  The counters are \<open>u64\<close> and wrap.  Property: what
  the proxy loses, it counts, and it loses nothing else.
\<close>

section \<open>The proxy\<close>

record proxy_args =
  pa_listen :: sock_addr
  pa_target :: sock_addr
  pa_loss :: f64
  pa_bidirectional :: bool

record 'g lossy_proxy =
  px_rng :: 'g
  px_total :: u64
  px_dropped :: u64
  px_sender :: "sock_addr option"

definition PROXY_BUF :: nat where "PROXY_BUF = 2048"

definition lossy_proxy_new :: "'g \<Rightarrow> 'g lossy_proxy" where
  "lossy_proxy_new g = \<lparr>px_rng = g, px_total = 0, px_dropped = 0, px_sender = None\<rparr>"

definition proxy_turn ::
    "('g \<Rightarrow> f64 \<times> 'g) \<Rightarrow> proxy_args \<Rightarrow> recv_event \<Rightarrow> 'g lossy_proxy \<Rightarrow> (sock_addr \<times> bytes) list \<times> 'g lossy_proxy" where
  \<comment> \<open>one turn of the loop: the datagrams sent, and the state\<close>
  "proxy_turn draw args e s =
     (case e of
        Recv_Error \<Rightarrow> ([], s)
      | Recv_Dgram dgram src \<Rightarrow>
          let packet = take PROXY_BUF dgram;
              s = s\<lparr>px_total := px_total s + 1\<rparr>;
              is_from_target = (src = pa_target args)
          in if is_from_target \<and> \<not> pa_bidirectional args
             then (case px_sender s of None \<Rightarrow> ([], s) | Some addr \<Rightarrow> ([(addr, packet)], s))
             else let s = (if \<not> is_from_target then s\<lparr>px_sender := Some src\<rparr> else s)
                  in case draw (px_rng s) of (x, g) \<Rightarrow>
                       let s = s\<lparr>px_rng := g\<rparr>
                       in if f64_lt x (pa_loss args) then ([], s\<lparr>px_dropped := px_dropped s + 1\<rparr>)
                          else let dest = (if is_from_target
                                           then case px_sender s of None \<Rightarrow> pa_listen args | Some addr \<Rightarrow> addr
                                           else pa_target args)
                               in ([(dest, packet)], s))"

fun proxy_run ::
    "('g \<Rightarrow> f64 \<times> 'g) \<Rightarrow> proxy_args \<Rightarrow> recv_event list \<Rightarrow> 'g lossy_proxy \<Rightarrow> (sock_addr \<times> bytes) list \<times> 'g lossy_proxy" where
  "proxy_run draw args [] s = ([], s)"
| "proxy_run draw args (e # es) s =
     (case proxy_turn draw args e s of (out, s) \<Rightarrow>
      case proxy_run draw args es s of (outs, s) \<Rightarrow> (out @ outs, s))"

definition lossy_proxy_main ::
    "('g \<Rightarrow> f64 \<times> 'g) \<Rightarrow> 'g \<Rightarrow> (sock_addr \<Rightarrow> bool) \<Rightarrow> proxy_args \<Rightarrow> recv_event list \<Rightarrow>
     ((sock_addr \<times> bytes) list \<times> 'g lossy_proxy) outcome" where
  \<comment> \<open>\<open>main\<close> up to the given turns of its loop, which has no end; \<open>bind_ok\<close> is the result of binding the socket\<close>
  "lossy_proxy_main draw g bind_ok args events =
     (if bind_ok (pa_listen args) then Inr (proxy_run draw args events (lossy_proxy_new g)) else Inl (Expect_Panic ''failed to bind proxy socket''))"

section \<open>What it lets through\<close>

definition upstream :: "proxy_args \<Rightarrow> recv_event list \<Rightarrow> bytes list" where
  \<comment> \<open>the packets that come from anybody but the target\<close>
  "upstream args es = concat (map (\<lambda>e. case e of Recv_Error \<Rightarrow> [] | Recv_Dgram d src \<Rightarrow>
     if src = pa_target args then [] else [take PROXY_BUF d]) es)"

definition datagrams :: "recv_event list \<Rightarrow> nat" where
  "datagrams es = length (filter (\<lambda>e. e \<noteq> Recv_Error) es)"

fun returned :: "proxy_args \<Rightarrow> sock_addr option \<Rightarrow> recv_event list \<Rightarrow> (sock_addr \<times> bytes) list" where
  \<comment> \<open>the target's packets, each for the sender heard last\<close>
  "returned args prev [] = []"
| "returned args prev (Recv_Error # es) = returned args prev es"
| "returned args prev (Recv_Dgram d src # es) =
     (if src = pa_target args
      then (case prev of None \<Rightarrow> [] | Some a \<Rightarrow> [(a, take PROXY_BUF d)]) @ returned args prev es
      else returned args (Some src) es)"

definition to_target :: "proxy_args \<Rightarrow> (sock_addr \<times> bytes) list \<Rightarrow> bytes list" where
  "to_target args out = map snd (filter (\<lambda>(a, _). a = pa_target args) out)"

definition to_senders :: "proxy_args \<Rightarrow> (sock_addr \<times> bytes) list \<Rightarrow> (sock_addr \<times> bytes) list" where
  "to_senders args out = filter (\<lambda>(a, _). a \<noteq> pa_target args) out"

lemmas proxy_views = upstream_def datagrams_def to_target_def to_senders_def

lemma proxy_turn_cases:
  assumes "\<not> pa_bidirectional args"
  obtains (skip) "e = Recv_Error" "proxy_turn draw args e s = ([], s)"
    | (returning) d where "e = Recv_Dgram d (pa_target args)"
        and "proxy_turn draw args e s =
          ((case px_sender s of None \<Rightarrow> [] | Some a \<Rightarrow> [(a, take PROXY_BUF d)]), s\<lparr>px_total := px_total s + 1\<rparr>)"
    | (lost) d src where "e = Recv_Dgram d src" "src \<noteq> pa_target args" "f64_lt (fst (draw (px_rng s))) (pa_loss args)"
        and "proxy_turn draw args e s = ([], \<lparr>px_rng = snd (draw (px_rng s)), px_total = px_total s + 1,
          px_dropped = px_dropped s + 1, px_sender = Some src\<rparr>)"
    | (sent) d src where "e = Recv_Dgram d src" "src \<noteq> pa_target args" "\<not> f64_lt (fst (draw (px_rng s))) (pa_loss args)"
        and "proxy_turn draw args e s = ([(pa_target args, take PROXY_BUF d)], \<lparr>px_rng = snd (draw (px_rng s)),
          px_total = px_total s + 1, px_dropped = px_dropped s, px_sender = Some src\<rparr>)"
proof (cases e)
  case Recv_Error
  then show thesis by (intro skip) (simp_all add: proxy_turn_def)
next
  case (Recv_Dgram d src)
  show thesis
  proof (cases "src = pa_target args")
    case True
    with Recv_Dgram assms show thesis by (intro returning [of d]) (simp_all add: proxy_turn_def Let_def split: option.split)
  next
    case False
    obtain y g where draw: "draw (px_rng s) = (y, g)" by fastforce
    show thesis
    proof (cases "f64_lt (fst (draw (px_rng s))) (pa_loss args)")
      case True
      with Recv_Dgram False show thesis
        by (intro lost [of d src]) (cases s, simp_all add: proxy_turn_def Let_def draw)
    next
      case out: False
      with Recv_Dgram False show thesis
        by (intro sent [of d src]) (cases s, simp_all add: proxy_turn_def Let_def draw)
    qed
  qed
qed

text \<open>The proxy loses only what it counts: with loss on the way to the target only, the target gets a
  subsequence of the packets sent to it, in order, and the packets missing from it are exactly the
  growth of the \<open>dropped\<close> counter, as \<open>total\<close> grows by the datagrams received; the packets coming back from the target all
  go, in order, to the sender heard last; and where no draw is below the loss rate the target gets
  every packet.\<close>

theorem lossy_proxy_conserves:
  assumes "\<not> pa_bidirectional args" "px_sender s \<noteq> Some (pa_target args)"
    and "proxy_run draw args es s = (out, s')"
  shows "subseq (to_target args out) (upstream args es) \<and>
    px_dropped s' + word_of_nat (length (to_target args out)) = px_dropped s + word_of_nat (length (upstream args es)) \<and>
    px_total s' = px_total s + word_of_nat (datagrams es) \<and>
    to_senders args out = returned args (px_sender s) es \<and>
    ((\<forall>g. \<not> f64_lt (fst (draw g)) (pa_loss args)) \<longrightarrow> to_target args out = upstream args es)"
  using assms(2,3)
proof (induction es arbitrary: s out)
  case Nil
  then show ?case by (simp add: proxy_views)
next
  case (Cons e es)
  obtain out1 s1 where turn: "proxy_turn draw args e s = (out1, s1)" by fastforce
  obtain out2 where rest: "proxy_run draw args es s1 = (out2, s')" and out: "out = out1 @ out2"
    using Cons.prems(2) turn by (auto split: prod.splits)
  note IH = Cons.IH [OF _ rest]
  show ?case using assms(1)
  proof (cases rule: proxy_turn_cases [where e = e and draw = draw and s = s])
    case skip
    with turn have "out1 = []" "s1 = s" by simp_all
    with skip(1) IH Cons.prems(1) out show ?thesis by (simp add: proxy_views)
  next
    case (returning d)
    with turn have st: "out1 = (case px_sender s of None \<Rightarrow> [] | Some a \<Rightarrow> [(a, take PROXY_BUF d)])"
      "s1 = s\<lparr>px_total := px_total s + 1\<rparr>" by simp_all
    with returning(1) IH Cons.prems(1) out show ?thesis by (auto simp: proxy_views split: option.splits)
  next
    case (lost d src)
    with turn have st: "out1 = []" "s1 = \<lparr>px_rng = snd (draw (px_rng s)), px_total = px_total s + 1,
        px_dropped = px_dropped s + 1, px_sender = Some src\<rparr>" by simp_all
    with lost(1-3) IH out show ?thesis by (auto simp: proxy_views algebra_simps intro: list_emb_Cons)
  next
    case (sent d src)
    with turn have st: "out1 = [(pa_target args, take PROXY_BUF d)]" "s1 = \<lparr>px_rng = snd (draw (px_rng s)),
        px_total = px_total s + 1, px_dropped = px_dropped s, px_sender = Some src\<rparr>" by simp_all
    with sent(1-3) IH out show ?thesis by (auto simp: proxy_views algebra_simps)
  qed
qed

definition demo_proxy :: proxy_args where
  "demo_proxy = \<lparr>pa_listen = (1, 9000), pa_target = (1, 8001), pa_loss = f64_lit (1 / 2), pa_bidirectional = False\<rparr>"

definition demo_draw :: "nat \<Rightarrow> f64 \<times> nat" where
  \<comment> \<open>every second draw is zero, the others three quarters\<close>
  "demo_draw g = (if even g then f64_lit 0 else f64_lit (3 / 4), Suc g)"

theorem lossy_proxy_conserves_witness:
  "proxy_run demo_draw demo_proxy [Recv_Dgram [1] (1, 7), Recv_Dgram [2] (1, 7), Recv_Dgram [3] (1, 8001)] (lossy_proxy_new 0) =
     ([((1, 8001), [2]), ((1, 7), [3])], \<lparr>px_rng = 2, px_total = 3, px_dropped = 1, px_sender = Some (1, 7)\<rparr>) \<and>
   subseq [[2]] (upstream demo_proxy [Recv_Dgram [1] (1, 7), Recv_Dgram [2] (1, 7), Recv_Dgram [3] (1, 8001)])"
proof -
  have "f64_lt (f64_lit 0) (f64_lit (1 / 2))" "\<not> f64_lt (f64_lit (3 / 4)) (f64_lit (1 / 2))"
    by (code_simp, code_simp)
  then have run: "proxy_run demo_draw demo_proxy [Recv_Dgram [1] (1, 7), Recv_Dgram [2] (1, 7), Recv_Dgram [3] (1, 8001)]
      (lossy_proxy_new 0) = ([((1, 8001), [2]), ((1, 7), [3])], \<lparr>px_rng = 2, px_total = 3, px_dropped = 1, px_sender = Some (1, 7)\<rparr>)"
    by (simp add: proxy_turn_def lossy_proxy_new_def demo_proxy_def demo_draw_def PROXY_BUF_def)
  from lossy_proxy_conserves [OF _ _ run] run show ?thesis
    by (simp add: demo_proxy_def lossy_proxy_new_def to_target_def)
qed

end
