(* ===== verification/Test_Harness.thy ===== *)
theory Test_Harness
  imports Lossy_Proxy Tunnel_Correct Fec_Block
begin

text \<open>
  The end-to-end test program, \<open>src/bin/test_harness.rs\<close>: a sender that cuts blocks of random data into
  shards, adds parity and sends every shard in an encrypted frame; a proxy of its own that drops
  frames; a receiver that collects the shards of a block, reconstructs the blocks and reports
  which could be; and the verdict that is printed.  The random data, the key, the draws of the
  proxy and the socket are parameters.  The loopback network keeps the datagrams in order and
  loses none; the proxy is what loses.  The elapsed times behind the printed speeds are parameters.
\<close>

section \<open>Sender\<close>

definition u32_to_be :: "u32 \<Rightarrow> bytes" where "u32_to_be w = rev (u32_to_le w)"
definition u16_to_be :: "u16 \<Rightarrow> bytes" where "u16_to_be w = rev (u16_to_le w)"
definition u32_from_be :: "bytes \<Rightarrow> u32" where "u32_from_be bs = u32_from_le (rev bs)"
definition u16_from_be :: "bytes \<Rightarrow> u16" where "u16_from_be bs = u16_from_le (rev bs)"

definition harness_payload :: "nat \<Rightarrow> nat \<Rightarrow> bytes \<Rightarrow> bytes" where
  "harness_payload block_idx i shard = u32_to_be (word_of_nat block_idx) @ u16_to_be (word_of_nat i) @ shard"

definition DONE :: bytes where
  "DONE = [68, 79, 78, 69]"

fun send_shards ::
    "aead_lib \<Rightarrow> udp_socket \<Rightarrow> sock_addr \<Rightarrow> tunnel_crypto \<Rightarrow> fec_config \<Rightarrow> nat \<Rightarrow> nat \<Rightarrow> bytes list \<Rightarrow> u64
     \<Rightarrow> (bytes list \<times> u64) outcome" where
  "send_shards lib sock proxy crypto cfg block_idx i [] seq = Inr ([], seq)"
| "send_shards lib sock proxy crypto cfg block_idx i (shard # shards) seq =
     (let ptype = (if i < data_shards cfg then PACKET_DATA else PACKET_PARITY) in
      rbind (build_frame lib crypto ptype seq (harness_payload block_idx i shard)) (\<lambda>frame.
      if \<not> sock proxy frame then Inl (Expect_Panic ''send_to'')
      else rbind (send_shards lib sock proxy crypto cfg block_idx (Suc i) shards (seq + 1)) (\<lambda>(frames, seq).
           Inr (frame # frames, seq))))"

definition send_block ::
    "aead_lib \<Rightarrow> rs_lib \<Rightarrow> udp_socket \<Rightarrow> sock_addr \<Rightarrow> tunnel_crypto \<Rightarrow> fec_config \<Rightarrow> nat \<Rightarrow> bytes \<Rightarrow> u64
     \<Rightarrow> (bytes list \<times> u64) outcome" where
  "send_block lib rs sock proxy crypto cfg block_idx data seq =
     rbind (fec_encoder_new rs cfg) (\<lambda>enc.
     rbind (split_shards data (data_shards cfg)) (\<lambda>shards.
     rbind (fec_encode rs enc shards) (\<lambda>shards.
     send_shards lib sock proxy crypto cfg block_idx 0 shards seq)))"

fun send_blocks ::
    "aead_lib \<Rightarrow> rs_lib \<Rightarrow> udp_socket \<Rightarrow> sock_addr \<Rightarrow> tunnel_crypto \<Rightarrow> fec_config \<Rightarrow> nat \<Rightarrow> bytes list \<Rightarrow> u64
     \<Rightarrow> (bytes list \<times> u64) outcome" where
  "send_blocks lib rs sock proxy crypto cfg block_idx [] seq = Inr ([], seq)"
| "send_blocks lib rs sock proxy crypto cfg block_idx (data # datas) seq =
     rbind (send_block lib rs sock proxy crypto cfg block_idx data seq) (\<lambda>(frames, seq).
     rbind (send_blocks lib rs sock proxy crypto cfg (Suc block_idx) datas seq) (\<lambda>(more, seq).
     Inr (frames @ more, seq)))"

definition harness_send ::
    "aead_lib \<Rightarrow> rs_lib \<Rightarrow> udp_socket \<Rightarrow> sock_addr \<Rightarrow> tunnel_crypto \<Rightarrow> fec_config \<Rightarrow> bytes list \<Rightarrow> bytes list outcome" where
  \<comment> \<open>all blocks, then the termination signal\<close>
  "harness_send lib rs sock proxy crypto cfg datas =
     rbind (send_blocks lib rs sock proxy crypto cfg 0 datas 0) (\<lambda>(frames, seq).
     rbind (build_frame lib crypto PACKET_CONTROL seq DONE) (\<lambda>frame.
     if \<not> sock proxy frame then Inl (Expect_Panic ''send_to'') else Inr (frames @ [frame])))"

section \<open>Proxy\<close>

definition harness_proxy_turn ::
    "('g \<Rightarrow> f64 \<times> 'g) \<Rightarrow> sock_addr \<Rightarrow> f64 \<Rightarrow> recv_event \<Rightarrow> 'g lossy_proxy \<Rightarrow> (sock_addr \<times> bytes) list \<times> 'g lossy_proxy" where
  "harness_proxy_turn draw target loss e s =
     (case e of
        Recv_Error \<Rightarrow> ([], s)
      | Recv_Dgram dgram src \<Rightarrow>
          let packet = take 2048 dgram; s = s\<lparr>px_total := px_total s + 1\<rparr>
          in if src = target
             then (case px_sender s of None \<Rightarrow> ([], s) | Some addr \<Rightarrow> ([(addr, packet)], s))
             else let s = s\<lparr>px_sender := Some src\<rparr>
                  in case draw (px_rng s) of (x, g) \<Rightarrow>
                       if f64_lt x loss then ([], s\<lparr>px_rng := g, px_dropped := px_dropped s + 1\<rparr>)
                       else ([(target, packet)], s\<lparr>px_rng := g\<rparr>))"

fun harness_proxy_run ::
    "('g \<Rightarrow> f64 \<times> 'g) \<Rightarrow> sock_addr \<Rightarrow> f64 \<Rightarrow> recv_event list \<Rightarrow> 'g lossy_proxy \<Rightarrow> (sock_addr \<times> bytes) list \<times> 'g lossy_proxy" where
  "harness_proxy_run draw target loss [] s = ([], s)"
| "harness_proxy_run draw target loss (e # es) s =
     (case harness_proxy_turn draw target loss e s of (out, s) \<Rightarrow>
      case harness_proxy_run draw target loss es s of (outs, s) \<Rightarrow> (out @ outs, s))"

section \<open>Receiver\<close>

record block_result =
  br_success :: bool
  br_shards_lost :: nat

record receiver =
  hr_buf :: bytes
  hr_tracker :: loss_tracker
  hr_expected :: u64
  hr_blocks :: "(u32, bytes option list) dmap"

definition receiver_new :: receiver where
  "receiver_new = \<lparr>hr_buf = replicate 2048 0, hr_tracker = loss_tracker_new 1000, hr_expected = 0, hr_blocks = []\<rparr>"

definition block_entry :: "nat \<Rightarrow> u32 \<Rightarrow> (u32, bytes option list) dmap \<Rightarrow> bytes option list" where
  \<comment> \<open>\<open>entry(block_idx).or_insert_with(...)\<close>\<close>
  "block_entry n b blocks = (case dm_get blocks b of None \<Rightarrow> replicate n None | Some block \<Rightarrow> block)"

definition harness_recv ::
    "aead_lib \<Rightarrow> tunnel_crypto \<Rightarrow> nat \<Rightarrow> recv_event \<Rightarrow> receiver \<Rightarrow> (bool \<times> receiver) outcome" where
  \<comment> \<open>one turn of the loop; the flag is set when it leaves the loop\<close>
  "harness_recv lib crypto n e s =
     (case e of
        Recv_Error \<Rightarrow> Inr (False, s)
      | Recv_Dgram dgram _ \<Rightarrow>
          (case recv_from dgram (hr_buf s) of (len, buf) \<Rightarrow>
           let s = s\<lparr>hr_buf := buf\<rparr> in
           if len < HEADER_SIZE then Inr (False, s)
           else rbind (decode_header buf) (\<lambda>(packet_type, seq, payload_len).
             let ct_end = HEADER_SIZE + unat payload_len
             in if len < ct_end then Inr (False, s)
                else
                  rbind (record_gap (hr_expected s) seq (hr_tracker s)) (\<lambda>(expected, t).
                  rbind (lt_record True t) (\<lambda>t.
                  let s = s\<lparr>hr_expected := expected + 1, hr_tracker := t\<rparr>
                  in rbind (slice HEADER_SIZE ct_end buf) (\<lambda>ciphertext.
                     rbind (decrypt lib crypto seq ciphertext) (\<lambda>res.
                       case res of
                         Inl _ \<Rightarrow> Inr (False, s)
                       | Inr plaintext \<Rightarrow>
                           if packet_type = PACKET_CONTROL \<and> plaintext = DONE then Inr (True, s)
                           else if length plaintext < 6 then Inr (False, s)
                           else let block_idx = u32_from_be (take 4 plaintext);
                                    shard_idx = unat (u16_from_be (take 2 (drop 4 plaintext)));
                                    shard_data = drop 6 plaintext;
                                    block = block_entry n block_idx (hr_blocks s);
                                    block = (if shard_idx < n then block[shard_idx := Some shard_data] else block)
                                in Inr (False, s\<lparr>hr_blocks := dm_insert block_idx block (hr_blocks s)\<rparr>))))))))"

fun receive_blocks ::
    "aead_lib \<Rightarrow> tunnel_crypto \<Rightarrow> nat \<Rightarrow> recv_event list \<Rightarrow> receiver \<Rightarrow> receiver outcome" where
  \<comment> \<open>the end of the list is the timeout of two seconds without data\<close>
  "receive_blocks lib crypto n [] s = Inr s"
| "receive_blocks lib crypto n (e # es) s =
     rbind (harness_recv lib crypto n e s) (\<lambda>(done_seen, s).
     if done_seen then Inr s else receive_blocks lib crypto n es s)"

fun verdicts ::
    "rs_lib \<Rightarrow> fec_config \<Rightarrow> u32 list \<Rightarrow> (u32, bytes option list) dmap \<Rightarrow> block_result list outcome" where
  "verdicts rs cfg [] blocks = Inr []"
| "verdicts rs cfg (b # bs) blocks =
     (let block = block_entry (total_shards cfg) b blocks;
          shards_lost = length (filter (\<lambda>s. s = None) block)
      in rbind (fec_encoder_new rs cfg) (\<lambda>enc.
         let res = fec_reconstruct rs enc block;
             success = (case res of Inl _ \<Rightarrow> False | Inr _ \<Rightarrow> True);
             block = (case res of Inl _ \<Rightarrow> block | Inr out \<Rightarrow> out)
         in rbind (verdicts rs cfg bs (dm_insert b block blocks)) (\<lambda>results.
            Inr (\<lparr>br_success = success, br_shards_lost = shards_lost\<rparr> # results))))"

definition run_receiver ::
    "aead_lib \<Rightarrow> rs_lib \<Rightarrow> bytes \<Rightarrow> fec_config \<Rightarrow> nat \<Rightarrow> recv_event list \<Rightarrow> block_result list outcome" where
  "run_receiver lib rs key cfg expected_blocks events =
     rbind (receive_blocks lib (crypto_new key) (total_shards cfg) events receiver_new) (\<lambda>s.
     verdicts rs cfg (map word_of_nat [0..<unat (word_of_nat expected_blocks :: u32)]) (hr_blocks s))"

record receiver_line =
  rl_percent :: f64
  rl_recommended :: fec_config

definition receiver_line_of :: "receiver \<Rightarrow> receiver_line" where
  \<comment> \<open>the line the receiver prints at its end\<close>
  "receiver_line_of s =
     \<lparr>rl_percent = f64_mul (loss_rate (hr_tracker s)) (f64_lit 100), rl_recommended = recommended_config (hr_tracker s)\<rparr>"

definition receiver_prints ::
    "aead_lib \<Rightarrow> rs_lib \<Rightarrow> bytes \<Rightarrow> fec_config \<Rightarrow> nat \<Rightarrow> recv_event list \<Rightarrow> receiver_line outcome" where
  \<comment> \<open>the same run as \<open>run_receiver\<close>, for its printed line instead of its results\<close>
  "receiver_prints lib rs key cfg expected_blocks events =
     rbind (receive_blocks lib (crypto_new key) (total_shards cfg) events receiver_new) (\<lambda>s.
     rbind (verdicts rs cfg (map word_of_nat [0..<unat (word_of_nat expected_blocks :: u32)]) (hr_blocks s)) (\<lambda>_.
     Inr (receiver_line_of s)))"

section \<open>The verdict\<close>

record harness_report =
  rep_recovered :: u64
  rep_failed :: u64
  rep_shards_lost :: u64
  rep_zero_loss :: bool

definition tally :: "block_result list \<Rightarrow> harness_report" where
  "tally results =
     (case fold (\<lambda>r (ok, bad, lost).
        (if br_success r then (ok + 1, bad, lost + word_of_nat (br_shards_lost r))
         else (ok, bad + 1, lost + word_of_nat (br_shards_lost r)))) results (0, 0, 0) of
      (ok, bad, lost) \<Rightarrow> \<lparr>rep_recovered = ok, rep_failed = bad, rep_shards_lost = lost, rep_zero_loss = (bad = 0)\<rparr>)"

definition harness_arrivals ::
    "aead_lib \<Rightarrow> rs_lib \<Rightarrow> udp_socket \<Rightarrow> ('g \<Rightarrow> f64 \<times> 'g) \<Rightarrow> 'g \<Rightarrow> bytes \<Rightarrow> fec_config \<Rightarrow> f64 \<Rightarrow>
     sock_addr \<Rightarrow> sock_addr \<Rightarrow> sock_addr \<Rightarrow> bytes list \<Rightarrow> recv_event list outcome" where
  \<comment> \<open>the datagrams of the sender that come through the proxy to the receiver\<close>
  "harness_arrivals lib rs sock draw g key cfg loss sender proxy receiver datas =
     rbind (harness_send lib rs sock proxy (crypto_new key) cfg datas) (\<lambda>frames.
     case harness_proxy_run draw receiver loss (map (\<lambda>f. Recv_Dgram f sender) frames) (lossy_proxy_new g) of
       (sent, _) \<Rightarrow> Inr (map (\<lambda>(_, f). Recv_Dgram f proxy) sent))"

definition harness_exchange ::
    "aead_lib \<Rightarrow> rs_lib \<Rightarrow> udp_socket \<Rightarrow> ('g \<Rightarrow> f64 \<times> 'g) \<Rightarrow> 'g \<Rightarrow> bytes \<Rightarrow> fec_config \<Rightarrow> f64 \<Rightarrow>
     sock_addr \<Rightarrow> sock_addr \<Rightarrow> sock_addr \<Rightarrow> bytes list \<Rightarrow> block_result list outcome" where
  "harness_exchange lib rs sock draw g key cfg loss sender proxy receiver datas =
     rbind (harness_arrivals lib rs sock draw g key cfg loss sender proxy receiver datas)
       (run_receiver lib rs key cfg (length datas))"

record harness_totals =
  ht_data :: u64
  ht_shards_sent :: u64
  ht_loss_percent :: f64
  ht_send_ms :: f64
  ht_total_ms :: f64
  ht_throughput :: f64

definition harness_totals_of :: "nat \<Rightarrow> nat \<Rightarrow> fec_config \<Rightarrow> u64 \<Rightarrow> f64 \<Rightarrow> f64 \<Rightarrow> harness_totals" where
  \<comment> \<open>the printed statistics; the elapsed times come in seconds\<close>
  "harness_totals_of num_blocks block_size cfg lost send_secs total_secs =
     (let total_data = word_of_nat num_blocks * word_of_nat block_size;
          total_sent = word_of_nat num_blocks * word_of_nat (total_shards cfg)
      in \<lparr>ht_data = total_data, ht_shards_sent = total_sent,
          ht_loss_percent = f64_mul (f64_div (f64_of_nat (unat lost)) (f64_of_nat (unat total_sent))) (f64_lit 100),
          ht_send_ms = f64_mul send_secs (f64_lit 1000), ht_total_ms = f64_mul total_secs (f64_lit 1000),
          ht_throughput = f64_div (f64_div (f64_of_nat (unat total_data)) total_secs) (f64_lit 1000000)\<rparr>)"

definition test_harness ::
    "aead_lib \<Rightarrow> rs_lib \<Rightarrow> udp_socket \<Rightarrow> ('g \<Rightarrow> f64 \<times> 'g) \<Rightarrow> 'g \<Rightarrow> (bytes \<Rightarrow> bytes option) \<Rightarrow> f64 \<Rightarrow>
     sock_addr \<Rightarrow> sock_addr \<Rightarrow> sock_addr \<Rightarrow> nat \<Rightarrow> bytes list \<Rightarrow> f64 \<Rightarrow> f64 \<Rightarrow> (harness_report \<times> harness_totals) outcome" where
  "test_harness lib rs sock draw g fill loss sender proxy receiver block_size datas send_secs total_secs =
     rbind (generate_key fill) (\<lambda>key.
     let cfg = for_loss_rate loss in
     rbind (harness_exchange lib rs sock draw g key cfg loss sender proxy receiver datas) (\<lambda>results.
     let report = tally results
     in Inr (report, harness_totals_of (length datas) block_size cfg (rep_shards_lost report) send_secs total_secs)))"

section \<open>The two proxies\<close>

text \<open>The proxy inside the test program is the stand-alone proxy without \<open>bidirectional\<close>: on every
  sequence of datagrams they send the same datagrams to the same addresses and end in the same state (counters, last
  sender, random generator), so a loss pattern measured with one is a loss pattern of the other.\<close>

theorem harness_proxy_is_lossy_proxy:
  "harness_proxy_run draw target loss es s =
     proxy_run draw \<lparr>pa_listen = listen, pa_target = target, pa_loss = loss, pa_bidirectional = False\<rparr> es s"
proof (induction es arbitrary: s)
  case (Cons e es)
  have "harness_proxy_turn draw target loss e s =
      proxy_turn draw \<lparr>pa_listen = listen, pa_target = target, pa_loss = loss, pa_bidirectional = False\<rparr> e s"
    by (simp add: harness_proxy_turn_def proxy_turn_def PROXY_BUF_def Let_def split: recv_event.split prod.split)
  with Cons.IH show ?case by simp
qed simp

end
