(* ===== verification/Harness_Correct.thy ===== *)
theory Harness_Correct
  imports Test_Harness
begin

text \<open>
  What the test program measures is what happened: for every pattern of losses the receiver's report of a
  block is the number of its shards the proxy dropped, and the block counts as recovered exactly when the
  parity covers that number.  The lemmas follow the data: the frames of the sender, the ones the proxy
  keeps, the shards the receiver stores, the verdicts.
\<close>

section \<open>The frames\<close>

definition harness_frame :: "aead_lib \<Rightarrow> tunnel_crypto \<Rightarrow> nat \<Rightarrow> nat \<Rightarrow> (nat \<Rightarrow> bytes list) \<Rightarrow> nat \<Rightarrow> bytes" where
  \<comment> \<open>the frame number \<open>k\<close>, of \<open>t\<close> frames per block with the shards \<open>Y b\<close>\<close>
  "harness_frame lib c d t Y k =
     projr (build_frame lib c (if k mod t < d then PACKET_DATA else PACKET_PARITY) (word_of_nat k)
       (harness_payload (k div t) (k mod t) (Y (k div t) ! (k mod t))))"

lemma length_harness_payload [simp]: "length (harness_payload b i s) = 6 + length s"
  by (simp add: harness_payload_def u32_to_be_def u16_to_be_def)

lemma harness_payload_parts [simp]:
  "u32_from_be (take 4 (harness_payload b i s)) = word_of_nat b"
  "u16_from_be (take 2 (drop 4 (harness_payload b i s))) = word_of_nat i"
  "drop 6 (harness_payload b i s) = s"
  by (simp_all add: harness_payload_def u32_to_be_def u16_to_be_def u32_from_be_def u16_from_be_def)

lemma send_shards_eq:
  assumes "aead_lawful lib" "length (cipher_key c) = 32" "\<forall>f. sock proxy f"
    and "\<forall>y \<in> set (Y b). length y < 2 ^ 20" "0 < t"
  shows "i + n = length (Y b) \<Longrightarrow> length (Y b) = t \<Longrightarrow>
    send_shards lib sock proxy c cfg b i (drop i (Y b)) (word_of_nat (b * t + i)) =
      Inr (map (harness_frame lib c (data_shards cfg) t Y) [b * t + i ..< b * t + t], word_of_nat (b * t + t))"
proof (induction n arbitrary: i)
  case 0
  then show ?case by simp
next
  case (Suc n)
  then have i: "i < length (Y b)" "i < t" by simp_all
  let ?y = "Y b ! i"
  have "length ?y < 2 ^ 20" using assms(4) i by simp
  then have "length (harness_payload b i ?y) < 2 ^ 32" by simp
  then obtain f where f: "build_frame lib c (if i < data_shards cfg then PACKET_DATA else PACKET_PARITY)
      (word_of_nat (b * t + i)) (harness_payload b i ?y) = Inr f"
    using build_frame_ok [OF assms(1,2)] by metis
  have "(b * t + i) div t = b" "(b * t + i) mod t = i" using i by simp_all
  with f have "harness_frame lib c (data_shards cfg) t Y (b * t + i) = f"
    by (simp add: harness_frame_def del: of_nat_add of_nat_mult)
  moreover have "[b * t + i ..< b * t + t] = (b * t + i) # [b * t + Suc i ..< b * t + t]"
    using i by (simp add: upt_conv_Cons)
  moreover have "(word_of_nat (b * t + Suc i) :: u64) = word_of_nat (b * t + i) + 1" by simp
  note IH = Suc.IH [of "Suc i", unfolded this]
  ultimately show ?case
    using IH Suc.prems f i(1) assms(3)
    by (simp add: Cons_nth_drop_Suc [symmetric] del: of_nat_add of_nat_mult)
qed

definition coded :: "nat \<Rightarrow> nat \<Rightarrow> rs_lib \<Rightarrow> nat \<Rightarrow> bytes list \<Rightarrow> bool" where
  \<comment> \<open>shards of \<open>m\<close> bytes of which any \<open>d\<close> restore the others\<close>
  "coded d p rs m ys \<longleftrightarrow> length ys = d + p \<and> (\<forall>y \<in> set ys. length y = m) \<and>
     (\<forall>os. erasure_of os ys \<longrightarrow> d \<le> present os \<longrightarrow> rs_reconstruct rs d p os = Some (map Some ys))"

definition block_shards :: "rs_lib \<Rightarrow> fec_config \<Rightarrow> bytes \<Rightarrow> bytes list" where
  "block_shards rs cfg data =
     projr (rbind (split_shards data (data_shards cfg)) (\<lambda>shards. fec_encode rs \<lparr>enc_config = cfg\<rparr> shards))"

lemma block_shards_coded:
  assumes law: "rs_lawful rs d p" and data: "data \<noteq> []"
  shows "coded d p rs ((length data + d - 1) div d) (block_shards rs (shards_cfg d p) data)"
    and "send_block lib rs sock proxy c (shards_cfg d p) b data seq =
      send_shards lib sock proxy c (shards_cfg d p) b 0 (block_shards rs (shards_cfg d p) data) seq"
proof -
  let ?m = "(length data + d - 1) div d" and ?enc = "\<lparr>enc_config = shards_cfg d p\<rparr>"
  have d: "0 < d" "rs_new rs d p" using law by (simp_all add: rs_lawful_def)
  obtain shards n where sh: "split_shards data d = Inr shards" "length shards = d" "0 < n" "\<forall>s \<in> set shards. length s = n"
    using split_shards_ok [OF d(1) data] by metis
  have "shards \<noteq> []" using sh(2) d(1) by auto
  then have "n = ?m" using split_shards_size [OF sh(1)] sh(4) by (metis list.set_intros(1) neq_Nil_conv)
  obtain ys where ys: "fec_encode rs ?enc shards = Inr ys" "length ys = d + p" "\<forall>y \<in> set ys. length y = n"
    "\<And>os. erasure_of os ys \<Longrightarrow> d \<le> present os \<Longrightarrow> fec_reconstruct rs ?enc os = Inr (map Some ys)"
    using fec_encode_ok [OF law _ sh(2,4,3), of ?enc] by (metis fec_encoder.select_convs(1))
  have bs: "block_shards rs (shards_cfg d p) data = ys" by (simp add: block_shards_def sh(1) ys(1))
  have "rs_reconstruct rs d p os = Some (map Some ys)" if "erasure_of os ys" "d \<le> present os" for os
    using ys(4) [OF that] by (simp add: fec_reconstruct_def split: option.splits)
  then show "coded d p rs ?m (block_shards rs (shards_cfg d p) data)"
    using ys(2,3) \<open>n = ?m\<close> by (simp add: bs coded_def)
  show "send_block lib rs sock proxy c (shards_cfg d p) b data seq =
      send_shards lib sock proxy c (shards_cfg d p) b 0 (block_shards rs (shards_cfg d p) data) seq"
    using d(2) by (simp add: send_block_def fec_encoder_new_def sh(1) ys(1) bs)
qed

lemma send_blocks_eq:
  assumes lib: "aead_lawful lib" "length (cipher_key c) = 32" "\<forall>f. sock proxy f"
    and law: "rs_lawful rs d p" and small: "\<And>b. D b \<noteq> [] \<and> (length (D b) + d - 1) div d < 2 ^ 20"
  defines "Y \<equiv> \<lambda>b. block_shards rs (shards_cfg d p) (D b)" and "t \<equiv> d + p"
  shows "send_blocks lib rs sock proxy c (shards_cfg d p) b (map D [b..<b + n]) (word_of_nat (b * t)) =
    Inr (map (harness_frame lib c d t Y) [b * t ..< (b + n) * t], word_of_nat ((b + n) * t))"
proof (induction n arbitrary: b)
  case 0
  then show ?case by simp
next
  case (Suc n)
  have t: "0 < t" using law by (simp add: rs_lawful_def t_def)
  have Y: "coded d p rs ((length (D b) + d - 1) div d) (Y b)"
    unfolding Y_def using block_shards_coded(1) [OF law] small by blast
  then have "send_shards lib sock proxy c (shards_cfg d p) b 0 (Y b) (word_of_nat (b * t)) =
      Inr (map (harness_frame lib c d t Y) [b * t ..< b * t + t], word_of_nat (b * t + t))"
    using send_shards_eq [where sock = sock and proxy = proxy and i = 0 and n = "d + p" and cfg = "shards_cfg d p", OF lib, of Y b t] small [of b] t
    by (simp add: coded_def t_def del: of_nat_add of_nat_mult)
  then have blk: "send_block lib rs sock proxy c (shards_cfg d p) b (D b) (word_of_nat (b * t)) =
      Inr (map (harness_frame lib c d t Y) [b * t ..< Suc b * t], word_of_nat (Suc b * t))"
    using block_shards_coded(2) [OF law, of "D b" lib sock proxy c b "word_of_nat (b * t)"] small [of b]
    by (simp add: Y_def add.commute del: of_nat_add of_nat_mult)
  have D: "map D [b..<b + Suc n] = D b # map D [Suc b..<Suc b + n]" by (simp add: upt_conv_Cons del: upt_Suc)
  have e: "(b + Suc n) * t = Suc b * t + n * t" "(Suc b + n) * t = Suc b * t + n * t" by (simp_all add: algebra_simps)
  have "[b * t ..< (b + Suc n) * t] = [b * t ..< Suc b * t] @ [Suc b * t ..< (Suc b + n) * t]"
    unfolding e by (rule upt_add_eq_append) simp
  then show ?case
    unfolding D using Suc.IH [of "Suc b"] blk by (simp del: of_nat_add of_nat_mult upt_Suc mult_Suc)
qed

section \<open>The proxy\<close>

definition nth_draw :: "('g \<Rightarrow> f64 \<times> 'g) \<Rightarrow> 'g \<Rightarrow> nat \<Rightarrow> f64" where
  "nth_draw draw g k = fst (draw (((\<lambda>g. snd (draw g)) ^^ k) g))"

definition dropped :: "('g \<Rightarrow> f64 \<times> 'g) \<Rightarrow> 'g \<Rightarrow> f64 \<Rightarrow> nat \<Rightarrow> bool" where
  \<comment> \<open>the draw of the packet number \<open>k\<close> is below the loss rate\<close>
  "dropped draw g loss k \<longleftrightarrow> f64_lt (nth_draw draw g k) loss"

lemma dropped_Suc: "dropped draw g loss (Suc k) \<longleftrightarrow> dropped draw (snd (draw g)) loss k"
  by (simp add: dropped_def nth_draw_def funpow_Suc_right del: funpow.simps)

lemma proxy_keeps:
  assumes "sender \<noteq> target"
  shows "\<forall>k < n. length (F k) \<le> 2048 \<Longrightarrow>
    fst (harness_proxy_run draw target loss (map (\<lambda>k. Recv_Dgram (F k) sender) [0..<n]) s) =
      map (\<lambda>k. (target, F k)) (filter (\<lambda>k. \<not> dropped draw (px_rng s) loss k) [0..<n])"
proof (induction n arbitrary: F s)
  case (Suc n)
  obtain x g where draw: "draw (px_rng s) = (x, g)" by fastforce
  let ?s = "snd (harness_proxy_turn draw target loss (Recv_Dgram (F 0) sender) s)"
  have turn: "harness_proxy_turn draw target loss (Recv_Dgram (F 0) sender) s =
      (if dropped draw (px_rng s) loss 0 then [] else [(target, F 0)], ?s)" "px_rng ?s = g"
    using assms Suc.prems by (auto simp: harness_proxy_turn_def Let_def draw dropped_def nth_draw_def)
  have "fst (harness_proxy_run draw target loss (map (\<lambda>k. Recv_Dgram (F (Suc k)) sender) [0..<n]) ?s) =
      map (\<lambda>k. (target, F (Suc k))) (filter (\<lambda>k. \<not> dropped draw (px_rng s) loss (Suc k)) [0..<n])"
    using Suc.IH [of "\<lambda>k. F (Suc k)" ?s] Suc.prems by (simp add: turn(2) dropped_Suc draw)
  moreover have "[0..<Suc n] = 0 # map Suc [0..<n]" by (simp add: map_Suc_upt upt_conv_Cons del: upt_Suc)
  ultimately show ?case
    using turn(1) by (auto simp: filter_map comp_def split: prod.split simp del: upt_Suc)
qed simp

section \<open>The receiver\<close>

text \<open>The receiver learns of a lost frame when a later one arrives: \<open>heard\<close> cuts the losses at the end.\<close>

definition hear :: "bool list \<Rightarrow> nat \<Rightarrow> bool list" where
  \<comment> \<open>the history once frame number \<open>k\<close> arrives\<close>
  "hear h k = h @ replicate (k - length h) False @ [True]"

definition heard :: "bool list \<Rightarrow> bool list" where
  "heard fates = rev (dropWhile Not (rev fates))"

lemma length_hear [simp]: "length h \<le> k \<Longrightarrow> length (hear h k) = Suc k"
  by (simp add: hear_def)

lemma heard_snoc [simp]: "heard (xs @ [b]) = (if b then xs @ [True] else heard xs)"
  by (simp add: heard_def)

lemma heard_pad: "heard xs @ replicate (length xs - length (heard xs)) False = xs \<and> length (heard xs) \<le> length xs"
proof (induction xs rule: rev_induct)
  case Nil
  then show ?case by (simp add: heard_def)
next
  case (snoc b xs)
  have "replicate (Suc (length xs) - length (heard xs)) False = replicate (length xs - length (heard xs)) False @ [False]"
    using snoc by (metis Suc_diff_le replicate_Suc replicate_append_same)
  with snoc show ?case by (cases b) (simp_all flip: append_assoc)
qed

lemma hear_kept: "foldl hear [] (filter P [0..<n]) = heard (map P [0..<n])"
proof (induction n)
  case 0
  then show ?case by (simp add: heard_def)
next
  case (Suc n)
  then show ?case using heard_pad [of "map P [0..<n]"] by (simp add: hear_def)
qed

lemma lt_record_all_append: "lt_record_all (xs @ ys) t = rbind (lt_record_all xs t) (lt_record_all ys)"
proof (induction xs arbitrary: t)
  case (Cons x xs)
  then show ?case by (cases "lt_record x t") simp_all
qed simp

lemma tracker_hears:
  assumes t: "lt_record_all h (loss_tracker_new 1000) = Inr t" and k: "length h \<le> k" "k < 2 ^ 64"
  obtains t1 t2 where "record_gap (word_of_nat (length h)) (word_of_nat k) t = Inr (word_of_nat k, t1)"
    and "lt_record True t1 = Inr t2" and "lt_record_all (hear h k) (loss_tracker_new 1000) = Inr t2"
proof -
  have gap: "unat (word_of_nat k - word_of_nat (length h) :: u64) = k - length h"
    using k by (simp add: unat_sub_if_size unat_of_nat word_size)
  have total: "\<exists>t'. lt_record_all xs (loss_tracker_new 1000) = Inr t'" for xs
    using lt_record_all_view [OF lt_view_new [of 1000]] by auto
  obtain t1 where t1: "lt_record_all (h @ replicate (k - length h) False) (loss_tracker_new 1000) = Inr t1"
    using total by blast
  obtain t2 where t2: "lt_record_all (hear h k) (loss_tracker_new 1000) = Inr t2" using total by blast
  show thesis
  proof (rule that)
    show "record_gap (word_of_nat (length h)) (word_of_nat k) t = Inr (word_of_nat k, t1)"
      using t t1 by (simp add: record_gap_eq gap lt_record_all_append)
    have "rbind (Inr t1) (lt_record_all [True]) = Inr t2"
      using t2 t1 by (metis append_assoc hear_def lt_record_all_append)
    then show "lt_record True t1 = Inr t2" by (cases "lt_record True t1") simp_all
  qed (rule t2)
qed

definition harness_view :: "nat \<Rightarrow> (nat \<Rightarrow> bytes list) \<Rightarrow> bool list \<Rightarrow> (nat \<Rightarrow> nat set) \<Rightarrow> receiver \<Rightarrow> bool" where
  \<comment> \<open>the receiver has recorded the arrivals and losses \<open>h\<close>, and of the block \<open>b\<close> with the shards \<open>Y b\<close> it
    has those numbered \<open>R b\<close>\<close>
  "harness_view t Y h R s \<longleftrightarrow> length (hr_buf s) = 2048 \<and> hr_expected s = word_of_nat (length h) \<and>
     lt_record_all h (loss_tracker_new 1000) = Inr (hr_tracker s) \<and>
     (\<forall>b < 2 ^ 32. block_entry t (word_of_nat b) (hr_blocks s) = held (Y b) (R b))"

lemma block_word_inject: "a < 2 ^ 32 \<Longrightarrow> b < 2 ^ 32 \<Longrightarrow> (word_of_nat a :: u32) = word_of_nat b \<longleftrightarrow> a = b"
  by (simp add: word_unat_eq_iff unat_of_nat)

lemma block_entry_insert:
  "block_entry t a (dm_insert b block blocks) = (if a = b then block else block_entry t a blocks)"
  by (simp add: block_entry_def)

lemma harness_view_new:
  assumes "\<forall>b. length (Y b) = t"
  shows "harness_view t Y [] (\<lambda>_. {}) receiver_new"
  using assms by (auto simp: harness_view_def receiver_new_def block_entry_def held_empty)

lemma harness_recv_frame:
  assumes view: "harness_view t Y h R s" and lib: "aead_lawful lib" "length (cipher_key c) = 32"
    and f: "build_frame lib c ty (word_of_nat k) pl = Inr f" "length pl + 27 \<le> 2048" and k: "length h \<le> k" "k < 2 ^ 64"
  obtains buf tr where "length buf = 2048" "lt_record_all (hear h k) (loss_tracker_new 1000) = Inr tr"
    and "harness_recv lib c t (Recv_Dgram f src) s =
      (let s = s\<lparr>hr_buf := buf, hr_expected := word_of_nat k + 1, hr_tracker := tr\<rparr> in
       if ty = PACKET_CONTROL \<and> pl = DONE then Inr (True, s)
       else if length pl < 6 then Inr (False, s)
       else let block = block_entry t (u32_from_be (take 4 pl)) (hr_blocks s); i = unat (u16_from_be (take 2 (drop 4 pl)))
            in Inr (False, s\<lparr>hr_blocks := dm_insert (u32_from_be (take 4 pl))
                 (if i < t then block[i := Some (drop 6 pl)] else block) (hr_blocks s)\<rparr>))"
proof -
  from view have s: "length (hr_buf s) = 2048" "hr_expected s = word_of_nat (length h)"
    "lt_record_all h (loss_tracker_new 1000) = Inr (hr_tracker s)" by (simp_all add: harness_view_def)
  let ?seq = "word_of_nat k :: u64"
  have "length pl < 2 ^ 32" using f(2) by simp
  then obtain ct where ct: "length ct = length pl + 16" "decrypt lib c ?seq ct = Inr (Inr pl)"
    and "build_frame lib c ty ?seq pl = Inr (header_bytes ty ?seq (word_of_nat (length ct)) @ ct)"
    using build_frame_ok [OF lib] by blast
  with f(1) have feq: "f = header_bytes ty ?seq (word_of_nat (length ct)) @ ct" by simp
  have "length ct < 2 ^ 16" using ct(1) f(2) by simp
  then have len: "unat (word_of_nat (length ct) :: u16) = length ct" by (simp add: unat_of_nat)
  let ?buf = "f @ drop (length f) (hr_buf s)"
  have lf: "length f = 11 + length ct" by (simp add: feq)
  have rf: "recv_from f (hr_buf s) = (11 + length ct, ?buf)"
    using recv_from_full [of f "hr_buf s"] s(1) ct(1) f(2) lf by simp
  have sl: "slice 11 (11 + length ct) ?buf = Inr ct"
    unfolding feq append_assoc by (rule slice_append) simp_all
  have dh: "decode_header ?buf = Inr (ty, ?seq, word_of_nat (length ct))"
    unfolding feq append_assoc by (rule decode_header_bytes)
  obtain t1 t2 where t1: "record_gap (word_of_nat (length h)) ?seq (hr_tracker s) = Inr (?seq, t1)"
    and t2: "lt_record True t1 = Inr t2" "lt_record_all (hear h k) (loss_tracker_new 1000) = Inr t2"
    using tracker_hears [OF s(3) k] by metis
  show thesis
  proof (rule that)
    show "length ?buf = 2048" using s(1) lf ct(1) f(2) by simp
    show "lt_record_all (hear h k) (loss_tracker_new 1000) = Inr t2" by (rule t2(2))
  qed (simp add: harness_recv_def rf dh len sl ct(2) s(2) t1 t2(1) HEADER_SIZE_def Let_def)
qed

lemma harness_recv_shard:
  assumes view: "harness_view t Y h R s" and lib: "aead_lawful lib" "length (cipher_key c) = 32"
    and k: "k < 2 ^ 32 * t" "t \<le> 256" "length h \<le> k" and Y: "\<forall>b. length (Y b) = t \<and> (\<forall>y \<in> set (Y b). length y + 33 \<le> 2048)"
  obtains s' where "harness_recv lib c t (Recv_Dgram (harness_frame lib c d t Y k) src) s = Inr (False, s')"
    and "harness_view t Y (hear h k) (R(k div t := insert (k mod t) (R (k div t)))) s'"
proof -
  let ?b = "k div t" and ?i = "k mod t"
  have t: "0 < t" using k(1) by (cases t) simp_all
  have i: "?i < t" "?i < 2 ^ 16" using t k(2) mod_less_divisor [OF t, of k] by simp_all
  have b: "?b < 2 ^ 32" using k(1) t by (simp add: less_mult_imp_div_less)
  let ?pl = "harness_payload ?b ?i (Y ?b ! ?i)" and ?ty = "if ?i < d then PACKET_DATA else PACKET_PARITY"
  have "Y ?b ! ?i \<in> set (Y ?b)" using Y i(1) by simp
  then have "length (Y ?b ! ?i) + 33 \<le> 2048" using Y by blast
  then have pl: "length ?pl + 27 \<le> 2048" by simp
  then have "length ?pl < 2 ^ 32" by simp
  then obtain f where f: "build_frame lib c ?ty (word_of_nat k) ?pl = Inr f"
    using build_frame_ok [OF lib] by metis
  then have frame: "harness_frame lib c d t Y k = f" by (simp add: harness_frame_def)
  have "2 ^ 32 * t \<le> 2 ^ 32 * 256" using k(2) by (rule mult_le_mono2)
  then have "k < 2 ^ 64" using k(1) by simp
  then obtain buf tr where r: "length buf = 2048" "lt_record_all (hear h k) (loss_tracker_new 1000) = Inr tr"
    and recv: "harness_recv lib c t (Recv_Dgram f src) s =
      (let s = s\<lparr>hr_buf := buf, hr_expected := word_of_nat k + 1, hr_tracker := tr\<rparr> in
       if ?ty = PACKET_CONTROL \<and> ?pl = DONE then Inr (True, s)
       else if length ?pl < 6 then Inr (False, s)
       else let block = block_entry t (u32_from_be (take 4 ?pl)) (hr_blocks s); i = unat (u16_from_be (take 2 (drop 4 ?pl)))
            in Inr (False, s\<lparr>hr_blocks := dm_insert (u32_from_be (take 4 ?pl))
                 (if i < t then block[i := Some (drop 6 ?pl)] else block) (hr_blocks s)\<rparr>))"
    using harness_recv_frame [OF view lib f pl k(3)] by metis
  have idx: "unat (word_of_nat ?i :: u16) = ?i" using i(2) by (simp add: unat_of_nat)
  have entry: "block_entry t (word_of_nat ?b) (hr_blocks s) = held (Y ?b) (R ?b)"
    using view b by (simp add: harness_view_def)
  have upd: "(held (Y ?b) (R ?b))[?i := Some (Y ?b ! ?i)] = held (Y ?b) (insert ?i (R ?b))"
    using Y i(1) by (intro held_update) simp
  let ?s = "s\<lparr>hr_buf := buf, hr_expected := word_of_nat k + 1, hr_tracker := tr,
      hr_blocks := dm_insert (word_of_nat ?b) (held (Y ?b) (insert ?i (R ?b))) (hr_blocks s)\<rparr>"
  have "?ty \<noteq> PACKET_CONTROL" by (simp add: packet_types)
  then have "harness_recv lib c t (Recv_Dgram f src) s = Inr (False, ?s)"
    unfolding recv by (simp add: Let_def idx i(1) entry upd)
  moreover have "harness_view t Y (hear h k) (R(?b := insert ?i (R ?b))) ?s"
    using view r b k(3) by (auto simp: harness_view_def block_entry_insert block_word_inject simp add: add.commute)
  ultimately show thesis using frame by (intro that [of ?s]) simp_all
qed

lemma receive_frames:
  assumes lib: "aead_lawful lib" "length (cipher_key c) = 32" and t: "t \<le> 256"
    and Y: "\<forall>b. length (Y b) = t \<and> (\<forall>y \<in> set (Y b). length y + 33 \<le> 2048)"
  shows "harness_view t Y h R s \<Longrightarrow> \<forall>k \<in> set ks. k < 2 ^ 32 * t \<and> length h \<le> k \<Longrightarrow> sorted_wrt (<) ks \<Longrightarrow>
    \<exists>s'. (\<forall>es. receive_blocks lib c t (map (\<lambda>k. Recv_Dgram (harness_frame lib c d t Y k) src) ks @ es) s =
        receive_blocks lib c t es s') \<and>
      harness_view t Y (foldl hear h ks) (\<lambda>b. R b \<union> {k mod t |k. k \<in> set ks \<and> k div t = b}) s'"
proof (induction ks arbitrary: h R s)
  case Nil
  then show ?case by (intro exI [of _ s]) simp
next
  case (Cons k ks)
  have k: "k < 2 ^ 32 * t" "length h \<le> k" using Cons.prems(2) by simp_all
  obtain s1 where s1: "harness_recv lib c t (Recv_Dgram (harness_frame lib c d t Y k) src) s = Inr (False, s1)"
    "harness_view t Y (hear h k) (R(k div t := insert (k mod t) (R (k div t)))) s1"
    using harness_recv_shard [OF Cons.prems(1) lib k(1) t k(2) Y] by metis
  have R: "(\<lambda>b. (R(k div t := insert (k mod t) (R (k div t)))) b \<union> {k mod t |k. k \<in> set ks \<and> k div t = b}) =
      (\<lambda>b. R b \<union> {j mod t |j. j \<in> set (k # ks) \<and> j div t = b})"
    by (auto simp: fun_eq_iff)
  have "\<forall>j \<in> set ks. j < 2 ^ 32 * t \<and> length (hear h k) \<le> j" "sorted_wrt (<) ks" using Cons.prems(2,3) k(2) by auto
  from Cons.IH [OF s1(2) this] show ?case unfolding R by (simp add: s1(1))
qed

lemma receive_done:
  assumes view: "harness_view t Y h R s" and lib: "aead_lawful lib" "length (cipher_key c) = 32"
    and f: "build_frame lib c PACKET_CONTROL (word_of_nat k) DONE = Inr f" and k: "length h \<le> k" "k < 2 ^ 64"
  obtains s' where "receive_blocks lib c t (Recv_Dgram f src # es) s = Inr s'" and "harness_view t Y (hear h k) R s'"
proof -
  have pl: "length DONE + 27 \<le> 2048" by (simp add: DONE_def)
  show thesis
  proof (rule harness_recv_frame [OF view lib f pl k, of src])
    fix buf tr
    let ?s = "s\<lparr>hr_buf := buf, hr_expected := word_of_nat k + 1, hr_tracker := tr\<rparr>"
    assume r: "length buf = 2048" "lt_record_all (hear h k) (loss_tracker_new 1000) = Inr tr"
      and "harness_recv lib c t (Recv_Dgram f src) s =
        (let s = ?s in
         if PACKET_CONTROL = PACKET_CONTROL \<and> DONE = DONE then Inr (True, s)
         else if length DONE < 6 then Inr (False, s)
         else let block = block_entry t (u32_from_be (take 4 DONE)) (hr_blocks s);
                  i = unat (u16_from_be (take 2 (drop 4 DONE)))
              in Inr (False, s\<lparr>hr_blocks := dm_insert (u32_from_be (take 4 DONE))
                   (if i < t then block[i := Some (drop 6 DONE)] else block) (hr_blocks s)\<rparr>))"
    then have "receive_blocks lib c t (Recv_Dgram f src # es) s = Inr ?s" by simp
    moreover have "harness_view t Y (hear h k) R ?s"
      using view r k(1) by (simp add: harness_view_def add.commute)
    ultimately show thesis by (rule that)
  qed
qed

section \<open>The verdicts\<close>

lemma lost_plus_present: "length (filter (\<lambda>s. s = None) os) + present os = length os"
  by (induction os) (auto simp: present_def)

lemma verdicts_eq:
  assumes law: "rs_lawful rs d p" and Y: "\<forall>b. \<exists>m. coded d p rs m (Y b)" and R: "\<forall>b. R b \<subseteq> {..<d + p}"
  shows "b0 + n \<le> 2 ^ 32 \<Longrightarrow>
    \<forall>b. b0 \<le> b \<longrightarrow> b < 2 ^ 32 \<longrightarrow> block_entry (d + p) (word_of_nat b) blocks = held (Y b) (R b) \<Longrightarrow>
    verdicts rs (shards_cfg d p) (map word_of_nat [b0..<b0 + n]) blocks =
      Inr (map (\<lambda>b. \<lparr>br_success = (d \<le> card (R b)), br_shards_lost = d + p - card (R b)\<rparr>) [b0..<b0 + n])"
proof (induction n arbitrary: b0 blocks)
  case 0
  then show ?case by simp
next
  case (Suc n)
  let ?os = "held (Y b0) (R b0)" and ?enc = "\<lparr>enc_config = shards_cfg d p\<rparr>"
  have len: "length (Y b0) = d + p" using Y by (auto simp: coded_def)
  have pres: "present ?os = card (R b0)" using R len by (intro present_held) simp
  have lost: "length (filter (\<lambda>s. s = None) ?os) = d + p - card (R b0)"
    using lost_plus_present [of ?os] pres len by simp
  have entry: "block_entry (d + p) (word_of_nat b0) blocks = ?os" using Suc.prems by simp
  have ok: "(case fec_reconstruct rs ?enc ?os of Inl _ \<Rightarrow> False | Inr _ \<Rightarrow> True) = (d \<le> card (R b0))"
  proof (cases "d \<le> card (R b0)")
    case True
    then have "rs_reconstruct rs d p ?os = Some (map Some (Y b0))"
      using Y pres erasure_of_held [of "Y b0" "R b0"] by (metis coded_def)
    with True show ?thesis by (simp add: fec_reconstruct_def)
  next
    case False
    with fec_reconstruct_too_few [OF law, of ?enc ?os] pres len show ?thesis by simp
  qed
  have "rs_new rs d p" using law by (simp add: rs_lawful_def)
  moreover have "[b0..<b0 + Suc n] = b0 # [Suc b0..<Suc b0 + n]" by (simp add: upt_conv_Cons del: upt_Suc)
  moreover have "verdicts rs (shards_cfg d p) (map word_of_nat [Suc b0..<Suc b0 + n]) (dm_insert (word_of_nat b0) x blocks) =
      Inr (map (\<lambda>b. \<lparr>br_success = (d \<le> card (R b)), br_shards_lost = d + p - card (R b)\<rparr>) [Suc b0..<Suc b0 + n])" for x
    by (rule Suc.IH) (use Suc.prems in \<open>auto simp: block_entry_insert block_word_inject\<close>)
  ultimately show ?case
    by (simp add: Let_def total_shards_def entry lost ok fec_encoder_new_def del: upt_Suc)
qed

section \<open>The whole test\<close>

definition shards_dropped :: "('g \<Rightarrow> f64 \<times> 'g) \<Rightarrow> 'g \<Rightarrow> f64 \<Rightarrow> nat \<Rightarrow> nat \<Rightarrow> nat" where
  \<comment> \<open>how many of the \<open>t\<close> frames of the block the proxy drops\<close>
  "shards_dropped draw g loss t b = card {i. i < t \<and> dropped draw g loss (b * t + i)}"

lemma length_harness_frame:
  assumes "aead_lawful lib" "length (cipher_key c) = 32" "length (Y (k div t) ! (k mod t)) + 33 \<le> 2048"
  shows "length (harness_frame lib c d t Y k) \<le> 2048"
proof -
  let ?pl = "harness_payload (k div t) (k mod t) (Y (k div t) ! (k mod t))"
  have "length ?pl < 2 ^ 32" using assms(3) by simp
  then obtain ct where "length ct = length ?pl + 16"
    "build_frame lib c (if k mod t < d then PACKET_DATA else PACKET_PARITY) (word_of_nat k) ?pl =
      Inr (header_bytes (if k mod t < d then PACKET_DATA else PACKET_PARITY) (word_of_nat k) (word_of_nat (length ct)) @ ct)"
    using build_frame_ok [OF assms(1,2)] by blast
  then show ?thesis using assms(3) by (simp add: harness_frame_def)
qed

lemma kept_shards:
  assumes "0 < t" "b < n"
  shows "{k mod t |k. k \<in> set (filter (\<lambda>k. \<not> D k) [0..<n * t]) \<and> k div t = b} = {..<t} - {i. i < t \<and> D (b * t + i)}"
proof (intro equalityI subsetI)
  fix i
  assume "i \<in> {k mod t |k. k \<in> set (filter (\<lambda>k. \<not> D k) [0..<n * t]) \<and> k div t = b}"
  then obtain k where k: "\<not> D k" "k div t = b" "i = k mod t" by auto
  then have "b * t + i = k" using div_mult_mod_eq [of k t] by simp
  then show "i \<in> {..<t} - {i. i < t \<and> D (b * t + i)}" using k assms(1) by simp
next
  fix i
  assume i: "i \<in> {..<t} - {i. i < t \<and> D (b * t + i)}"
  then have "b * t + i < Suc b * t" by simp
  also have "\<dots> \<le> n * t" using assms(2) by (intro mult_le_mono1) simp
  finally have "b * t + i \<in> set (filter (\<lambda>k. \<not> D k) [0..<n * t])" using i by simp
  moreover have "(b * t + i) mod t = i" "(b * t + i) div t = b" using i by simp_all
  ultimately have "i = (b * t + i) mod t \<and> b * t + i \<in> set (filter (\<lambda>k. \<not> D k) [0..<n * t]) \<and> (b * t + i) div t = b"
    by metis
  then show "i \<in> {k mod t |k. k \<in> set (filter (\<lambda>k. \<not> D k) [0..<n * t]) \<and> k div t = b}" by blast
qed

definition kept_of :: "('g \<Rightarrow> f64 \<times> 'g) \<Rightarrow> 'g \<Rightarrow> f64 \<Rightarrow> nat \<Rightarrow> nat \<Rightarrow> nat \<Rightarrow> nat set" where
  \<comment> \<open>the shards of block \<open>b\<close> among the frames of \<open>n\<close> blocks of \<open>t\<close> shards that the proxy lets through\<close>
  "kept_of draw g loss n t b = {k mod t |k. k \<in> set (filter (\<lambda>k. \<not> dropped draw g loss k) [0..<n * t]) \<and> k div t = b}"

lemma kept_of_card:
  assumes "0 < t" "b < n"
  shows "kept_of draw g loss n t b \<subseteq> {..<t}" "shards_dropped draw g loss t b \<le> t"
    "card (kept_of draw g loss n t b) = t - shards_dropped draw g loss t b"
proof -
  show "kept_of draw g loss n t b \<subseteq> {..<t}" unfolding kept_of_def kept_shards [OF assms] by blast
  show "shards_dropped draw g loss t b \<le> t"
    unfolding shards_dropped_def by (rule order_trans [OF card_mono [of "{..<t}"]]) auto
  show "card (kept_of draw g loss n t b) = t - shards_dropped draw g loss t b"
    unfolding kept_of_def kept_shards [OF assms] shards_dropped_def by (subst card_Diff_subset) auto
qed

definition fates :: "('g \<Rightarrow> f64 \<times> 'g) \<Rightarrow> 'g \<Rightarrow> f64 \<Rightarrow> nat \<Rightarrow> bool list" where
  \<comment> \<open>which of the first \<open>n\<close> frames come through\<close>
  "fates draw g loss n = map (\<lambda>k. \<not> dropped draw g loss k) [0..<n]"

text \<open>What the receiver holds when its loop ends.\<close>

lemma harness_receives:
  assumes lib: "aead_lawful lib" "length key = 32" and sock: "\<forall>f. sock proxy f" and law: "rs_lawful rs d p"
    and data: "\<forall>x \<in> set datas. x \<noteq> [] \<and> (length x + d - 1) div d + 33 \<le> 2048"
    and n: "length datas < 2 ^ 32" and addr: "sender \<noteq> receiver"
  obtains Y es s where "\<forall>b. \<exists>m. coded d p rs m (Y b)"
    and "harness_arrivals lib rs sock draw g key (shards_cfg d p) loss sender proxy receiver datas = Inr es"
    and "receive_blocks lib (crypto_new key) (d + p) es receiver_new = Inr s"
    and "harness_view (d + p) Y (heard (fates draw g loss (Suc (length datas * (d + p)))))
      (kept_of draw g loss (length datas) (d + p)) s"
proof -
  let ?n = "length datas" and ?t = "d + p" and ?cfg = "shards_cfg d p" and ?c = "crypto_new key"
  define D where "D b = (if b < ?n then datas ! b else [0])" for b
  define Y where "Y b = block_shards rs ?cfg (D b)" for b
  have t: "0 < ?t" "?t \<le> 256" "0 < d" using law by (simp_all add: rs_lawful_def)
  have D: "D b \<noteq> [] \<and> (length (D b) + d - 1) div d + 33 \<le> 2048" for b
    using data t(3) by (simp add: D_def)
  have key: "length (cipher_key ?c) = 32" using lib(2) by (simp add: crypto_new_def)
  have Yc: "coded d p rs ((length (D b) + d - 1) div d) (Y b)" for b
    unfolding Y_def using block_shards_coded(1) [OF law] D by blast
  then have Y: "\<forall>b. length (Y b) = ?t \<and> (\<forall>y \<in> set (Y b). length y + 33 \<le> 2048)"
    using D by (simp add: coded_def)
  let ?F = "harness_frame lib ?c d ?t Y"
  have "length DONE < 2 ^ 32" by (simp add: DONE_def)
  then obtain ct where ct: "length ct = length DONE + 16"
    "build_frame lib ?c PACKET_CONTROL (word_of_nat (?n * ?t)) DONE =
      Inr (header_bytes PACKET_CONTROL (word_of_nat (?n * ?t)) (word_of_nat (length ct)) @ ct)"
    using build_frame_ok [OF lib(1) key] by blast
  define fin where "fin = header_bytes PACKET_CONTROL (word_of_nat (?n * ?t)) (word_of_nat (length ct)) @ ct"
  have fin: "build_frame lib ?c PACKET_CONTROL (word_of_nat (?n * ?t)) DONE = Inr fin" "length fin \<le> 2048"
    using ct by (simp_all add: fin_def DONE_def)
  define F where "F k = (if k < ?n * ?t then ?F k else fin)" for k
  have small: "D b \<noteq> [] \<and> (length (D b) + d - 1) div d < 2 ^ 20" for b using D [of b] by simp
  have Y_fun: "Y = (\<lambda>b. block_shards rs ?cfg (D b))" by (simp add: Y_def fun_eq_iff)
  have "map D [0..<?n] = datas" by (rule nth_equalityI) (simp_all add: D_def)
  then have "send_blocks lib rs sock proxy ?c ?cfg 0 datas 0 = Inr (map ?F [0..<?n * ?t], word_of_nat (?n * ?t))"
    using send_blocks_eq [where sock = sock and proxy = proxy and b = 0 and n = ?n and D = D, OF lib(1) key sock law small]
    by (simp add: Y_fun)
  then have sent: "harness_send lib rs sock proxy ?c ?cfg datas = Inr (map F [0..<Suc (?n * ?t)])"
    using fin(1) sock by (simp add: harness_send_def F_def)
  have "length (Y b ! i) + 33 \<le> 2048" if "i < ?t" for b i using Y that by (metis nth_mem)
  then have "length (?F k) \<le> 2048" for k using length_harness_frame [OF lib(1) key] t(1) by simp
  then have short: "\<forall>k < Suc (?n * ?t). length (F k) \<le> 2048" using fin(2) by (simp add: F_def)
  let ?ks = "filter (\<lambda>k. \<not> dropped draw g loss k) [0..<?n * ?t]"
  let ?es = "if dropped draw g loss (?n * ?t) then [] else [Recv_Dgram fin proxy]"
  have kept: "map (\<lambda>(_, f). Recv_Dgram f proxy)
      (fst (harness_proxy_run draw receiver loss (map (\<lambda>k. Recv_Dgram (F k) sender) [0..<Suc (?n * ?t)]) (lossy_proxy_new g))) =
    map (\<lambda>k. Recv_Dgram (?F k) proxy) ?ks @ ?es"
    unfolding proxy_keeps [OF addr short] by (simp add: lossy_proxy_new_def F_def)
  note kept = kept [folded F_def]
  have Nt: "?n * ?t < 2 ^ 32 * ?t" using n t(1) by (rule mult_strict_right_mono)
  then have "\<forall>k \<in> set ?ks. k < 2 ^ 32 * ?t \<and> length [] \<le> k" by auto
  note ks = this
  have view: "harness_view ?t Y [] (\<lambda>_. {}) receiver_new" by (rule harness_view_new) (use Y in blast)
  have sorted: "sorted_wrt (<) ?ks" by (intro sorted_wrt_filter) simp
  have K: "(\<lambda>b. {} \<union> {k mod ?t |k. k \<in> set ?ks \<and> k div ?t = b}) = kept_of draw g loss ?n ?t"
    by (rule ext) (simp only: kept_of_def Un_empty_left)
  from receive_frames [OF lib(1) key t(2) Y view ks sorted, where d = d and src = proxy, unfolded K hear_kept, folded fates_def]
  obtain s where
    s: "\<forall>es. receive_blocks lib ?c ?t (map (\<lambda>k. Recv_Dgram (?F k) proxy) ?ks @ es) receiver_new = receive_blocks lib ?c ?t es s"
      "harness_view ?t Y (heard (fates draw g loss (?n * ?t))) (kept_of draw g loss ?n ?t) s"
    by (elim exE conjE) (rule that)
  obtain s' where s': "receive_blocks lib ?c ?t ?es s = Inr s'"
    "harness_view ?t Y (heard (fates draw g loss (Suc (?n * ?t)))) (kept_of draw g loss ?n ?t) s'"
  proof (cases "dropped draw g loss (?n * ?t)")
    case True
    with s(2) show thesis by (intro that [of s]) (simp_all add: fates_def)
  next
    case False
    let ?h = "heard (fates draw g loss (?n * ?t))"
    have pad: "?h @ replicate (?n * ?t - length ?h) False = fates draw g loss (?n * ?t)" "length ?h \<le> ?n * ?t"
      using heard_pad [of "fates draw g loss (?n * ?t)"] by (simp_all add: fates_def)
    have "2 ^ 32 * ?t \<le> 2 ^ 32 * 256" using t(2) by (rule mult_le_mono2)
    then have "?n * ?t < 2 ^ 64" using Nt by simp
    from receive_done [OF s(2) lib(1) key fin(1) pad(2) this, of proxy "[]"] obtain x where
      x: "receive_blocks lib ?c ?t [Recv_Dgram fin proxy] s = Inr x"
        "harness_view ?t Y (hear ?h (?n * ?t)) (kept_of draw g loss ?n ?t) x" .
    moreover have "hear ?h (?n * ?t) = heard (fates draw g loss (Suc (?n * ?t)))"
      using False pad(1) by (simp add: hear_def fates_def flip: append_assoc)
    ultimately show thesis by (intro that [of x]) (simp_all only: False if_False)
  qed
  show thesis
  proof (rule that [OF _ _ _ s'(2)])
    show "\<forall>b. \<exists>m. coded d p rs m (Y b)" using Yc by blast
    show "harness_arrivals lib rs sock draw g key ?cfg loss sender proxy receiver datas =
        Inr (map (\<lambda>k. Recv_Dgram (?F k) proxy) ?ks @ ?es)"
      unfolding harness_arrivals_def sent kept [symmetric] by (simp add: comp_def split_beta del: upt_Suc)
    show "receive_blocks lib ?c ?t (map (\<lambda>k. Recv_Dgram (?F k) proxy) ?ks @ ?es) receiver_new = Inr s'"
      using s(1) s'(1) by simp
  qed
qed

lemma harness_exchange_eq:
  assumes "aead_lawful lib" "length key = 32" "\<forall>f. sock proxy f" and law: "rs_lawful rs d p"
    and "\<forall>x \<in> set datas. x \<noteq> [] \<and> (length x + d - 1) div d + 33 \<le> 2048"
    and n: "length datas < 2 ^ 32" and "sender \<noteq> receiver"
  shows "harness_exchange lib rs sock draw g key (shards_cfg d p) loss sender proxy receiver datas =
      Inr (map (\<lambda>b. \<lparr>br_success = (shards_dropped draw g loss (d + p) b \<le> p),
                      br_shards_lost = shards_dropped draw g loss (d + p) b\<rparr>) [0..<length datas])"
    and "\<exists>s. rbind (harness_arrivals lib rs sock draw g key (shards_cfg d p) loss sender proxy receiver datas)
        (receiver_prints lib rs key (shards_cfg d p) (length datas)) = Inr (receiver_line_of s) \<and>
      lt_record_all (heard (fates draw g loss (Suc (length datas * (d + p))))) (loss_tracker_new 1000) = Inr (hr_tracker s)"
proof -
  let ?n = "length datas" and ?t = "d + p" and ?cfg = "shards_cfg d p"
  let ?D = "shards_dropped draw g loss ?t" and ?K = "kept_of draw g loss ?n ?t"
  obtain Y es s where Y: "\<forall>b. \<exists>m. coded d p rs m (Y b)"
    and es: "harness_arrivals lib rs sock draw g key ?cfg loss sender proxy receiver datas = Inr es"
    and s: "receive_blocks lib (crypto_new key) ?t es receiver_new = Inr s"
      "harness_view ?t Y (heard (fates draw g loss (Suc (?n * ?t)))) ?K s"
    by (rule harness_receives [where sock = sock and proxy = proxy and draw = draw and g = g and loss = loss, OF assms])
  have t: "0 < ?t" using law by (simp add: rs_lawful_def)
  have "?K b \<subseteq> {..<?t}" for b unfolding kept_of_def using t by auto
  then have "verdicts rs ?cfg (map word_of_nat [0..<0 + ?n]) (hr_blocks s) =
      Inr (map (\<lambda>b. \<lparr>br_success = (d \<le> card (?K b)), br_shards_lost = ?t - card (?K b)\<rparr>) [0..<0 + ?n])"
    using n s(2) by (intro verdicts_eq [OF law Y]) (simp_all add: harness_view_def)
  also have "\<dots> = Inr (map (\<lambda>b. \<lparr>br_success = (?D b \<le> p), br_shards_lost = ?D b\<rparr>) [0..<0 + ?n])"
  proof -
    have "(d \<le> card (?K b)) = (?D b \<le> p)" "?t - card (?K b) = ?D b" if "b < ?n" for b
      using kept_of_card(2,3) [OF t that, of draw g loss] by linarith+
    then show ?thesis by (auto intro!: map_cong)
  qed
  finally have v: "verdicts rs ?cfg (map word_of_nat [0..<unat (word_of_nat ?n :: u32)]) (hr_blocks s) =
      Inr (map (\<lambda>b. \<lparr>br_success = (?D b \<le> p), br_shards_lost = ?D b\<rparr>) [0..<?n])"
    using n by (simp add: unat_of_nat)
  show "harness_exchange lib rs sock draw g key ?cfg loss sender proxy receiver datas =
      Inr (map (\<lambda>b. \<lparr>br_success = (?D b \<le> p), br_shards_lost = ?D b\<rparr>) [0..<?n])"
    using es s(1) v by (simp add: harness_exchange_def run_receiver_def total_shards_def)
  show "\<exists>s. rbind (harness_arrivals lib rs sock draw g key ?cfg loss sender proxy receiver datas)
        (receiver_prints lib rs key ?cfg ?n) = Inr (receiver_line_of s) \<and>
      lt_record_all (heard (fates draw g loss (Suc (?n * ?t)))) (loss_tracker_new 1000) = Inr (hr_tracker s)"
    using es s v by (intro exI [of _ s]) (simp add: receiver_prints_def total_shards_def harness_view_def)
qed

lemma tally_fold:
  "fold (\<lambda>r (ok, bad, lost).
     (if br_success r then (ok + 1, bad, lost + word_of_nat (br_shards_lost r))
      else (ok, bad + 1, lost + word_of_nat (br_shards_lost r)))) results (ok, bad, lost) =
   (ok + word_of_nat (length (filter br_success results)),
    bad + word_of_nat (length (filter (\<lambda>r. \<not> br_success r) results)),
    lost + word_of_nat (sum_list (map br_shards_lost results)) :: u64)" for ok bad lost :: u64
  by (induction results arbitrary: ok bad lost) (simp_all add: algebra_simps)

lemma tally_zero_loss:
  assumes "length results < 2 ^ 64"
  shows "rep_zero_loss (tally results) \<longleftrightarrow> (\<forall>r \<in> set results. br_success r)"
proof -
  let ?bad = "length (filter (\<lambda>r. \<not> br_success r) results)"
  have "?bad < 2 ^ 64" using assms length_filter_le [of _ results] by (rule le_less_trans [rotated])
  then have "(word_of_nat ?bad :: u64) = 0 \<longleftrightarrow> ?bad = 0"
    by (simp add: word_unat_eq_iff unat_of_nat)
  then show ?thesis by (simp add: tally_def tally_fold filter_empty_conv)
qed

text \<open>C16. The verdict of the end-to-end test is true for blocks whose frames fit its buffers: fewer than \<open>2 ^ 32\<close> blocks, none of
  them empty, a shard with its 33 bytes of headers and tag at most 2048 bytes (a larger \<open>--block-size\<close> has every frame cut and
  every shard counted as lost), a working loopback and a valid code. For every pattern of losses the draws produce, and whether
  or not the termination signal arrives, the receiver then reports for each block
  exactly the number of its shards that the proxy dropped, the block counts as recovered exactly when that is at most the
  number of parity shards, and the zero-loss message is printed exactly when this holds of every
  block.\<close>

theorem test_harness_verdict_exact:
  assumes "aead_lawful lib" "length key = 32" "\<forall>f. sock proxy f" "rs_lawful rs d p"
    and "\<forall>x \<in> set datas. x \<noteq> [] \<and> (length x + d - 1) div d + 33 \<le> 2048"
    and "length datas < 2 ^ 32" "sender \<noteq> receiver"
  shows "\<exists>results. harness_exchange lib rs sock draw g key (shards_cfg d p) loss sender proxy receiver datas = Inr results \<and>
    length results = length datas \<and>
    (\<forall>b < length datas. br_shards_lost (results ! b) = shards_dropped draw g loss (d + p) b \<and>
       br_success (results ! b) = (shards_dropped draw g loss (d + p) b \<le> p)) \<and>
    rep_shards_lost (tally results) = word_of_nat (\<Sum>b < length datas. shards_dropped draw g loss (d + p) b) \<and>
    rep_zero_loss (tally results) = (\<forall>b < length datas. shards_dropped draw g loss (d + p) b \<le> p)"
proof -
  let ?rs = "map (\<lambda>b. \<lparr>br_success = (shards_dropped draw g loss (d + p) b \<le> p),
      br_shards_lost = shards_dropped draw g loss (d + p) b\<rparr>) [0..<length datas]"
  have "rep_shards_lost (tally ?rs) = word_of_nat (sum_list (map (shards_dropped draw g loss (d + p)) [0..<length datas]))"
    by (simp add: tally_def tally_fold comp_def)
  then have "rep_shards_lost (tally ?rs) = word_of_nat (\<Sum>b < length datas. shards_dropped draw g loss (d + p) b)"
    by (simp only: interv_sum_list_conv_sum_set_nat set_upt atLeast0LessThan)
  moreover have "rep_zero_loss (tally ?rs) = (\<forall>b < length datas. shards_dropped draw g loss (d + p) b \<le> p)"
    using tally_zero_loss [of ?rs] assms(6) by auto
  ultimately show ?thesis
    using harness_exchange_eq(1) [where sock = sock and proxy = proxy and draw = draw and g = g and loss = loss, OF assms] by (intro exI [of _ ?rs]) simp
qed

lemma demo_dropped: "dropped demo_draw g (f64_lit (1 / 2)) k \<longleftrightarrow> even (g + k)"
proof -
  have "((\<lambda>g. snd (demo_draw g)) ^^ k) g = g + k" by (induction k) (simp_all add: demo_draw_def)
  moreover have "f64_lt (f64_lit 0) (f64_lit (1 / 2))" "\<not> f64_lt (f64_lit (3 / 4)) (f64_lit (1 / 2))"
    by (code_simp, code_simp)
  ultimately show ?thesis by (simp add: dropped_def nth_draw_def demo_draw_def)
qed

theorem test_harness_verdict_exact_witness:
  "\<exists>results. harness_exchange demo_aead xor_rs (\<lambda>_ _. True) demo_draw 0 (replicate 32 5) (shards_cfg 2 1) (f64_lit (1 / 2))
      (1, 7001) (1, 7002) (1, 7003) [[1, 2, 3], [4, 5]] = Inr results \<and>
    \<not> br_success (results ! 0) \<and> br_shards_lost (results ! 0) = 2 \<and>
    br_success (results ! 1) \<and> br_shards_lost (results ! 1) = 1 \<and> \<not> rep_zero_loss (tally results)"
proof -
  let ?D = "[[1, 2, 3], [4, 5]] :: bytes list" and ?lost = "shards_dropped demo_draw 0 (f64_lit (1 / 2)) (2 + 1)"
  have three: "i < 3 \<longleftrightarrow> i = 0 \<or> i = 1 \<or> i = (2 :: nat)" for i by linarith
  have "{i. i < 2 + 1 \<and> dropped demo_draw 0 (f64_lit (1 / 2)) (0 * (2 + 1) + i)} = {0, 2}"
    "{i. i < 2 + 1 \<and> dropped demo_draw 0 (f64_lit (1 / 2)) (1 * (2 + 1) + i)} = {1}"
    by (rule set_eqI; simp add: demo_dropped three; auto)+
  then have lost: "?lost 0 = card {0 :: nat, 2}" "?lost 1 = card {1 :: nat}"
    by (simp_all only: shards_dropped_def)
  then have lost: "?lost 0 = 2" "?lost 1 = 1" by simp_all
  obtain results where
    "harness_exchange demo_aead xor_rs (\<lambda>_ _. True) demo_draw 0 (replicate 32 5) (shards_cfg 2 1) (f64_lit (1 / 2))
      (1, 7001) (1, 7002) (1, 7003) ?D = Inr results"
    and b: "\<forall>b < length ?D. br_shards_lost (results ! b) = ?lost b \<and> br_success (results ! b) = (?lost b \<le> 1)"
    and z: "rep_zero_loss (tally results) = (\<forall>b < length ?D. ?lost b \<le> 1)"
    using test_harness_verdict_exact [OF demo_aead_lawful _ _ rs_lawful_xor, of "replicate 32 5" "\<lambda>_ _. True" "(1, 7002)"
        ?D "(1, 7001)" "(1, 7003)" demo_draw 0 "f64_lit (1 / 2)"]
    by (auto simp del: One_nat_def)
  moreover have "\<not> (\<forall>b < length ?D. ?lost b \<le> 1)" 
    by (intro notI) (drule spec [of _ 0], use lost(1) in simp)
  ultimately show ?thesis using b [rule_format, of 0] b [rule_format, of 1] lost by simp
qed

end
