(* ===== verification/Harness_Report.thy ===== *)
theory Harness_Report
  imports Harness_Correct
begin

text \<open>
  The statistics the test program prints, against what happened on the way: the totals of the main
  task, and the loss rate and the recommendation the receiver measures with its own window.
\<close>

section \<open>Counting drops\<close>

lemma losses_fates: "losses (map (\<lambda>k. \<not> D k) [m..<m + t]) = card {i. i < t \<and> D (m + i)}"
proof (induction t)
  case (Suc t)
  have "{i. i < Suc t \<and> D (m + i)} = {i. i < t \<and> D (m + i)} \<union> (if D (m + t) then {t} else {})"
    by (auto simp: less_Suc_eq)
  with Suc show ?case by simp
qed simp

lemma sum_shards_dropped: "(\<Sum>b < n. shards_dropped draw g loss t b) = losses (fates draw g loss (n * t))"
proof (induction n)
  case 0
  then show ?case by (simp add: fates_def)
next
  case (Suc n)
  have "[0..<Suc n * t] = [0..<n * t] @ [n * t..<n * t + t]"
    by (metis add.commute add_0 mult_Suc upt_add_eq_append zero_le)
  then have "fates draw g loss (Suc n * t) = fates draw g loss (n * t) @ map (\<lambda>k. \<not> dropped draw g loss k) [n * t..<n * t + t]"
    by (simp add: fates_def)
  with Suc show ?case by (simp add: losses_fates shards_dropped_def)
qed

lemma tally_counts:
  assumes "length results < 2 ^ 64"
  shows "unat (rep_recovered (tally results)) + unat (rep_failed (tally results)) = length results"
proof -
  let ?good = "length (filter br_success results)" and ?bad = "length (filter (\<lambda>r. \<not> br_success r) results)"
  have "?good + ?bad = length results" by (rule sum_length_filter_compl)
  with assms have "unat (word_of_nat ?good :: u64) + unat (word_of_nat ?bad :: u64) = length results"
    by (simp add: unat_of_nat)
  then show ?thesis by (simp add: tally_def tally_fold)
qed

lemma unat_product: "m * n < 2 ^ 64 \<Longrightarrow> unat (word_of_nat m * word_of_nat n :: u64) = m * n"
  by (simp add: unat_of_nat flip: of_nat_mult)

lemma block_bytes_fit:
  assumes "d + p \<le> 256" "0 < d" "\<forall>x \<in> set datas. x \<noteq> [] \<and> (length x + d - 1) div d + 33 \<le> 2048"
    and "\<forall>x \<in> set datas. length x = m" "length datas < 2 ^ 32"
  shows "length datas * m < 2 ^ 64"
proof (cases "datas = []")
  case False
  then obtain x where "x \<in> set datas" by (cases datas) auto
  then have "(m + d - 1) div d < 2048" using assms(3,4) by force
  then have "m + d - 1 < 2048 * d" using assms(2) by (simp add: div_less_iff_less_mult)
  also have "\<dots> \<le> 2048 * 256" using assms(1) by (intro mult_le_mono2) simp
  finally have "m \<le> 2 ^ 20" using assms(2) by simp
  then have "length datas * m \<le> 2 ^ 32 * 2 ^ 20" using assms(5) by (intro mult_le_mono) simp_all
  then show ?thesis by simp
qed simp

section \<open>The report\<close>

definition recent :: "nat \<Rightarrow> bool list \<Rightarrow> bool list" where
  \<comment> \<open>the last \<open>n\<close> entries of a history before which everything arrived\<close>
  "recent n h = drop (length h) (replicate n True @ h)"

lemma recent_losses: "length (recent n h) = n" "losses (recent n h) \<le> n"
  using losses_le_length [of "recent n h"] by (simp_all add: recent_def)

text \<open>C17. The statistics of the end-to-end test are true, up to the window of the receiver, under the conditions of the verdict
  (fewer than \<open>2 ^ 32\<close> non-empty blocks of one size, shards that fit 2048 bytes with 33 bytes of headers and tag, no
  failed send, a valid code): for every pattern of losses the shards and bytes sent are those of the blocks, without
  wrap-around, the shards lost and the actual loss rate are what the proxy dropped, each block is counted once as recovered or
  failed, and the rate the receiver measures, with the parity it recommends, are those of the last
  thousand frames up to the last one that arrived, where the frames before the first count as
  received however short the test is.\<close>

theorem harness_report_exact:
  assumes "aead_lawful lib" "length key = 32" "\<forall>f. sock proxy f" "rs_lawful rs d p"
    and "\<forall>x \<in> set datas. x \<noteq> [] \<and> (length x + d - 1) div d + 33 \<le> 2048" "\<forall>x \<in> set datas. length x = m"
    and "length datas < 2 ^ 32" "sender \<noteq> receiver"
  shows "\<exists>results line.
    harness_exchange lib rs sock draw g key (shards_cfg d p) loss sender proxy receiver datas = Inr results \<and>
    rbind (harness_arrivals lib rs sock draw g key (shards_cfg d p) loss sender proxy receiver datas)
      (receiver_prints lib rs key (shards_cfg d p) (length datas)) = Inr line \<and>
    (let n = length datas * (d + p);
         report = tally results;
         totals = harness_totals_of (length datas) m (shards_cfg d p) (rep_shards_lost report) send_secs total_secs;
         window = recent 1000 (heard (fates draw g loss (Suc n)))
     in unat (ht_shards_sent totals) = n \<and> unat (ht_data totals) = sum_list (map length datas) \<and>
        unat (rep_shards_lost report) = losses (fates draw g loss n) \<and>
        ht_loss_percent totals = f64_mul (f64_div (f64_of_nat (losses (fates draw g loss n))) (f64_of_nat n)) (f64_lit 100) \<and>
        unat (rep_recovered report) + unat (rep_failed report) = length datas \<and>
        rl_percent line = f64_mul (f64_div (f64_of_nat (losses window)) (f64_of_nat 1000)) (f64_lit 100) \<and>
        rl_recommended line = exact_tier (losses window) 1000)"
proof -
  let ?n = "length datas * (d + p)" and ?w = "recent 1000 (heard (fates draw g loss (Suc (length datas * (d + p)))))"
  let ?results = "map (\<lambda>b. \<lparr>br_success = (shards_dropped draw g loss (d + p) b \<le> p),
      br_shards_lost = shards_dropped draw g loss (d + p) b\<rparr>) [0..<length datas]"
  note ex = harness_exchange_eq [where sock = sock and proxy = proxy and draw = draw and g = g and loss = loss, OF assms(1-5,7,8)]
  obtain s where line: "rbind (harness_arrivals lib rs sock draw g key (shards_cfg d p) loss sender proxy receiver datas)
      (receiver_prints lib rs key (shards_cfg d p) (length datas)) = Inr (receiver_line_of s)"
    and tr: "lt_record_all (heard (fates draw g loss (Suc ?n))) (loss_tracker_new 1000) = Inr (hr_tracker s)"
    using ex(2) by blast
  have v: "lt_view ?w (hr_tracker s)"
    using lt_record_all_view [OF lt_view_new [of 1000], of "heard (fates draw g loss (Suc ?n))"] tr by (auto simp: recent_def)
  have t: "d + p \<le> 256" "0 < d" using assms(4) by (simp_all add: rs_lawful_def)
  have "length datas * (d + p) \<le> 2 ^ 32 * 256" using assms(7) t(1) by (intro mult_le_mono) simp_all
  then have N: "?n < 2 ^ 64" by simp
  have "losses (fates draw g loss ?n) \<le> ?n" using losses_le_length [of "fates draw g loss ?n"] by (simp add: fates_def)
  then have lost: "unat (rep_shards_lost (tally ?results)) = losses (fates draw g loss ?n)"
    using N by (simp add: tally_def tally_fold comp_def interv_sum_list_conv_sum_set_nat atLeast0LessThan sum_shards_dropped unat_of_nat)
  have m: "length datas * m < 2 ^ 64" using block_bytes_fit [OF t assms(5-7)] .
  have data: "sum_list (map length datas) = length datas * m"
    using assms(6) by (induction datas) simp_all
  have "recommended_config (hr_tracker s) = exact_tier (losses ?w) 1000"
    using lt_loss_rate_view [OF v] for_loss_rate_exact [of 1000 "losses ?w"] recent_losses by (simp add: recommended_config_def)
  moreover have "loss_rate (hr_tracker s) = f64_div (f64_of_nat (losses ?w)) (f64_of_nat 1000)"
    using lt_loss_rate_view [OF v] by (simp add: recent_losses)
  moreover have "unat (rep_recovered (tally ?results)) + unat (rep_failed (tally ?results)) = length datas"
    using tally_counts [of ?results] assms(7) by simp
  ultimately show ?thesis
    using ex(1) line lost data unat_product [OF N] unat_product [OF m]
    by (intro exI [of _ ?results] exI [of _ "receiver_line_of s"])
      (simp only: Let_def harness_totals_of_def harness_totals.select_convs receiver_line_of_def receiver_line.select_convs
        total_shards_def fec_config.select_convs simp_thms)
qed

theorem harness_report_exact_witness:
  "\<exists>results line.
    harness_exchange demo_aead xor_rs (\<lambda>_ _. True) demo_draw 0 (replicate 32 5) (shards_cfg 2 1) (f64_lit (1 / 2))
      (1, 7001) (1, 7002) (1, 7003) [[1, 2, 3], [4, 5, 6]] = Inr results \<and>
    rbind (harness_arrivals demo_aead xor_rs (\<lambda>_ _. True) demo_draw 0 (replicate 32 5) (shards_cfg 2 1) (f64_lit (1 / 2))
      (1, 7001) (1, 7002) (1, 7003) [[1, 2, 3], [4, 5, 6]])
      (receiver_prints demo_aead xor_rs (replicate 32 5) (shards_cfg 2 1) 2) = Inr line \<and>
    unat (rep_shards_lost (tally results)) = 3 \<and> rl_recommended line = shards_cfg 20 1"
proof -
  have six: "[0..<6] = [0, 1, 2, 3, 4, 5 :: nat]" "[0..<Suc 6] = [0, 1, 2, 3, 4, 5, 6 :: nat]" by (simp_all add: upt_rec)
  have f: "fates demo_draw 0 (f64_lit (1 / 2)) 6 = [False, True, False, True, False, True]"
    "heard (fates demo_draw 0 (f64_lit (1 / 2)) (Suc 6)) = [False, True, False, True, False, True]"
    by (simp_all only: fates_def six) (simp_all add: demo_dropped heard_def)
  have w: "losses (recent 1000 [False, True, False, True, False, True]) = 3"
    by (simp add: recent_def losses_def)
  have n: "length [[1, 2, 3], [4, 5, 6 :: byte]] = 2" "(2 :: nat) * (2 + 1) = 6" by simp_all
  have hyps: "length (replicate 32 (5 :: byte)) = 32" "\<forall>f. (\<lambda>_ _. True) (1, 7002) f"
    "\<forall>x \<in> set [[1, 2, 3], [4, 5, 6 :: byte]]. x \<noteq> [] \<and> (length x + 2 - 1) div 2 + 33 \<le> 2048"
    "\<forall>x \<in> set [[1, 2, 3], [4, 5, 6 :: byte]]. length x = 3" "length [[1, 2, 3], [4, 5, 6 :: byte]] < 2 ^ 32"
    "(1, 7001) \<noteq> (1 :: nat, 7003 :: nat)" by simp_all
  from harness_report_exact [where send_secs = "f64_lit 1" and total_secs = "f64_lit 2" and proxy = "(1, 7002)" and draw = demo_draw and g = 0 and loss = "f64_lit (1 / 2)",
      OF demo_aead_lawful hyps(1,2) rs_lawful_xor hyps(3-6), unfolded Let_def n f w]
  obtain results line where r: "harness_exchange demo_aead xor_rs (\<lambda>_ _. True) demo_draw 0 (replicate 32 5) (shards_cfg 2 1)
      (f64_lit (1 / 2)) (1, 7001) (1, 7002) (1, 7003) [[1, 2, 3], [4, 5, 6]] = Inr results"
    "rbind (harness_arrivals demo_aead xor_rs (\<lambda>_ _. True) demo_draw 0 (replicate 32 5) (shards_cfg 2 1) (f64_lit (1 / 2))
      (1, 7001) (1, 7002) (1, 7003) [[1, 2, 3], [4, 5, 6]])
      (receiver_prints demo_aead xor_rs (replicate 32 5) (shards_cfg 2 1) 2) = Inr line"
    "unat (rep_shards_lost (tally results)) = losses [False, True, False, True, False, True]"
    "rl_recommended line = exact_tier 3 1000"
    by (elim exE conjE) (rule that)
  have "losses [False, True, False, True, False, True] = 3" "exact_tier 3 1000 = shards_cfg 20 1"
    by (simp_all add: losses_def exact_tier_def)
  with r(3,4) have "unat (rep_shards_lost (tally results)) = 3" "rl_recommended line = shards_cfg 20 1"
    by (simp_all only:)
  with r(1,2) show ?thesis by (intro exI conjI)
qed

end
