(* ===== verification/Benches.thy ===== *)
theory Benches
  imports Tunnel_Correct Fec_Block
begin

text \<open>
  The benchmarks, \<open>benches/relay_bench.rs\<close>: what each sets up and the closure it hands to
  \<open>Bencher::iter\<close>, which calls it some number of times, passing the state it captured mutably from one call to
  the next.  The results that go through \<open>black_box\<close> are the results of the definitions.  The measuring
  itself is the library's.
\<close>

section \<open>The benchmarks\<close>

fun bench_iter :: "nat \<Rightarrow> ('s \<Rightarrow> ('a \<times> 's) outcome) \<Rightarrow> 's \<Rightarrow> ('a list \<times> 's) outcome" where
  "bench_iter 0 f s = Inr ([], s)"
| "bench_iter (Suc n) f s = rbind (f s) (\<lambda>(x, s). rbind (bench_iter n f s) (\<lambda>(xs, s). Inr (x # xs, s)))"

definition captures_nothing :: "'a outcome \<Rightarrow> unit \<Rightarrow> ('a \<times> unit) outcome" where
  "captures_nothing r = (\<lambda>s. rbind r (\<lambda>x. Inr (x, s)))"

definition bench_encrypt_1400 :: "aead_lib \<Rightarrow> (bytes \<Rightarrow> bytes option) \<Rightarrow> nat \<Rightarrow> (bytes list \<times> unit) outcome" where
  "bench_encrypt_1400 lib fill n =
     rbind (generate_key fill) (\<lambda>key.
     let crypto = crypto_new key; payload = replicate 1400 0xAB
     in bench_iter n (captures_nothing (encrypt lib crypto 42 payload)) ())"

definition bench_decrypt_1400 ::
    "aead_lib \<Rightarrow> (bytes \<Rightarrow> bytes option) \<Rightarrow> nat \<Rightarrow> ((crypto_error + bytes) list \<times> unit) outcome" where
  "bench_decrypt_1400 lib fill n =
     rbind (generate_key fill) (\<lambda>key.
     let crypto = crypto_new key; payload = replicate 1400 0xAB
     in rbind (encrypt lib crypto 42 payload) (\<lambda>ciphertext.
        bench_iter n (captures_nothing (decrypt lib crypto 42 ciphertext)) ()))"

definition bench_config :: fec_config where
  "bench_config = shards_cfg 6 4"

definition bench_shards :: "bytes list" where
  "bench_shards = map (\<lambda>i. replicate 700 (word_of_nat i)) [0..<6]"

definition bench_fec_encode :: "rs_lib \<Rightarrow> nat \<Rightarrow> (bytes list list \<times> unit) outcome" where
  "bench_fec_encode rs n =
     rbind (fec_encoder_new rs bench_config) (\<lambda>encoder.
     bench_iter n (captures_nothing (fec_encode rs encoder bench_shards)) ())"

definition bench_fec_reconstruct :: "rs_lib \<Rightarrow> nat \<Rightarrow> ((fec_error + bytes option list) list \<times> unit) outcome" where
  "bench_fec_reconstruct rs n =
     rbind (fec_encoder_new rs bench_config) (\<lambda>encoder.
     rbind (fec_encode rs encoder bench_shards) (\<lambda>shards.
     bench_iter n (captures_nothing
       (let opt = map Some shards in
        if length opt \<le> 3 then Inl Index_Panic
        else Inr (fec_reconstruct rs encoder (opt[0 := None, 3 := None])))) ()))"

definition bench_wire_framing :: "nat \<Rightarrow> nat \<Rightarrow> (bytes list \<times> (byte \<times> u64 \<times> u16) list) outcome" where
  \<comment> \<open>both closures work on the one buffer\<close>
  "bench_wire_framing n m =
     rbind (bench_iter n (\<lambda>buf. rbind (encode_header buf PACKET_DATA 1234 1400) (\<lambda>buf. Inr (buf, buf))) (replicate MAX_PACKET 0))
       (\<lambda>(bufs, buf).
     rbind (encode_header buf PACKET_DATA 1234 1400) (\<lambda>buf.
     rbind (bench_iter m (captures_nothing (decode_header buf)) ()) (\<lambda>(headers, _). Inr (bufs, headers))))"

fun bench_frames :: "aead_lib \<Rightarrow> tunnel_crypto \<Rightarrow> nat \<Rightarrow> bytes list \<Rightarrow> bytes list outcome" where
  "bench_frames lib crypto i [] = Inr []"
| "bench_frames lib crypto i (shard # shards) =
     rbind (build_frame lib crypto PACKET_DATA (word_of_nat i) shard) (\<lambda>frame.
     rbind (bench_frames lib crypto (Suc i) shards) (\<lambda>frames. Inr (frame # frames)))"

definition bench_full_pipeline :: "aead_lib \<Rightarrow> rs_lib \<Rightarrow> (bytes \<Rightarrow> bytes option) \<Rightarrow> nat \<Rightarrow> (bytes list list \<times> unit) outcome" where
  "bench_full_pipeline lib rs fill n =
     rbind (generate_key fill) (\<lambda>key.
     let crypto = crypto_new key; config = bench_config; data = replicate 4200 0xCD
     in rbind (fec_encoder_new rs config) (\<lambda>encoder.
        bench_iter n (captures_nothing
          (rbind (split_shards data (data_shards config)) (\<lambda>shards.
           rbind (fec_encode rs encoder shards) (bench_frames lib crypto 0)))) ()))"

section \<open>Lemmas\<close>

lemma bench_iter_fixed: "f s = Inr (x, s) \<Longrightarrow> bench_iter n f s = Inr (replicate n x, s)"
  by (induction n) simp_all

lemma bench_iter_captures_nothing: "bench_iter n (captures_nothing (Inr x)) () = Inr (replicate n x, ())"
  by (rule bench_iter_fixed) (simp add: captures_nothing_def)

lemma bench_frames_ok:
  assumes lib: "aead_lawful lib" "length (cipher_key c) = 32"
  shows "\<forall>s \<in> set shards. length s < 2 ^ 32 \<Longrightarrow> \<exists>frames. bench_frames lib c i shards = Inr frames \<and>
    length frames = length shards \<and>
    (\<forall>k < length shards. \<exists>ct. frames ! k = header_bytes PACKET_DATA (word_of_nat (i + k)) (word_of_nat (length ct)) @ ct \<and>
       decrypt lib c (word_of_nat (i + k)) ct = Inr (Inr (shards ! k)))"
proof (induction shards arbitrary: i)
  case (Cons s shards)
  then obtain frames where IH: "bench_frames lib c (Suc i) shards = Inr frames" "length frames = length shards"
    "\<forall>k < length shards. \<exists>ct. frames ! k = header_bytes PACKET_DATA (word_of_nat (Suc i + k)) (word_of_nat (length ct)) @ ct \<and>
       decrypt lib c (word_of_nat (Suc i + k)) ct = Inr (Inr (shards ! k))"
    by (metis list.set_intros(2))
  have "length s < 2 ^ 32" using Cons.prems by simp
  then obtain ct where ct: "decrypt lib c (word_of_nat i) ct = Inr (Inr s)"
    "build_frame lib c PACKET_DATA (word_of_nat i) s = Inr (header_bytes PACKET_DATA (word_of_nat i) (word_of_nat (length ct)) @ ct)"
    using build_frame_ok [OF lib] by metis
  show ?case
  proof (intro exI [of _ "(header_bytes PACKET_DATA (word_of_nat i) (word_of_nat (length ct)) @ ct) # frames"] conjI allI impI)
    fix k
    assume "k < length (s # shards)"
    then show "\<exists>ct'. ((header_bytes PACKET_DATA (word_of_nat i) (word_of_nat (length ct)) @ ct) # frames) ! k =
        header_bytes PACKET_DATA (word_of_nat (i + k)) (word_of_nat (length ct')) @ ct' \<and>
        decrypt lib c (word_of_nat (i + k)) ct' = Inr (Inr ((s # shards) ! k))"
      using ct(1) IH(3) by (cases k) (auto simp del: of_nat_Suc of_nat_add)
  qed (use ct(2) IH(1,2) in simp_all)
qed simp

lemma generate_key_ok: "fill (replicate KEY_SIZE 0) = Some key \<Longrightarrow> generate_key fill = Inr key"
  by (simp add: generate_key_def)

lemma bench_encoder: "rs_lawful rs 6 4 \<Longrightarrow> fec_encoder_new rs bench_config = Inr \<lparr>enc_config = shards_cfg 6 4\<rparr>"
  by (simp add: fec_encoder_new_def bench_config_def rs_lawful_def)

section \<open>Properties\<close>

text \<open>Every benchmark measures the path it is named after, however often its closure is called.  Encryption and decryption
  succeed, and the plaintext comes back.\<close>

theorem bench_crypto_succeeds:
  assumes "aead_lawful lib" "fill (replicate KEY_SIZE 0) = Some key" "length key = 32"
  shows "\<exists>ct. bench_encrypt_1400 lib fill n = Inr (replicate n ct, ()) \<and> length ct = 1416 \<and>
    bench_decrypt_1400 lib fill n = Inr (replicate n (Inr (replicate 1400 0xAB)), ())"
proof -
  let ?x = "replicate 1400 0xAB :: bytes"
  have key: "length (cipher_key (crypto_new key)) = 32" using assms(3) by (simp add: crypto_new_def)
  have "length ?x < 2 ^ 32" by simp
  from encrypt_ok [OF assms(1) key this] obtain ct where ct: "encrypt lib (crypto_new key) 42 ?x = Inr ct"
    "length ct = length ?x + 16" "decrypt lib (crypto_new key) 42 ct = Inr (Inr ?x)" .
  then show ?thesis
    by (intro exI [of _ ct]) (simp add: bench_encrypt_1400_def bench_decrypt_1400_def generate_key_ok [of fill, OF assms(2)]
        bench_iter_captures_nothing Let_def)
qed

text \<open>The ten shards come from the six, and the reconstruction restores the two that are removed.\<close>

theorem bench_fec_succeeds:
  assumes "rs_lawful rs 6 4"
  shows "\<exists>ys. length ys = 10 \<and> take 6 ys = bench_shards \<and> bench_fec_encode rs n = Inr (replicate n ys, ()) \<and>
    bench_fec_reconstruct rs n = Inr (replicate n (Inr (map Some ys)), ())"
proof -
  let ?enc = "\<lparr>enc_config = shards_cfg 6 4\<rparr>"
  have enc: "enc_config ?enc = shards_cfg 6 4" by simp
  have six: "length bench_shards = 6" "\<forall>x \<in> set bench_shards. length x = 700" "(0 :: nat) < 700" by (auto simp: bench_shards_def)
  obtain ys where ys: "fec_encode rs ?enc bench_shards = Inr ys" "length ys = 6 + 4" "take 6 ys = bench_shards"
    "\<And>os. erasure_of os ys \<Longrightarrow> 6 \<le> present os \<Longrightarrow> fec_reconstruct rs ?enc os = Inr (map Some ys)"
    using fec_encode_ok [OF assms enc six] by metis
  let ?os = "(map Some ys)[0 := None, 3 := None]"
  obtain y0 y1 y2 y3 rest where list: "ys = y0 # y1 # y2 # y3 # rest" "length rest = 6"
    using ys(2) by (auto simp: length_Suc_conv numeral_eq_Suc)
  have "erasure_of ?os ys" by (auto simp: erasure_of_def nth_list_update ys(2))
  moreover have "6 \<le> present ?os" by (simp add: list present_def)
  ultimately have "fec_reconstruct rs ?enc ?os = Inr (map Some ys)" by (rule ys(4))
  with ys show ?thesis
    by (intro exI [of _ ys])
      (simp add: bench_fec_encode_def bench_fec_reconstruct_def bench_encoder [OF assms] bench_iter_captures_nothing Let_def)
qed

text \<open>The header is read as it was written, from the buffer the writing benchmark leaves.\<close>

theorem bench_wire_succeeds:
  "\<exists>buf. bench_wire_framing n m = Inr (replicate n buf, replicate m (PACKET_DATA, 1234, 1400))"
proof -
  let ?zero = "replicate MAX_PACKET 0 :: bytes"
  let ?f = "\<lambda>buf. rbind (encode_header buf PACKET_DATA 1234 1400) (\<lambda>buf. Inr (buf, buf))"
  let ?b = "header_bytes PACKET_DATA 1234 1400 @ drop 11 ?zero"
  have "11 \<le> length ?zero" "11 \<le> length ?b" by (simp_all add: MAX_PACKET_eq)
  from this [THEN encode_header_ok, of PACKET_DATA 1234 1400] obtain buf where
    enc: "encode_header ?zero PACKET_DATA 1234 1400 = Inr buf" "encode_header buf PACKET_DATA 1234 1400 = Inr buf"
    and dec: "decode_header buf = Inr (PACKET_DATA, 1234, 1400)"
    using decode_header_bytes by (intro that [of ?b]) simp_all
  have "\<exists>s. bench_iter n ?f ?zero = Inr (replicate n buf, s) \<and> encode_header s PACKET_DATA 1234 1400 = Inr buf"
  proof (cases n)
    case (Suc k)
    have "bench_iter k ?f buf = Inr (replicate k buf, buf)" by (rule bench_iter_fixed) (simp add: enc)
    then show ?thesis using enc by (simp add: Suc)
  qed (simp add: enc)
  then obtain s where "bench_iter n ?f ?zero = Inr (replicate n buf, s)" "encode_header s PACKET_DATA 1234 1400 = Inr buf"
    by blast
  then show ?thesis
    by (intro exI [of _ buf]) (simp add: bench_wire_framing_def dec bench_iter_captures_nothing)
qed

text \<open>Each run of the pipeline makes ten frames, the \<open>k\<close>-th of which decrypts under sequence number \<open>k\<close> to
  the \<open>k\<close>-th shard, the first six holding the data.\<close>

theorem bench_pipeline_succeeds:
  assumes lib: "aead_lawful lib" and key: "fill (replicate KEY_SIZE 0) = Some key" "length key = 32" and rs: "rs_lawful rs 6 4"
  shows "\<exists>frames ys. bench_full_pipeline lib rs fill n = Inr (replicate n frames, ()) \<and> length frames = 10 \<and> length ys = 10 \<and>
    take 4200 (concat (take 6 ys)) = replicate 4200 0xCD \<and>
    (\<forall>k < 10. \<exists>ct. frames ! k = header_bytes PACKET_DATA (word_of_nat k) (word_of_nat (length ct)) @ ct \<and>
       decrypt lib (crypto_new key) (word_of_nat k) ct = Inr (Inr (ys ! k)))"
proof -
  let ?enc = "\<lparr>enc_config = shards_cfg 6 4\<rparr>" and ?data = "replicate 4200 0xCD :: bytes" and ?c = "crypto_new key"
  have enc: "enc_config ?enc = shards_cfg 6 4" and c: "length (cipher_key ?c) = 32" and ne: "?data \<noteq> []" and pos: "(0 :: nat) < 6"
    using key(2) by (simp_all add: crypto_new_def)
  obtain xs m where xs: "split_shards ?data 6 = Inr xs" "length xs = 6" "0 < m" "\<forall>s \<in> set xs. length s = m"
    "take (length ?data) (concat xs) = ?data"
    by (rule split_shards_ok [OF pos ne])
  obtain ys where ys: "fec_encode rs ?enc xs = Inr ys" "length ys = 6 + 4" "take 6 ys = xs" "\<forall>y \<in> set ys. length y = m"
    using fec_encode_ok [OF rs enc xs(2,4,3)] by metis
  have "xs ! 0 \<in> set xs" using xs(2) by simp
  then have "m = 700" using split_shards_size [OF xs(1)] xs(4) by fastforce
  then have "\<forall>y \<in> set ys. length y < 2 ^ 32" using ys(4) by simp
  from bench_frames_ok [OF lib c this, of 0] obtain frames where f: "bench_frames lib ?c 0 ys = Inr frames" "length frames = length ys"
    "\<forall>k < length ys. \<exists>ct. frames ! k = header_bytes PACKET_DATA (word_of_nat k) (word_of_nat (length ct)) @ ct \<and>
       decrypt lib ?c (word_of_nat k) ct = Inr (Inr (ys ! k))"
    by auto
  have "bench_full_pipeline lib rs fill n = Inr (replicate n frames, ())"
    using xs(1) ys(1) f(1) bench_encoder [OF rs]
    by (simp add: bench_full_pipeline_def generate_key_ok [of fill, OF key(1)] bench_iter_captures_nothing bench_config_def Let_def)
  with f(2,3) ys(2,3) xs(5) show ?thesis by (intro exI [of _ frames] exI [of _ ys]) simp
qed

end
