(* ===== verification/Test_Asserts.thy ===== *)
theory Test_Asserts
  imports Prelude
begin

text \<open>
  The vocabulary of the repository's unit tests.  A \<open>#[test]\<close> function returns normally or panics, so
  a test is a value of type \<open>unit outcome\<close>: a failed assertion and an \<open>unwrap\<close> of the wrong variant
  are panics.
\<close>

type_synonym unit_test = "unit outcome"

definition check :: "bool \<Rightarrow> unit_test" where
  \<comment> \<open>\<open>assert!\<close>\<close>
  "check b = (if b then Inr () else Inl (Expect_Panic ''assertion failed''))"

fun check_each :: "bool list \<Rightarrow> unit_test" where
  \<comment> \<open>assertions one after the other\<close>
  "check_each [] = Inr ()"
| "check_each (b # bs) = rbind (check b) (\<lambda>_. check_each bs)"

fun for_each :: "('a \<Rightarrow> unit_test) \<Rightarrow> 'a list \<Rightarrow> unit_test" where
  \<comment> \<open>the body of a loop over a list\<close>
  "for_each f [] = Inr ()"
| "for_each f (x # xs) = rbind (f x) (\<lambda>_. for_each f xs)"

definition unwrap :: "'a option \<Rightarrow> 'a outcome" where
  "unwrap r = (case r of
     None \<Rightarrow> Inl (Expect_Panic ''called Option::unwrap() on a None value'') | Some x \<Rightarrow> Inr x)"

definition unwrap_ok :: "'e + 'a \<Rightarrow> 'a outcome" where
  "unwrap_ok r = (case r of
     Inl _ \<Rightarrow> Inl (Expect_Panic ''called Result::unwrap() on an Err value'') | Inr x \<Rightarrow> Inr x)"

definition unwrap_err :: "'e + 'a \<Rightarrow> 'e outcome" where
  "unwrap_err r = (case r of
     Inl e \<Rightarrow> Inr e | Inr _ \<Rightarrow> Inl (Expect_Panic ''called Result::unwrap_err() on an Ok value''))"

definition is_ok :: "'e + 'a \<Rightarrow> bool" where
  "is_ok r = (case r of Inl _ \<Rightarrow> False | Inr _ \<Rightarrow> True)"

definition str_contains :: "string \<Rightarrow> string \<Rightarrow> bool" where
  \<comment> \<open>\<open>s.contains(needle)\<close>\<close>
  "str_contains needle s \<longleftrightarrow> list_ex (\<lambda>i. take (length needle) (drop i s) = needle) [0..<Suc (length s)]"

declare check_each.simps [simp del] for_each.simps [simp del]

named_theorems test_simps \<open>assertions and unwrapping on known values\<close>

lemma check_Inr_iff [test_simps]: "check b = Inr u \<longleftrightarrow> b"
  by (simp add: check_def)

lemma check_each_Inr_iff [test_simps]: "check_each bs = Inr u \<longleftrightarrow> list_all (\<lambda>b. b) bs"
  by (induction bs) (auto simp: check_def check_each.simps)

lemma for_each_Inr_iff [test_simps]: "for_each f xs = Inr u \<longleftrightarrow> (\<forall>x \<in> set xs. f x = Inr ())"
  by (induction xs) (auto simp: rbind_eq_Inr_iff for_each.simps)

lemma check_True [simp]: "check True = Inr ()"
  by (simp add: check_def)

lemma unwrap_simps [simp]:
  "unwrap (Some x) = Inr x" "unwrap_ok (Inr x :: 'e + 'a) = Inr x" "unwrap_err (Inl e :: 'e + 'a) = Inr e"
  "is_ok (Inr x :: 'e + 'a)" "\<not> is_ok (Inl e :: 'e + 'a)"
  by (simp_all add: unwrap_def unwrap_ok_def unwrap_err_def is_ok_def)

lemma str_contains_append: "str_contains needle (xs @ needle @ ys)"
proof -
  have "take (length needle) (drop (length xs) (xs @ needle @ ys)) = needle" by simp
  moreover have "length xs < Suc (length (xs @ needle @ ys))" by simp
  ultimately show ?thesis unfolding str_contains_def list_ex_iff set_upt by (intro bexI [of _ "length xs"]) auto
qed

end
