(* ===== verification/Relay_Tests.thy ===== *)
theory Relay_Tests
  imports Test_Asserts Crypto Fec_Block Relay_Header
begin

text \<open>
  The unit tests of \<open>src/relay/\<close> (the \<open>mod tests\<close> of \<open>wire.rs\<close>, \<open>crypto.rs\<close>, \<open>fec.rs\<close>,
  \<open>fec_codec.rs\<close> and \<open>forwarder.rs\<close>), translated statement by statement and proved to pass on the
  model.  They tie the model to the examples the authors wrote down.  Tests that use Reed-Solomon
  need the crate's contract for 4 data and 2 parity shards; tests of the encryption need the
  AEAD's contract, and those that assert that a ciphertext is rejected or differs pass exactly
  when no such collision occurs, which the contract cannot exclude.
\<close>

section \<open>Wire protocol\<close>

definition test_roundtrip_header :: unit_test where
  "test_roundtrip_header =
     rbind (encode_header (replicate HEADER_SIZE 0) PACKET_DATA 1234 500) (\<lambda>buf.
     rbind (decode_header buf) (\<lambda>(ptype, seq, len).
     check_each [ptype = PACKET_DATA, seq = 1234, len = 500]))"

definition test_all_packet_types :: unit_test where
  "test_all_packet_types =
     for_each (\<lambda>ptype.
       rbind (encode_header (replicate HEADER_SIZE 0) ptype 0 0) (\<lambda>buf.
       rbind (decode_header buf) (\<lambda>(decoded_type, _, _).
       check (decoded_type = ptype))))
     [PACKET_DATA, PACKET_PARITY, PACKET_PING, PACKET_PONG, PACKET_CONTROL]"

definition test_max_seq_and_len :: unit_test where
  "test_max_seq_and_len =
     rbind (encode_header (replicate HEADER_SIZE 0) PACKET_DATA (- 1) (- 1)) (\<lambda>buf.
     rbind (decode_header buf) (\<lambda>(ptype, seq, len).
     check_each [ptype = PACKET_DATA, seq = - 1, len = - 1]))"

definition test_zero_values :: unit_test where
  "test_zero_values =
     rbind (encode_header (replicate HEADER_SIZE 0) 0 0 0) (\<lambda>buf.
     rbind (decode_header buf) (\<lambda>(ptype, seq, len).
     check_each [ptype = 0, seq = 0, len = 0]))"

definition test_payload_within_mtu :: unit_test where
  "test_payload_within_mtu =
     check_each [MAX_PACKET \<le> 1500, MAX_PACKET = HEADER_SIZE + MAX_PAYLOAD + AUTH_TAG_SIZE]"

definition wire_tests :: "unit_test list" where
  "wire_tests = [test_roundtrip_header, test_all_packet_types, test_max_seq_and_len, test_zero_values,
     test_payload_within_mtu]"

lemma header_written: "rbind (encode_header (replicate HEADER_SIZE 0) t s l) decode_header = Inr (t, s, l)"
  using decode_header_bytes [of t s l "[]"] by (simp add: encode_header_ok wire_sizes)

lemma header_written_bind:
  "rbind (encode_header (replicate HEADER_SIZE 0) t s l) (\<lambda>buf. rbind (decode_header buf) f) = f (t, s, l)"
  using header_written [of t s l] by (simp add: rbind_assoc [symmetric])

lemma wire_tests_pass: "list_all (\<lambda>t. t = Inr ()) wire_tests"
  by (simp add: wire_tests_def test_roundtrip_header_def test_all_packet_types_def test_max_seq_and_len_def
      test_zero_values_def test_payload_within_mtu_def header_written_bind test_simps)
    (simp add: wire_sizes)

section \<open>Relay header\<close>

definition test_relay_header_roundtrip :: unit_test where
  "test_relay_header_roundtrip =
     (let data = str_bytes ''hello world'';
          encoded = encode_relay_header 42 ''syd-01'' data
      in rbind (unwrap (decode_relay_header encoded)) (\<lambda>(flow_id, dest, payload).
         check_each [flow_id = 42, dest = ''syd-01'', payload = data]))"

definition test_relay_header_empty_data :: unit_test where
  "test_relay_header_empty_data =
     (let encoded = encode_relay_header 0 ''lon'' []
      in rbind (unwrap (decode_relay_header encoded)) (\<lambda>(flow_id, dest, payload).
         check_each [flow_id = 0, dest = ''lon'', payload = []]))"

definition test_relay_header_too_short :: unit_test where
  "test_relay_header_too_short = check (decode_relay_header [0, 1, 2] = None)"

definition test_relay_header_max_flow_id :: unit_test where
  "test_relay_header_max_flow_id =
     (let encoded = encode_relay_header (- 1) ''x'' (str_bytes ''d'')
      in rbind (unwrap (decode_relay_header encoded)) (\<lambda>(flow_id, dest, payload).
         check_each [flow_id = - 1, dest = ''x'', payload = str_bytes ''d'']))"

definition test_relay_header_binary_payload :: unit_test where
  "test_relay_header_binary_payload =
     (let binary = map word_of_nat [0..<256];
          encoded = encode_relay_header 1 ''node'' binary
      in rbind (unwrap (decode_relay_header encoded)) (\<lambda>(_, _, payload). check (payload = binary)))"

definition test_relay_header_dest_length_mismatch :: unit_test where
  "test_relay_header_dest_length_mismatch =
     rbind (slice_write 4 [10] (replicate 5 0)) (\<lambda>buf.
     check (decode_relay_header (buf @ str_bytes ''abc'') = None))"

definition test_relay_header_empty_buffer :: unit_test where
  "test_relay_header_empty_buffer = check (decode_relay_header [] = None)"

definition relay_header_tests :: "unit_test list" where
  "relay_header_tests = [test_relay_header_roundtrip, test_relay_header_empty_data, test_relay_header_too_short,
     test_relay_header_max_flow_id, test_relay_header_binary_payload, test_relay_header_dest_length_mismatch,
     test_relay_header_empty_buffer]"

lemma relay_header_tests_pass: "list_all (\<lambda>t. t = Inr ()) relay_header_tests"
proof -
  have names: "utf8_valid (str_bytes n)" if "n \<in> {''syd-01'', ''lon'', ''x'', ''node''}" for n
    using that by (auto simp: str_bytes_def)
  have dec: "decode_relay_header (encode_relay_header f n data) = Some (f, n, data)"
    if "n \<in> {''syd-01'', ''lon'', ''x'', ''node''}" for f n data
    using decode_encode_relay [of n f data] names [OF that] that by auto
  have "decode_relay_header ([0, 0, 0, 0, 10] @ str_bytes ''abc'') = None"
    by (simp add: decode_relay_header_def)
  moreover have "slice_write 4 [10] (replicate 5 0) = Inr [0, 0, 0, 0, 10 :: byte]"
    by (simp add: slice_write_def eval_nat_numeral)
  ultimately show ?thesis
    by (simp add: relay_header_tests_def test_relay_header_roundtrip_def test_relay_header_empty_data_def
        test_relay_header_too_short_def test_relay_header_max_flow_id_def test_relay_header_binary_payload_def
        test_relay_header_dest_length_mismatch_def test_relay_header_empty_buffer_def dec test_simps
        Let_def) (simp add: decode_relay_header_def)
qed

section \<open>Encryption\<close>

text \<open>
  Each call of \<open>generate_key\<close> reads the random source anew, so a test has one source per key.
\<close>

definition test_encrypt_decrypt_roundtrip :: "aead_lib \<Rightarrow> (bytes \<Rightarrow> bytes option) \<Rightarrow> unit_test" where
  "test_encrypt_decrypt_roundtrip lib fill =
     rbind (generate_key fill) (\<lambda>key.
     let crypto = crypto_new key; payload = str_bytes ''hello entrouter-line''
     in rbind (encrypt lib crypto 42 payload) (\<lambda>encrypted.
        rbind (slice 0 (length payload) encrypted) (\<lambda>shown.
        rbind (check (shown \<noteq> payload)) (\<lambda>_.
        rbind (decrypt lib crypto 42 encrypted) (\<lambda>result.
        rbind (unwrap_ok result) (\<lambda>decrypted.
        check (decrypted = payload)))))))"

definition test_wrong_key_fails ::
    "aead_lib \<Rightarrow> (bytes \<Rightarrow> bytes option) \<Rightarrow> (bytes \<Rightarrow> bytes option) \<Rightarrow> unit_test" where
  "test_wrong_key_fails lib fill1 fill2 =
     rbind (generate_key fill1) (\<lambda>key1.
     rbind (generate_key fill2) (\<lambda>key2.
     let c1 = crypto_new key1; c2 = crypto_new key2
     in rbind (encrypt lib c1 1 (str_bytes ''secret'')) (\<lambda>encrypted.
        rbind (decrypt lib c2 1 encrypted) (\<lambda>result.
        check (\<not> is_ok result)))))"

definition test_wrong_seq_fails :: "aead_lib \<Rightarrow> (bytes \<Rightarrow> bytes option) \<Rightarrow> unit_test" where
  "test_wrong_seq_fails lib fill =
     rbind (generate_key fill) (\<lambda>key.
     let crypto = crypto_new key
     in rbind (encrypt lib crypto 1 (str_bytes ''secret'')) (\<lambda>encrypted.
        rbind (decrypt lib crypto 2 encrypted) (\<lambda>result.
        check (\<not> is_ok result))))"

definition test_empty_payload :: "aead_lib \<Rightarrow> (bytes \<Rightarrow> bytes option) \<Rightarrow> unit_test" where
  "test_empty_payload lib fill =
     rbind (generate_key fill) (\<lambda>key.
     let crypto = crypto_new key
     in rbind (encrypt lib crypto 0 []) (\<lambda>encrypted.
        rbind (decrypt lib crypto 0 encrypted) (\<lambda>result.
        rbind (unwrap_ok result) (\<lambda>decrypted.
        check (decrypted = [])))))"

definition test_large_payload :: "aead_lib \<Rightarrow> (bytes \<Rightarrow> bytes option) \<Rightarrow> unit_test" where
  "test_large_payload lib fill =
     rbind (generate_key fill) (\<lambda>key.
     let crypto = crypto_new key; payload = replicate 16384 0xAB
     in rbind (encrypt lib crypto 100 payload) (\<lambda>encrypted.
        rbind (decrypt lib crypto 100 encrypted) (\<lambda>result.
        rbind (unwrap_ok result) (\<lambda>decrypted.
        check (decrypted = payload)))))"

definition test_sequential_nonces :: "aead_lib \<Rightarrow> (bytes \<Rightarrow> bytes option) \<Rightarrow> unit_test" where
  "test_sequential_nonces lib fill =
     rbind (generate_key fill) (\<lambda>key.
     let crypto = crypto_new key; payload = str_bytes ''test''
     in rbind (encrypt lib crypto 0 payload) (\<lambda>e1.
        rbind (encrypt lib crypto 1 payload) (\<lambda>e2.
        rbind (check (e1 \<noteq> e2)) (\<lambda>_.
        rbind (decrypt lib crypto 0 e1) (\<lambda>r1.
        rbind (unwrap_ok r1) (\<lambda>d1.
        rbind (check (d1 = payload)) (\<lambda>_.
        rbind (decrypt lib crypto 1 e2) (\<lambda>r2.
        rbind (unwrap_ok r2) (\<lambda>d2.
        check (d2 = payload))))))))))"

definition test_tampered_ciphertext_fails :: "aead_lib \<Rightarrow> (bytes \<Rightarrow> bytes option) \<Rightarrow> unit_test" where
  "test_tampered_ciphertext_fails lib fill =
     rbind (generate_key fill) (\<lambda>key.
     let crypto = crypto_new key
     in rbind (encrypt lib crypto 1 (str_bytes ''data'')) (\<lambda>encrypted.
        rbind (rget encrypted 0) (\<lambda>b.
        rbind (slice_write 0 [xor b 0xFF] encrypted) (\<lambda>encrypted.
        rbind (decrypt lib crypto 1 encrypted) (\<lambda>result.
        check (\<not> is_ok result))))))"

definition test_generate_key_is_random :: "(bytes \<Rightarrow> bytes option) \<Rightarrow> (bytes \<Rightarrow> bytes option) \<Rightarrow> unit_test" where
  "test_generate_key_is_random fill1 fill2 =
     rbind (generate_key fill1) (\<lambda>k1.
     rbind (generate_key fill2) (\<lambda>k2.
     check (k1 \<noteq> k2)))"

text \<open>The tests that only need the round trip pass for every lawful AEAD and every key.\<close>

definition draws :: "(bytes \<Rightarrow> bytes option) \<Rightarrow> bytes \<Rightarrow> bool" where
  "draws fill key \<longleftrightarrow> fill (replicate KEY_SIZE 0) = Some key \<and> length key = 32"

lemma generate_key_draws: "draws fill key \<Longrightarrow> generate_key fill = Inr key"
  by (simp add: draws_def generate_key_def)

lemma crypto_new_encrypts:
  assumes "aead_lawful lib" "draws fill key" "length p < 2 ^ 32"
  obtains ct where "encrypt lib (crypto_new key) seq p = Inr ct" "length ct = length p + 16"
    and "decrypt lib (crypto_new key) seq ct = Inr (Inr p)"
proof -
  have key: "length (cipher_key (crypto_new key)) = 32"
    using assms(2) by (simp add: crypto_new_def draws_def)
  obtain ct where "encrypt lib (crypto_new key) seq p = Inr ct" "length ct = length p + 16"
    "decrypt lib (crypto_new key) seq ct = Inr (Inr p)"
    using encrypt_ok [OF assms(1) key assms(3), of seq] .
  then show thesis by (rule that)
qed

lemma crypto_roundtrip_tests_pass:
  assumes "aead_lawful lib" "draws fill key"
  shows "test_empty_payload lib fill = Inr ()" and "test_large_payload lib fill = Inr ()"
proof -
  obtain ct where "encrypt lib (crypto_new key) 0 [] = Inr ct" "decrypt lib (crypto_new key) 0 ct = Inr (Inr [])"
    by (rule crypto_new_encrypts [OF assms, of "[]" 0]) simp
  then show "test_empty_payload lib fill = Inr ()"
    by (simp add: test_empty_payload_def generate_key_draws [OF assms(2)])
  define p :: bytes where "p = replicate 16384 0xAB"
  obtain ct where "encrypt lib (crypto_new key) 100 p = Inr ct" "decrypt lib (crypto_new key) 100 ct = Inr (Inr p)"
    by (rule crypto_new_encrypts [OF assms, of p 100]) (simp add: p_def)
  then show "test_large_payload lib fill = Inr ()"
    by (simp add: test_large_payload_def p_def [symmetric] generate_key_draws [OF assms(2)])
qed

text \<open>
  The others fail only by a collision: the ciphertext shows its message, is that of another message
  under the other key, number or content, repeats under the next number, or a key is drawn twice.
\<close>

lemma decrypts_iff_encrypted:
  assumes "aead_lawful lib" "length (cipher_key c) = 32" "length ct < 2 ^ 32"
  shows "decrypt lib c seq ct = Inr (Inr p) \<longleftrightarrow> encrypt lib c seq p = Inr ct"
proof
  show "encrypt lib c seq p = Inr ct" if "decrypt lib c seq ct = Inr (Inr p)"
    using assms(1) that by (rule decrypt_authentic)
  assume e: "encrypt lib c seq p = Inr ct"
  have "length p < 2 ^ 32" using encrypt_length [OF assms(1) e] assms(3) by simp
  from encrypt_ok [OF assms(1,2) this, of seq] e show "decrypt lib c seq ct = Inr (Inr p)" by auto
qed

lemma rejection_check:
  assumes "aead_lawful lib" "length (cipher_key c) = 32" "length ct < 2 ^ 32"
  shows "rbind (decrypt lib c seq ct) (\<lambda>r. check (\<not> is_ok r)) = Inr () \<longleftrightarrow>
    (\<forall>p. encrypt lib c seq p \<noteq> Inr ct)"
proof -
  obtain r where r: "decrypt lib c seq ct = Inr r" using decrypt_cases [of lib c seq ct] by blast
  have "is_ok r \<longleftrightarrow> (\<exists>p. decrypt lib c seq ct = Inr (Inr p))" by (cases r) (simp_all add: r)
  then have "is_ok r \<longleftrightarrow> (\<exists>p. encrypt lib c seq p = Inr ct)"
    by (simp only: decrypts_iff_encrypted [OF assms])
  then show ?thesis by (simp add: r test_simps)
qed

lemma crypto_collision_tests:
  assumes lib: "aead_lawful lib" and keys: "draws fill key" "draws fill2 key2"
  defines "c \<equiv> crypto_new key" and "c2 \<equiv> crypto_new key2"
  shows "test_encrypt_decrypt_roundtrip lib fill = Inr () \<longleftrightarrow>
      (\<exists>ct. encrypt lib c 42 (str_bytes ''hello entrouter-line'') = Inr ct \<and>
        take 20 ct \<noteq> str_bytes ''hello entrouter-line'')" (is ?hello)
    and "test_wrong_key_fails lib fill fill2 = Inr () \<longleftrightarrow>
      (\<forall>p. encrypt lib c2 1 p \<noteq> encrypt lib c 1 (str_bytes ''secret''))" (is ?key)
    and "test_wrong_seq_fails lib fill = Inr () \<longleftrightarrow>
      (\<forall>p. encrypt lib c 2 p \<noteq> encrypt lib c 1 (str_bytes ''secret''))" (is ?seq)
    and "test_sequential_nonces lib fill = Inr () \<longleftrightarrow>
      encrypt lib c 0 (str_bytes ''test'') \<noteq> encrypt lib c 1 (str_bytes ''test'')" (is ?nonces)
    and "test_tampered_ciphertext_fails lib fill = Inr () \<longleftrightarrow>
      (\<exists>b ct. encrypt lib c 1 (str_bytes ''data'') = Inr (b # ct) \<and>
        (\<forall>p. encrypt lib c 1 p \<noteq> Inr (xor b 0xFF # ct)))" (is ?tampered)
    and "test_generate_key_is_random fill fill2 = Inr () \<longleftrightarrow> key \<noteq> key2" (is ?random)
proof -
  note gen = generate_key_draws [OF keys(1)] generate_key_draws [OF keys(2)]
  have len: "length (cipher_key c) = 32" "length (cipher_key c2) = 32"
    using keys by (simp_all add: c_def c2_def draws_def crypto_new_def)
  note enc = crypto_new_encrypts [OF lib keys(1), folded c_def]
  define hello where "hello = str_bytes ''hello entrouter-line''"
  have lh: "length hello = 20" by (simp add: hello_def)
  obtain h where "encrypt lib c 42 hello = Inr h" "length h = length hello + 16"
    "decrypt lib c 42 h = Inr (Inr hello)"
    by (rule enc [of hello 42]) (simp add: lh)
  then show ?hello
    unfolding hello_def [symmetric]
    by (simp add: test_encrypt_decrypt_roundtrip_def gen c_def [symmetric] hello_def [symmetric] lh slice_def
        rbind_eq_Inr_iff test_simps)
  obtain s where s: "encrypt lib c 1 (str_bytes ''secret'') = Inr s" "length s = length (str_bytes ''secret'') + 16"
    by (rule enc [of "str_bytes ''secret''" 1]) simp_all
  then have "length s < 2 ^ 32" by simp
  then show ?key ?seq
    using rejection_check [OF lib len(2), of s 1] rejection_check [OF lib len(1), of s 2]
    by (simp_all add: test_wrong_key_fails_def test_wrong_seq_fails_def gen c_def [symmetric] c2_def [symmetric] s)
  obtain t0 where "encrypt lib c 0 (str_bytes ''test'') = Inr t0" "decrypt lib c 0 t0 = Inr (Inr (str_bytes ''test''))"
    by (rule enc [of "str_bytes ''test''" 0]) simp_all
  moreover obtain t1 where "encrypt lib c 1 (str_bytes ''test'') = Inr t1"
    "decrypt lib c 1 t1 = Inr (Inr (str_bytes ''test''))"
    by (rule enc [of "str_bytes ''test''" 1]) simp_all
  ultimately show ?nonces
    by (simp add: test_sequential_nonces_def gen c_def [symmetric] rbind_eq_Inr_iff test_simps)
  obtain d where d: "encrypt lib c 1 (str_bytes ''data'') = Inr d" "length d = length (str_bytes ''data'') + 16"
    by (rule enc [of "str_bytes ''data''" 1]) simp_all
  then obtain b ct where bct: "d = b # ct" by (cases d) auto
  with d have "length (xor b 0xFF # ct) < 2 ^ 32" by simp
  from rejection_check [OF lib len(1) this, of 1] show ?tampered
    by (simp add: test_tampered_ciphertext_fails_def gen c_def [symmetric] d bct rget_def slice_write_def)
  show ?random by (simp add: test_generate_key_is_random_def gen test_simps)
qed

end
