(* ===== verification/Fec_Tests.thy ===== *)
theory Fec_Tests
  imports Test_Asserts Fec_Block
begin

text \<open>
  The unit tests of the error correction (the \<open>mod tests\<close> of \<open>src/relay/fec.rs\<close> and
  \<open>src/relay/fec_codec.rs\<close>), translated statement by statement and proved to pass on the model.  The
  tests that use Reed-Solomon pass for every library that fulfils the contract for 4 data and 2
  parity shards; those of the receiver pass whatever the clock shows.
\<close>

section \<open>Reed-Solomon\<close>

definition test_encode_decode_no_loss :: "rs_lib \<Rightarrow> unit_test" where
  "test_encode_decode_no_loss rs =
     rbind (fec_encoder_new rs (shards_cfg 4 2)) (\<lambda>enc.
     rbind (fec_encode rs enc (map (\<lambda>i. replicate 100 (word_of_nat i)) [0..<4])) (\<lambda>shards.
     rbind (check (length shards = 6)) (\<lambda>_.
     rbind (unwrap_ok (fec_reconstruct rs enc (map Some shards))) (\<lambda>_. Inr ()))))"

definition test_recover_from_loss :: "rs_lib \<Rightarrow> unit_test" where
  "test_recover_from_loss rs =
     rbind (fec_encoder_new rs (shards_cfg 4 2)) (\<lambda>enc.
     let original = map (\<lambda>i. replicate 100 (word_of_nat i + 10)) [0..<4]
     in rbind (fec_encode rs enc original) (\<lambda>shards.
        rbind (slice_write 0 [None] (map Some shards)) (\<lambda>opt.
        rbind (slice_write 2 [None] opt) (\<lambda>opt.
        rbind (unwrap_ok (fec_reconstruct rs enc opt)) (\<lambda>opt.
        rbind (rget opt 0) (\<lambda>o0. rbind (unwrap o0) (\<lambda>s0. rbind (rget original 0) (\<lambda>x0.
        rbind (check (s0 = x0)) (\<lambda>_.
        rbind (rget opt 2) (\<lambda>o2. rbind (unwrap o2) (\<lambda>s2. rbind (rget original 2) (\<lambda>x2.
        check (s2 = x2)))))))))))))"

definition test_too_many_lost_fails :: "rs_lib \<Rightarrow> unit_test" where
  "test_too_many_lost_fails rs =
     rbind (fec_encoder_new rs (shards_cfg 4 2)) (\<lambda>enc.
     rbind (fec_encode rs enc (map (\<lambda>i. replicate 100 (word_of_nat i)) [0..<4])) (\<lambda>shards.
     rbind (slice_write 0 [None] (map Some shards)) (\<lambda>opt.
     rbind (slice_write 1 [None] opt) (\<lambda>opt.
     rbind (slice_write 2 [None] opt) (\<lambda>opt.
     check (\<not> is_ok (fec_reconstruct rs enc opt)))))))"

lemma fec_encode_four:
  assumes law: "rs_lawful rs 4 2" and xs: "length xs = 4" "\<forall>x \<in> set xs. length x = 100"
  obtains y0 y1 y2 y3 y4 y5 where "xs = [y0, y1, y2, y3]"
    and "fec_encode rs \<lparr>enc_config = shards_cfg 4 2\<rparr> xs = Inr [y0, y1, y2, y3, y4, y5]"
    and "\<And>os. erasure_of os [y0, y1, y2, y3, y4, y5] \<Longrightarrow> 4 \<le> present os \<Longrightarrow>
      fec_reconstruct rs \<lparr>enc_config = shards_cfg 4 2\<rparr> os = Inr (map Some [y0, y1, y2, y3, y4, y5])"
proof -
  have cfg: "enc_config \<lparr>enc_config = shards_cfg 4 2\<rparr> = shards_cfg 4 2" by simp
  obtain ys where ys: "fec_encode rs \<lparr>enc_config = shards_cfg 4 2\<rparr> xs = Inr ys" "length ys = 4 + 2" "take 4 ys = xs"
    "\<And>os. erasure_of os ys \<Longrightarrow> 4 \<le> present os \<Longrightarrow>
      fec_reconstruct rs \<lparr>enc_config = shards_cfg 4 2\<rparr> os = Inr (map Some ys)"
    by (rule fec_encode_ok [OF law cfg xs]) simp_all
  from ys(2) obtain y0 y1 y2 y3 y4 y5 where "ys = [y0, y1, y2, y3, y4, y5]"
    by (auto simp: eval_nat_numeral length_Suc_conv)
  with ys(1,3,4) show thesis by (intro that) auto
qed

lemma encoder_four: "rs_lawful rs 4 2 \<Longrightarrow> fec_encoder_new rs (shards_cfg 4 2) = Inr \<lparr>enc_config = shards_cfg 4 2\<rparr>"
  by (simp add: fec_encoder_new_def rs_lawful_def)

lemma less_six: "i < 6 \<longleftrightarrow> i = 0 \<or> i = 1 \<or> i = 2 \<or> i = 3 \<or> i = 4 \<or> i = (5 :: nat)"
  by auto

lemma erasure_of_six:
  "(\<And>i. i < 6 \<Longrightarrow> os ! i = None \<or> os ! i = Some (ys ! i)) \<Longrightarrow> length os = 6 \<Longrightarrow> length ys = 6 \<Longrightarrow> erasure_of os ys"
  by (simp add: erasure_of_def)

lemma reed_solomon_tests_pass:
  assumes law: "rs_lawful rs 4 2"
  shows "test_encode_decode_no_loss rs = Inr ()" and "test_recover_from_loss rs = Inr ()"
    and "test_too_many_lost_fails rs = Inr ()"
proof -
  let ?enc = "\<lparr>enc_config = shards_cfg 4 2\<rparr>"
  obtain y0 y1 y2 y3 y4 y5 where
    y: "fec_encode rs ?enc (map (\<lambda>i. replicate 100 (word_of_nat i)) [0..<4]) = Inr [y0, y1, y2, y3, y4, y5]"
    "\<And>os. erasure_of os [y0, y1, y2, y3, y4, y5] \<Longrightarrow> 4 \<le> present os \<Longrightarrow>
      fec_reconstruct rs ?enc os = Inr (map Some [y0, y1, y2, y3, y4, y5])"
    by (rule fec_encode_four [OF law, of "map (\<lambda>i. replicate 100 (word_of_nat i)) [0..<4]"]) auto
  have "erasure_of (map Some [y0, y1, y2, y3, y4, y5]) [y0, y1, y2, y3, y4, y5]"
    "present (map Some [y0, y1, y2, y3, y4, y5]) = 6"
    by (rule erasure_of_six) (auto simp: less_six present_def)
  then have "fec_reconstruct rs ?enc (map Some [y0, y1, y2, y3, y4, y5]) = Inr (map Some [y0, y1, y2, y3, y4, y5])"
    by (intro y(2)) simp_all
  then show "test_encode_decode_no_loss rs = Inr ()"
    by (simp only: test_encode_decode_no_loss_def encoder_four [OF law] y rbind_simps) simp
  have "fec_reconstruct rs ?enc [None, None, None, Some y3, Some y4, Some y5] = Inl Too_Many_Lost"
    by (rule fec_reconstruct_too_few [OF law]) (simp_all add: present_def)
  then show "test_too_many_lost_fails rs = Inr ()"
    by (simp only: test_too_many_lost_fails_def encoder_four [OF law] y rbind_simps)
      (simp add: slice_write_def eval_nat_numeral)
  obtain z0 z1 z2 z3 z4 z5 where
    z: "map (\<lambda>i. replicate 100 (word_of_nat i + 10)) [0..<4] = [z0, z1, z2, z3]"
    "fec_encode rs ?enc (map (\<lambda>i. replicate 100 (word_of_nat i + 10)) [0..<4]) = Inr [z0, z1, z2, z3, z4, z5]"
    "\<And>os. erasure_of os [z0, z1, z2, z3, z4, z5] \<Longrightarrow> 4 \<le> present os \<Longrightarrow>
      fec_reconstruct rs ?enc os = Inr (map Some [z0, z1, z2, z3, z4, z5])"
    by (rule fec_encode_four [OF law, of "map (\<lambda>i. replicate 100 (word_of_nat i + 10)) [0..<4]"]) auto
  have "erasure_of [None, Some z1, None, Some z3, Some z4, Some z5] [z0, z1, z2, z3, z4, z5]"
    by (rule erasure_of_six) (auto simp: less_six)
  then have "fec_reconstruct rs ?enc [None, Some z1, None, Some z3, Some z4, Some z5] =
      Inr (map Some [z0, z1, z2, z3, z4, z5])"
    by (rule z(3)) (simp add: present_def)
  moreover have "slice_write 0 [None] (map Some [z0, z1, z2, z3, z4, z5]) =
      Inr [None, Some z1, Some z2, Some z3, Some z4, Some z5]"
    "slice_write 2 [None] [None, Some z1, Some z2, Some z3, Some z4, Some z5] =
      Inr [None, Some z1, None, Some z3, Some z4, Some z5]"
    by (simp_all add: slice_write_def)
  ultimately show "test_recover_from_loss rs = Inr ()"
    unfolding test_recover_from_loss_def encoder_four [OF law] rbind_simps Let_def z(1) z(2) [unfolded z(1)]
    by (simp add: rget_def)
qed

section \<open>Loss rates and configurations\<close>

definition F64_EPSILON :: f64 where
  \<comment> \<open>\<open>f64::EPSILON\<close>, the gap between 1 and the next number\<close>
  "F64_EPSILON = Fin (1 / 2 ^ 52)"

definition about :: "f64 \<Rightarrow> f64 \<Rightarrow> bool" where
  \<comment> \<open>\<open>(x - y).abs() < f64::EPSILON\<close>\<close>
  "about x y \<longleftrightarrow> f64_lt (f64_abs (f64_sub x y)) F64_EPSILON"

definition test_loss_tracker_adapts :: unit_test where
  "test_loss_tracker_adapts =
     rbind (lt_record_all (replicate 100 True) (loss_tracker_new 100)) (\<lambda>tracker.
     rbind (check (parity_shards (recommended_config tracker) = 1)) (\<lambda>_.
     rbind (lt_record_all (map (\<lambda>i. i mod 20 \<noteq> 0) [0..<100]) (loss_tracker_new 100)) (\<lambda>tracker2.
     check (4 \<le> parity_shards (recommended_config tracker2)))))"

definition test_adaptive_config_thresholds :: unit_test where
  "test_adaptive_config_thresholds =
     check_each [
       parity_shards (for_loss_rate (f64_lit 0)) = 1,
       parity_shards (for_loss_rate (f64_lit (8 / 1000))) = 2,
       parity_shards (for_loss_rate (f64_lit (2 / 100))) = 4,
       parity_shards (for_loss_rate (f64_lit (4 / 100))) = 4,
       parity_shards (for_loss_rate (f64_lit (10 / 100))) = 4]"

definition test_adaptive_config_all_boundaries :: unit_test where
  "test_adaptive_config_all_boundaries =
     (let t1 = for_loss_rate (f64_lit (4 / 1000)); t2 = for_loss_rate (f64_lit (5 / 1000));
          t3 = for_loss_rate (f64_lit (1 / 100)); t4 = for_loss_rate (f64_lit (3 / 100));
          t5 = for_loss_rate (f64_lit (5 / 100))
      in check_each [
        (data_shards t1, parity_shards t1) = (20, 1), (data_shards t2, parity_shards t2) = (10, 2),
        (data_shards t3, parity_shards t3) = (10, 4), (data_shards t4, parity_shards t4) = (8, 4),
        (data_shards t5, parity_shards t5) = (6, 4)])"

definition test_overhead_calculation :: unit_test where
  "test_overhead_calculation =
     check_each [about (overhead (shards_cfg 10 2)) (f64_lit (2 / 10)),
       about (overhead (shards_cfg 6 4)) (f64_div (f64_lit 4) (f64_lit 6))]"

definition test_total_shards :: unit_test where
  "test_total_shards = check (total_shards (shards_cfg 10 4) = 14)"

definition test_loss_tracker_window_wraparound :: unit_test where
  "test_loss_tracker_window_wraparound =
     rbind (lt_record True (loss_tracker_new 4)) (\<lambda>tracker.
     rbind (lt_record False tracker) (\<lambda>tracker.
     rbind (lt_record True tracker) (\<lambda>tracker.
     rbind (lt_record False tracker) (\<lambda>tracker.
     rbind (check (about (loss_rate tracker) (f64_lit (5 / 10)))) (\<lambda>_.
     rbind (lt_record True tracker) (\<lambda>tracker.
     rbind (lt_record True tracker) (\<lambda>tracker.
     check (about (loss_rate tracker) (f64_lit (25 / 100))))))))))"

definition fec_config_tests :: "unit_test list" where
  "fec_config_tests = [test_loss_tracker_adapts, test_adaptive_config_thresholds,
     test_adaptive_config_all_boundaries, test_overhead_calculation, test_total_shards,
     test_loss_tracker_window_wraparound]"

lemma for_loss_rate_lit:
  assumes "0 < n" "n \<le> 2 ^ 40" "c \<le> n"
  shows "for_loss_rate (f64_lit (of_nat c / of_nat n)) = exact_tier c n"
proof -
  have "c < 2 ^ 53" "n < 2 ^ 53" using assms by simp_all
  then have "f64_div (f64_of_nat c) (f64_of_nat n) = f64_lit (of_nat c / of_nat n)"
    using assms(1) by (simp add: f64_of_nat_def f64_lit_def fl_of_nat)
  with for_loss_rate_exact [OF assms] show ?thesis by simp
qed

lemma about_same: "about (Fin x) (Fin x)"
  by (simp add: about_def F64_EPSILON_def)

lemma fl_small: "n < 100 \<Longrightarrow> fl (of_nat n) = of_nat n"
  by (rule fl_of_nat) simp

lemma test_loss_tracker_adapts_pass: "test_loss_tracker_adapts = Inr ()"
proof -
  have v: "lt_view (replicate 100 True) (loss_tracker_new 100)" by (rule lt_view_new) simp
  have rec: "\<exists>t. lt_record_all h (loss_tracker_new 100) = Inr t \<and> recommended_config t = exact_tier (losses h) 100"
    if "length h = 100" for h
  proof -
    obtain t where t: "lt_record_all h (loss_tracker_new 100) = Inr t" "lt_view h t"
      using lt_record_all_view [OF v, of h] \<open>length h = 100\<close> by auto
    then have "recommended_config t = exact_tier (losses h) 100"
      using for_loss_rate_exact [of 100 "losses h"] losses_le_length [of h] \<open>length h = 100\<close>
      by (simp add: recommended_config_def lt_loss_rate_view [OF t(2)])
    with t(1) show ?thesis by blast
  qed
  have "losses (map (\<lambda>i. i mod 20 \<noteq> (0 :: nat)) [0..<100]) = 5" by code_simp
  then show ?thesis
    using rec [of "replicate 100 True"] rec [of "map (\<lambda>i. i mod 20 \<noteq> 0) [0..<100]"]
    by (auto simp: test_loss_tracker_adapts_def exact_tier_def)
qed

lemma loss_rate_small:
  assumes "lt_count t < 100" "length (lt_window t) < 100" "0 < length (lt_window t)"
  shows "loss_rate t = Fin (fl (of_nat (lt_count t) / of_nat (length (lt_window t))))"
  using assms by (simp add: loss_rate_def f64_of_nat_def fl_small)

lemma test_loss_tracker_window_wraparound_pass: "test_loss_tracker_window_wraparound = Inr ()"
proof -
  let ?t = "\<lambda>w q c. \<lparr>lt_window = w, lt_pos = q, lt_count = c\<rparr>"
  have new: "loss_tracker_new 4 = ?t [True, True, True, True] 0 0"
    by (simp add: loss_tracker_new_def numeral_eq_Suc)
  have steps: "lt_record r (?t [a, b, c, d] 0 n) = Inr (?t [r, b, c, d] 1 (n - of_bool (\<not> a) + of_bool (\<not> r)))"
    "lt_record r (?t [a, b, c, d] 1 n) = Inr (?t [a, r, c, d] 2 (n - of_bool (\<not> b) + of_bool (\<not> r)))"
    "lt_record r (?t [a, b, c, d] 2 n) = Inr (?t [a, b, r, d] 3 (n - of_bool (\<not> c) + of_bool (\<not> r)))"
    "lt_record r (?t [a, b, c, d] 3 n) = Inr (?t [a, b, c, r] 0 (n - of_bool (\<not> d) + of_bool (\<not> r)))"
    for a b c d r n
    by (simp_all add: lt_record_def rget_def Let_def)
  have "loss_rate (?t [a, b, c, d] 0 2) = Fin (fl (5 / 10))" "loss_rate (?t [a, b, c, d] 2 (Suc 0)) = Fin (fl (25 / 100))" for a b c d
    by (simp_all add: loss_rate_small)
  then have "about (loss_rate (?t [a, b, c, d] 0 2)) (f64_lit (5 / 10))"
    "about (loss_rate (?t [a, b, c, d] 2 (Suc 0))) (f64_lit (25 / 100))" for a b c d
    by (simp_all only: f64_lit_def about_same)
  then show ?thesis by (simp add: test_loss_tracker_window_wraparound_def new steps del: One_nat_def)
qed

lemma overhead_about:
  assumes "p < 100" "d < 100" "0 < d" "x = of_nat p / of_nat d"
  shows "about (overhead (shards_cfg d p)) (f64_lit x)"
  using assms by (simp add: overhead_def f64_of_nat_def f64_lit_def fl_small about_same)

lemma fec_config_tests_pass: "list_all (\<lambda>t. t = Inr ()) fec_config_tests"
proof -
  have tiers: "for_loss_rate (f64_lit 0) = shards_cfg 20 1" "for_loss_rate (f64_lit (1 / 125)) = shards_cfg 10 2"
    "for_loss_rate (f64_lit (1 / 50)) = shards_cfg 10 4" "for_loss_rate (f64_lit (1 / 25)) = shards_cfg 8 4"
    "for_loss_rate (f64_lit (1 / 10)) = shards_cfg 6 4" "for_loss_rate (f64_lit (1 / 250)) = shards_cfg 20 1"
    "for_loss_rate (f64_lit (1 / 200)) = shards_cfg 10 2" "for_loss_rate (f64_lit (1 / 100)) = shards_cfg 10 4"
    "for_loss_rate (f64_lit (3 / 100)) = shards_cfg 8 4" "for_loss_rate (f64_lit (1 / 20)) = shards_cfg 6 4"
    using for_loss_rate_lit [of 1 0] for_loss_rate_lit [of 125 1] for_loss_rate_lit [of 50 1]
      for_loss_rate_lit [of 25 1] for_loss_rate_lit [of 10 1] for_loss_rate_lit [of 250 1]
      for_loss_rate_lit [of 200 1] for_loss_rate_lit [of 100 1] for_loss_rate_lit [of 100 3]
      for_loss_rate_lit [of 20 1]
    by (simp_all add: exact_tier_def)
  have "f64_div (f64_lit 4) (f64_lit 6) = f64_lit (4 / 6)"
    using fl_small [of 4] fl_small [of 6] by (simp add: f64_lit_def)
  moreover have "about (overhead (shards_cfg 10 2)) (f64_lit (2 / 10))" "about (overhead (shards_cfg 6 4)) (f64_lit (4 / 6))"
    by (rule overhead_about; simp)+
  ultimately show ?thesis
    by (simp add: fec_config_tests_def test_loss_tracker_adapts_pass test_loss_tracker_window_wraparound_pass
        test_adaptive_config_thresholds_def test_adaptive_config_all_boundaries_def test_overhead_calculation_def
        test_total_shards_def total_shards_def test_simps Let_def tiers)
qed

section \<open>Block codec\<close>

definition test_shard_header_roundtrip :: unit_test where
  "test_shard_header_roundtrip =
     rbind (encode_shard_header (replicate SHARD_HEADER_SIZE 0) 1234 5 10 4 800) (\<lambda>buf.
     rbind (unwrap (decode_shard_header buf)) (\<lambda>(bid, idx, ds, ps, len).
     check_each [bid = 1234, idx = 5, ds = 10, ps = 4, len = 800]))"

definition check_type :: "(byte \<times> bytes) list \<Rightarrow> nat \<Rightarrow> byte \<Rightarrow> unit_test" where
  \<comment> \<open>\<open>assert_eq!(shards[i].0, t)\<close>\<close>
  "check_type shards i t = rbind (rget shards i) (\<lambda>s. check (fst s = t))"

definition test_sender_buffers_then_flushes :: "rs_lib \<Rightarrow> unit_test" where
  "test_sender_buffers_then_flushes rs =
     rbind (fec_sender_new (shards_cfg 4 2)) (\<lambda>sender.
     rbind (submit rs (replicate 100 1) sender) (\<lambda>(r, sender).
     rbind (check (r = None)) (\<lambda>_.
     rbind (submit rs (replicate 100 2) sender) (\<lambda>(r, sender).
     rbind (check (r = None)) (\<lambda>_.
     rbind (submit rs (replicate 100 3) sender) (\<lambda>(r, sender).
     rbind (check_each [r = None, buffered_count sender = 3]) (\<lambda>_.
     rbind (submit rs (replicate 100 4) sender) (\<lambda>(r, sender).
     rbind (unwrap r) (\<lambda>shards.
     rbind (check_each [length shards = 6, buffered_count sender = 0]) (\<lambda>_.
     for_each (\<lambda>(i, t). check_type shards i t)
       [(0, PACKET_DATA), (3, PACKET_DATA), (4, PACKET_PARITY), (5, PACKET_PARITY)]))))))))))"

definition test_sender_partial_flush :: "rs_lib \<Rightarrow> unit_test" where
  "test_sender_partial_flush rs =
     rbind (fec_sender_new (shards_cfg 4 2)) (\<lambda>sender.
     rbind (submit rs (replicate 50 1) sender) (\<lambda>(_, sender).
     rbind (submit rs (replicate 50 2) sender) (\<lambda>(_, sender).
     rbind (check (buffered_count sender = 2)) (\<lambda>_.
     rbind (flush_partial rs sender) (\<lambda>(r, sender).
     rbind (unwrap r) (\<lambda>shards.
     check_each [length shards = 6, buffered_count sender = 0]))))))"

fun submit_each ::
    "rs_lib \<Rightarrow> bytes list \<Rightarrow> fec_sender \<Rightarrow> (byte \<times> bytes) list \<Rightarrow> ((byte \<times> bytes) list \<times> fec_sender) outcome" where
  \<comment> \<open>the loop that submits every payload and keeps the shards of the last block\<close>
  "submit_each rs [] sender all_shards = Inr (all_shards, sender)"
| "submit_each rs (p # ps) sender all_shards =
     rbind (submit rs p sender) (\<lambda>(r, sender).
     submit_each rs ps sender (case r of None \<Rightarrow> all_shards | Some shards \<Rightarrow> shards))"

fun receive_each ::
    "rs_lib \<Rightarrow> (nat \<Rightarrow> instant) \<Rightarrow> nat \<Rightarrow> (byte \<times> bytes) list \<Rightarrow> fec_receiver \<Rightarrow> bytes list option \<Rightarrow> bytes list option outcome" where
  \<comment> \<open>the loop that delivers every shard and keeps the last result\<close>
  "receive_each rs clock n [] receiver result = Inr result"
| "receive_each rs clock n ((_, shard) # shards) receiver result =
     rbind (receive_shard rs (clock n) shard receiver) (\<lambda>(r, receiver).
     receive_each rs clock (Suc n) shards receiver (case r of None \<Rightarrow> result | Some _ \<Rightarrow> r))"

definition check_recovered :: "bytes list \<Rightarrow> bytes list \<Rightarrow> unit_test" where
  \<comment> \<open>the loop that compares the recovered payloads with the original ones\<close>
  "check_recovered payloads recovered =
     for_each (\<lambda>(i, p). rbind (rget payloads i) (\<lambda>q. check (p = q))) (List.enumerate 0 recovered)"

definition test_full_encode_decode_no_loss :: "rs_lib \<Rightarrow> (nat \<Rightarrow> instant) \<Rightarrow> unit_test" where
  "test_full_encode_decode_no_loss rs clock =
     (let payloads = map (\<lambda>i. replicate 80 (word_of_nat i + 10)) [0..<4]
      in rbind (fec_sender_new (shards_cfg 4 2)) (\<lambda>sender.
         rbind (submit_each rs payloads sender []) (\<lambda>(all_shards, _).
         rbind (check (length all_shards = 6)) (\<lambda>_.
         rbind (receive_each rs clock 0 all_shards fec_receiver_new None) (\<lambda>result.
         rbind (unwrap result) (\<lambda>recovered.
         rbind (check (length recovered = 4)) (\<lambda>_.
         check_recovered payloads recovered)))))))"

definition test_encode_decode_with_loss :: "rs_lib \<Rightarrow> (nat \<Rightarrow> instant) \<Rightarrow> unit_test" where
  "test_encode_decode_with_loss rs clock =
     (let payloads = map (\<lambda>i. replicate 60 (word_of_nat i + 20)) [0..<4]
      in rbind (fec_sender_new (shards_cfg 4 2)) (\<lambda>sender.
         rbind (submit_each rs payloads sender []) (\<lambda>(all_shards, _).
         let surviving = map snd (filter (\<lambda>(i, _). i \<noteq> 0 \<and> i \<noteq> 2) (List.enumerate 0 all_shards))
         in rbind (check (length surviving = 4)) (\<lambda>_.
            rbind (receive_each rs clock 0 surviving fec_receiver_new None) (\<lambda>result.
            rbind (unwrap result) (\<lambda>recovered.
            rbind (check (length recovered = 4)) (\<lambda>_.
            check_recovered payloads recovered)))))))"

definition test_too_many_lost_returns_none :: "rs_lib \<Rightarrow> (nat \<Rightarrow> instant) \<Rightarrow> unit_test" where
  "test_too_many_lost_returns_none rs clock =
     rbind (fec_sender_new (shards_cfg 4 2)) (\<lambda>sender.
     rbind (submit_each rs (map (\<lambda>i. replicate 50 (word_of_nat i)) [0..<4]) sender []) (\<lambda>(all_shards, _).
       let surviving = drop 3 all_shards
       in rbind (check (length surviving = 3)) (\<lambda>_.
          rbind (receive_each rs clock 0 surviving fec_receiver_new None) (\<lambda>result.
          check (result = None)))))"

lemma test_shard_header_roundtrip_pass: "test_shard_header_roundtrip = Inr ()"
  using decode_shard_header_bytes [of 1234 5 10 4 800 "[]"]
  by (simp add: test_shard_header_roundtrip_def encode_shard_header_ok SHARD_HEADER_SIZE_def test_simps)

text \<open>Four payloads fill a block; before that they are kept.\<close>

lemma submit_keeps:
  assumes "Suc (length (snd_buffer s)) < data_shards (snd_config s)"
  shows "submit rs p s = Inr (None, s\<lparr>snd_payload_lens := snd_payload_lens s @ [word_of_nat (length p)],
    snd_buffer := snd_buffer s @ [p]\<rparr>)"
  using assms by (simp add: submit_def Let_def)

lemma submit_fills:
  assumes law: "rs_lawful rs d q" and cfg: "snd_config s = shards_cfg d q"
    and full: "Suc (length (snd_buffer s)) = d"
  obtains ys where "codeword rs d q (snd_buffer s @ [p]) ys"
    and "submit rs p s = Inr (Some (map (shard_frame (shards_cfg d q) (snd_block_id s) ys) [0..<d + q]),
      s\<lparr>snd_block_id := snd_block_id s + 1, snd_buffer := [], snd_payload_lens := []\<rparr>)"
proof -
  let ?s = "s\<lparr>snd_payload_lens := snd_payload_lens s @ [word_of_nat (length p)], snd_buffer := snd_buffer s @ [p]\<rparr>"
  have s: "snd_config ?s = shards_cfg d q" "snd_buffer ?s \<noteq> []" "length (snd_buffer ?s) \<le> d"
    using cfg full by simp_all
  obtain ys where "codeword rs d q (snd_buffer ?s) ys"
    and "flush rs ?s = Inr (map (shard_frame (shards_cfg d q) (snd_block_id ?s) ys) [0..<d + q],
      ?s\<lparr>snd_block_id := snd_block_id ?s + 1, snd_buffer := [], snd_payload_lens := []\<rparr>)"
    using flush_ok [OF law s] .
  then show thesis
    using cfg full by (intro that [of ys]) (simp_all add: submit_def Let_def del: upt_Suc)
qed

lemma four_payloads:
  assumes law: "rs_lawful rs 4 2" and bs: "length bs = 4" "list_all payload_ok bs"
  obtains ys s where "codeword rs 4 2 bs ys"
    and "submit_each rs bs (empty_sender (shards_cfg 4 2)) [] = Inr (map (shard_frame (shards_cfg 4 2) 0 ys) [0..<6], s)"
proof -
  from bs(1) obtain a b c d where bs': "bs = [a, b, c, d]" by (auto simp: eval_nat_numeral length_Suc_conv)
  let ?s = "(empty_sender (shards_cfg 4 2))\<lparr>snd_buffer := [a, b, c],
    snd_payload_lens := [word_of_nat (length a), word_of_nat (length b), word_of_nat (length c)]\<rparr>"
  have s: "snd_config ?s = shards_cfg 4 2" "Suc (length (snd_buffer ?s)) = 4" "snd_block_id ?s = 0"
    by (simp_all add: empty_sender_def)
  obtain ys where ys: "codeword rs 4 2 (snd_buffer ?s @ [d]) ys"
    "submit rs d ?s = Inr (Some (map (shard_frame (shards_cfg 4 2) (snd_block_id ?s) ys) [0..<4 + 2]),
      ?s\<lparr>snd_block_id := snd_block_id ?s + 1, snd_buffer := [], snd_payload_lens := []\<rparr>)"
    using submit_fills [OF law s(1,2)] .
  have "submit_each rs bs (empty_sender (shards_cfg 4 2)) [] = rbind (submit rs d ?s) (\<lambda>(r, sender).
      Inr (case r of None \<Rightarrow> [] | Some shards \<Rightarrow> shards, sender))"
    by (simp add: bs' submit_keeps empty_sender_def cong: option.case_cong)
  with ys show thesis unfolding s(3) by (intro that) (auto simp: bs')
qed

lemma receive_each_last:
  "receive_all rs (zip (map clock [n..<n + length shards]) (map snd shards)) r = Inr (outs, r') \<Longrightarrow>
   receive_each rs clock n shards r result =
     Inr (case filter (\<lambda>x. x \<noteq> None) outs of [] \<Rightarrow> result | xs \<Rightarrow> last xs)"
proof (induction shards arbitrary: n r outs result)
  case Nil
  then show ?case by simp
next
  case (Cons s shards)
  have "[n..<n + length (s # shards)] = n # [Suc n..<Suc n + length shards]"
    using upt_conv_Cons [of n "n + Suc (length shards)"] by simp
  from Cons.prems [unfolded this] obtain o1 r1 outs1 where "receive_shard rs (clock n) (snd s) r = Inr (o1, r1)"
    "receive_all rs (zip (map clock [Suc n..<Suc n + length shards]) (map snd shards)) r1 = Inr (outs1, r')"
    "outs = o1 # outs1"
    by (auto simp: rbind_eq_Inr_iff simp del: upt_Suc)
  with Cons.IH [of "Suc n" r1 outs1] show ?case
    by (cases s) (auto split: option.splits list.splits)
qed

text \<open>Delivering the frames \<open>is\<close> of one block, all different, gives its payloads if there are four.\<close>

lemma receive_each_block:
  assumes code: "codeword rs 4 2 bs ys" and pay: "list_all payload_ok bs"
    and js: "distinct js" "set js \<subseteq> {..<6}"
  shows "receive_each rs clock n (map (shard_frame (shards_cfg 4 2) 0 ys) js) fec_receiver_new None =
    Inr (if 4 \<le> length js then Some bs else None)"
proof -
  let ?as = "zip (map clock [n..<n + length js]) js"
  have as: "map snd ?as = js" "length ?as = length js" by simp_all
  have fresh: "dm_get (rcv_blocks fec_receiver_new) 0 = None" by (simp add: fec_receiver_new_def)
  have "distinct (map snd ?as)" "set (map snd ?as) \<subseteq> {..<4 + 2}" unfolding as using js by simp_all
  then obtain outs r' where
    "receive_all rs (map (\<lambda>(t, i). (t, snd (shard_frame (shards_cfg 4 2) 0 ys i))) ?as) fec_receiver_new = Inr (outs, r')"
    and outs: "filter (\<lambda>x. x \<noteq> None) outs = replicate (length ?as div 4) (Some bs)"
    using block_deliveries [OF code pay fresh] by blast
  moreover have "map (\<lambda>(t, i). (t, snd (shard_frame (shards_cfg 4 2) 0 ys i))) ?as =
      zip (map clock [n..<n + length (map (shard_frame (shards_cfg 4 2) 0 ys) js)])
        (map snd (map (shard_frame (shards_cfg 4 2) 0 ys) js))"
    by (simp add: zip_map2 comp_def)
  ultimately have r: "receive_each rs clock n (map (shard_frame (shards_cfg 4 2) 0 ys) js) fec_receiver_new None =
      Inr (case replicate (length js div 4) (Some bs) of [] \<Rightarrow> None | xs \<Rightarrow> last xs)"
    using receive_each_last [of rs clock n "map (shard_frame (shards_cfg 4 2) 0 ys) js" fec_receiver_new outs r' None]
    by (simp only: outs as)
  have "length js \<le> card {..<6 :: nat}" using js by (metis card_mono distinct_card finite_lessThan)
  then have "length js div 4 = (if 4 \<le> length js then 1 else 0)" by auto
  then show ?thesis unfolding r by simp
qed

lemma check_recovered_same: "check_recovered payloads payloads = Inr ()"
  by (auto simp: check_recovered_def test_simps in_set_enumerate_eq rget_def)

lemma payload_ok_replicate: "list_all payload_ok (map (\<lambda>i. replicate 80 (f i)) [0..<4])"
    "list_all payload_ok (map (\<lambda>i. replicate 60 (f i)) [0..<4])"
    "list_all payload_ok (map (\<lambda>i. replicate 50 (f i)) [0..<4])"
  by (auto simp: list_all_iff payload_ok_def)

lemma six: "[0..<6] = [0, 1, 2, 3, 4, 5]" "drop 3 [0..<6] = [3, 4, 5]"
  by (simp_all add: upt_rec eval_nat_numeral)

lemma receiver_tests_pass:
  assumes law: "rs_lawful rs 4 2"
  shows "test_full_encode_decode_no_loss rs clock = Inr ()" and "test_encode_decode_with_loss rs clock = Inr ()"
    and "test_too_many_lost_returns_none rs clock = Inr ()"
proof -
  let ?F = "shard_frame (shards_cfg 4 2) 0"
  have frames: "map (shard_frame (shards_cfg 4 2) 0 ys) [0..<6] = [?F ys 0, ?F ys 1, ?F ys 2, ?F ys 3, ?F ys 4, ?F ys 5]" for ys
    by (simp only: six list.map)
  let ?b80 = "map (\<lambda>i. replicate 80 (word_of_nat i + 10)) [0..<4] :: bytes list"
  obtain ys s where b80: "codeword rs 4 2 ?b80 ys"
    "submit_each rs ?b80 (empty_sender (shards_cfg 4 2)) [] = Inr (map (?F ys) [0..<6], s)"
    by (rule four_payloads [OF law _ payload_ok_replicate(1)]) simp_all
  have "receive_each rs clock 0 (map (?F ys) [0..<6]) fec_receiver_new None = Inr (Some ?b80)"
    using receive_each_block [OF b80(1) payload_ok_replicate(1), of "[0..<6]"] by (simp add: lessThan_atLeast0)
  with b80(2) show "test_full_encode_decode_no_loss rs clock = Inr ()"
    by (simp add: fec_sender_new_eq test_full_encode_decode_no_loss_def Let_def check_recovered_same del: upt_Suc upt_rec_numeral list.map)
  let ?b60 = "map (\<lambda>i. replicate 60 (word_of_nat i + 20)) [0..<4] :: bytes list"
  obtain ys s where b60: "codeword rs 4 2 ?b60 ys"
    "submit_each rs ?b60 (empty_sender (shards_cfg 4 2)) [] = Inr (map (?F ys) [0..<6], s)"
    by (rule four_payloads [OF law _ payload_ok_replicate(2)]) simp_all
  have "receive_each rs clock 0 (map (?F ys) [1, 3, 4, 5]) fec_receiver_new None = Inr (Some ?b60)"
    using receive_each_block [OF b60(1) payload_ok_replicate(2), of "[1, 3, 4, 5]"] by simp
  moreover have "map snd (filter (\<lambda>(i, _). i \<noteq> 0 \<and> i \<noteq> 2) (List.enumerate 0 (map (?F ys) [0..<6]))) =
      map (?F ys) [1, 3, 4, 5]"
    unfolding frames by (simp add: enumerate_eq_zip)
  ultimately show "test_encode_decode_with_loss rs clock = Inr ()"
    using b60(2)
    by (simp add: fec_sender_new_eq test_encode_decode_with_loss_def Let_def check_recovered_same del: upt_Suc upt_rec_numeral list.map length_map)
      simp
  let ?b50 = "map (\<lambda>i. replicate 50 (word_of_nat i)) [0..<4] :: bytes list"
  obtain ys s where b50: "codeword rs 4 2 ?b50 ys"
    "submit_each rs ?b50 (empty_sender (shards_cfg 4 2)) [] = Inr (map (?F ys) [0..<6], s)"
    by (rule four_payloads [OF law _ payload_ok_replicate(3)]) simp_all
  have "receive_each rs clock 0 (map (?F ys) [3, 4, 5]) fec_receiver_new None = Inr None"
    using receive_each_block [OF b50(1) payload_ok_replicate(3), of "[3, 4, 5]"] by simp
  moreover have "drop 3 (map (?F ys) [0..<6]) = map (?F ys) [3, 4, 5]" by (simp only: drop_map six(2))
  ultimately show "test_too_many_lost_returns_none rs clock = Inr ()"
    using b50(2) by (simp add: fec_sender_new_eq test_too_many_lost_returns_none_def Let_def del: upt_Suc upt_rec_numeral list.map)
qed

lemma sender_tests_pass:
  assumes law: "rs_lawful rs 4 2"
  shows "test_sender_buffers_then_flushes rs = Inr ()" and "test_sender_partial_flush rs = Inr ()"
proof -
  have six_frames: "rget (map (shard_frame (shards_cfg 4 2) k ys) [0..<6]) i = Inr (shard_frame (shards_cfg 4 2) k ys i)"
    if "i < 6" for k ys i
    using that by (simp add: rget_def del: upt_Suc upt_rec_numeral)
  let ?s3 = "(empty_sender (shards_cfg 4 2))\<lparr>snd_buffer := [replicate 100 1, replicate 100 2, replicate 100 3],
    snd_payload_lens := [100, 100, 100]\<rparr>"
  have s3: "snd_config ?s3 = shards_cfg 4 2" "Suc (length (snd_buffer ?s3)) = 4"
    by (simp_all add: empty_sender_def)
  obtain ys where "submit rs (replicate 100 4) ?s3 =
      Inr (Some (map (shard_frame (shards_cfg 4 2) (snd_block_id ?s3) ys) [0..<4 + 2]),
        ?s3\<lparr>snd_block_id := snd_block_id ?s3 + 1, snd_buffer := [], snd_payload_lens := []\<rparr>)"
    using submit_fills [OF law s3] by blast
  then show "test_sender_buffers_then_flushes rs = Inr ()"
    by (simp add: fec_sender_new_eq test_sender_buffers_then_flushes_def submit_keeps empty_sender_def buffered_count_def test_simps
        rbind_eq_Inr_iff check_type_def six_frames shard_frame_def del: upt_Suc upt_rec_numeral list.map)
  let ?s2 = "(empty_sender (shards_cfg 4 2))\<lparr>snd_buffer := [replicate 50 1, replicate 50 2],
    snd_payload_lens := [50, 50]\<rparr>"
  have s2: "snd_config ?s2 = shards_cfg 4 2" "snd_buffer ?s2 \<noteq> []" "length (snd_buffer ?s2) \<le> 4"
    by (simp_all add: empty_sender_def)
  obtain ys where "flush rs ?s2 = Inr (map (shard_frame (shards_cfg 4 2) (snd_block_id ?s2) ys) [0..<4 + 2],
      ?s2\<lparr>snd_block_id := snd_block_id ?s2 + 1, snd_buffer := [], snd_payload_lens := []\<rparr>)"
    using flush_ok [OF law s2] by blast
  then show "test_sender_partial_flush rs = Inr ()"
    by (simp add: fec_sender_new_eq test_sender_partial_flush_def submit_keeps empty_sender_def buffered_count_def test_simps
        flush_partial_def del: upt_Suc upt_rec_numeral list.map)
qed

definition fec_shard_tests :: "rs_lib \<Rightarrow> (nat \<Rightarrow> instant) \<Rightarrow> unit_test list" where
  "fec_shard_tests rs clock = [test_encode_decode_no_loss rs, test_recover_from_loss rs, test_too_many_lost_fails rs,
     test_shard_header_roundtrip, test_sender_buffers_then_flushes rs, test_sender_partial_flush rs,
     test_full_encode_decode_no_loss rs clock, test_encode_decode_with_loss rs clock,
     test_too_many_lost_returns_none rs clock]"

lemma fec_shard_tests_pass: "rs_lawful rs 4 2 \<Longrightarrow> list_all (\<lambda>t. t = Inr ()) (fec_shard_tests rs clock)"
  by (simp add: fec_shard_tests_def reed_solomon_tests_pass test_shard_header_roundtrip_pass sender_tests_pass
      receiver_tests_pass)

end
