(* ===== verification/Mesh_Tests.thy ===== *)
theory Mesh_Tests
  imports Test_Asserts Probe Router_Correct
begin

text \<open>
  The unit tests of \<open>src/mesh/\<close> (the \<open>mod tests\<close> of \<open>latency_matrix.rs\<close>, \<open>probe.rs\<close> and \<open>router.rs\<close>),
  translated statement by statement and proved to pass on the model, whatever the clock shows.  A
  \<open>Duration\<close> of \<open>n\<close> milliseconds is \<open>n * 10^6\<close> nanoseconds.  The router tests run with the heap that
  returns the first of the cheapest entries.
\<close>

definition from_millis :: "nat \<Rightarrow> duration" where
  "from_millis n = n * 1000000"

definition as_millis :: "duration \<Rightarrow> nat" where
  "as_millis d = d div 1000000"

section \<open>Latency matrix\<close>

definition test_update_and_query :: "instant \<Rightarrow> unit_test" where
  "test_update_and_query now =
     (let m = matrix_update now ''syd'' ''sgp'' (from_millis 50) matrix_new
      in rbind (unwrap (get_rtt m ''syd'' ''sgp'')) (\<lambda>rtt.
         check_each [rtt = from_millis 50, get_rtt m ''sgp'' ''syd'' = None]))"

definition test_ewma_smoothing :: "instant \<Rightarrow> instant \<Rightarrow> unit_test" where
  "test_ewma_smoothing t1 t2 =
     (let m = matrix_update t1 ''a'' ''b'' (from_millis 100) matrix_new;
          m = matrix_update t2 ''a'' ''b'' (from_millis 200) m
      in rbind (unwrap (get_rtt m ''a'' ''b'')) (\<lambda>rtt.
         check (112 \<le> as_millis rtt \<and> as_millis rtt \<le> 113)))"

definition test_all_edges_and_nodes :: "instant \<Rightarrow> instant \<Rightarrow> unit_test" where
  "test_all_edges_and_nodes t1 t2 =
     (let m = matrix_update t1 ''syd'' ''sgp'' (from_millis 50) matrix_new;
          m = matrix_update t2 ''sgp'' ''lon'' (from_millis 80) m
      in rbind (check (path_count m = 2)) (\<lambda>_.
         let nodes = matrix_nodes m
         in check_each [''syd'' \<in> set nodes, ''sgp'' \<in> set nodes, ''lon'' \<in> set nodes]))"

definition test_jitter_tracking :: "instant \<Rightarrow> instant \<Rightarrow> unit_test" where
  "test_jitter_tracking t1 t2 =
     (let m = matrix_update t1 ''a'' ''b'' (from_millis 100) matrix_new
      in rbind (unwrap (dm_get m (''a'', ''b''))) (\<lambda>entry.
         rbind (check (jitter entry = 0)) (\<lambda>_.
         let m = matrix_update t2 ''a'' ''b'' (from_millis 200) m
         in rbind (unwrap (dm_get m (''a'', ''b''))) (\<lambda>entry.
            check (0 < jitter entry)))))"

definition test_multiple_ewma_convergence :: "(nat \<Rightarrow> instant) \<Rightarrow> unit_test" where
  "test_multiple_ewma_convergence clock =
     (let m = fold (\<lambda>i. matrix_update (clock i) ''x'' ''y'' (from_millis 100)) [0..<50] matrix_new
      in rbind (unwrap (get_rtt m ''x'' ''y'')) (\<lambda>rtt.
         check (as_millis rtt = 100)))"

definition test_unknown_path_returns_none :: unit_test where
  "test_unknown_path_returns_none = check (get_rtt matrix_new ''no'' ''path'' = None)"

definition matrix_tests :: "(nat \<Rightarrow> instant) \<Rightarrow> unit_test list" where
  "matrix_tests clock = [test_update_and_query (clock 0), test_ewma_smoothing (clock 0) (clock 1),
     test_all_edges_and_nodes (clock 0) (clock 1), test_jitter_tracking (clock 0) (clock 1),
     test_multiple_ewma_convergence clock, test_unknown_path_returns_none]"

lemma matrix_tests_pass: "list_all (\<lambda>t. t = Inr ()) (matrix_tests clock)"
proof -
  have e: "entry_modify t 200000000 (entry_new t0 100000000) =
      \<lparr>smoothed_rtt = 112500000, jitter = 12500000, last_updated = t, samples = 2\<rparr>" for t t0
    using entry_modify_exact [of 200000000 "entry_new t0 100000000" t]
    by (simp add: entry_new_def as_micros_def from_micros_def ewma8_def dist_nat_def)
  have s: "smoothed_rtt (entry_modify t 100000000 x) = 100000000 \<and> usual (entry_modify t 100000000 x)"
    if "smoothed_rtt x = 100000000" "usual x" for t x
    using that entry_modify_exact [of 100000000 x t] entry_modify_usual [of x 100000000 t]
    by (simp add: as_micros_def from_micros_def ewma8_def usual_def)
  have "\<exists>x. get_entry (fold (\<lambda>i. matrix_update (c i) ''x'' ''y'' 100000000) is m) ''x'' ''y'' = Some x \<and>
      smoothed_rtt x = 100000000" if "get_entry m ''x'' ''y'' = Some x0" "smoothed_rtt x0 = 100000000" "usual x0"
    for c :: "nat \<Rightarrow> instant" and "is" and m :: latency_matrix and x0
    using that
  proof (induction "is" arbitrary: m x0)
    case Nil
    then show ?case by simp
  next
    case (Cons i "is")
    have "get_entry (matrix_update (c i) ''x'' ''y'' 100000000 m) ''x'' ''y'' = Some (entry_modify (c i) 100000000 x0)"
      using Cons.prems(1) by (simp add: get_entry_update)
    from Cons.IH [OF this] s [OF Cons.prems(2,3)] show ?case by simp
  qed
  note same = this
  have first: "get_entry (matrix_update (clock 0) ''x'' ''y'' 100000000 matrix_new) ''x'' ''y'' =
      Some (entry_new (clock 0) 100000000)"
    by (simp add: get_entry_update) (simp add: get_entry_def matrix_new_def)
  have "smoothed_rtt (entry_new (clock 0) 100000000) = 100000000" "usual (entry_new (clock 0) 100000000)"
    by (simp_all add: usual_new as_micros_def) (simp add: entry_new_def)
  from same [OF first this, of clock "[Suc 0..<50]"]
  have "\<exists>x. get_entry (fold (\<lambda>i. matrix_update (clock i) ''x'' ''y'' 100000000) [0..<50] matrix_new) ''x'' ''y'' = Some x \<and>
      smoothed_rtt x = 100000000"
    by (simp add: upt_conv_Cons [of 0 50] del: upt_rec_numeral)
  then have "test_multiple_ewma_convergence clock = Inr ()"
    by (auto simp: test_multiple_ewma_convergence_def from_millis_def as_millis_def get_rtt_entry test_simps
        simp del: upt_rec_numeral)
  then show ?thesis
    by (simp add: matrix_tests_def test_update_and_query_def test_ewma_smoothing_def test_all_edges_and_nodes_def
        test_jitter_tracking_def test_unknown_path_returns_none_def from_millis_def as_millis_def test_simps
        matrix_update_def matrix_new_def get_rtt_def dm_get_def dm_insert_def entry_new_def [symmetric] e Let_def
        path_count_def matrix_nodes_def) (simp add: entry_new_def)
qed

section \<open>Probes\<close>

definition make_prober :: prober where
  "make_prober = prober_new ''local'' matrix_new"

definition probe_id_of :: "bytes \<Rightarrow> u32 outcome" where
  \<comment> \<open>\<open>u32::from_le_bytes([p[0], p[1], p[2], p[3]])\<close>\<close>
  "probe_id_of p =
     rbind (rget p 0) (\<lambda>a. rbind (rget p 1) (\<lambda>b. rbind (rget p 2) (\<lambda>c. rbind (rget p 3) (\<lambda>d.
     Inr (u32_from_le [a, b, c, d])))))"

definition test_create_ping_returns_4_bytes :: "instant \<Rightarrow> unit_test" where
  "test_create_ping_returns_4_bytes now =
     (case create_ping now ''remote'' make_prober of (payload, _) \<Rightarrow> check (length payload = 4))"

definition test_ping_ids_increment :: "instant \<Rightarrow> instant \<Rightarrow> unit_test" where
  "test_ping_ids_increment t1 t2 =
     (case create_ping t1 ''a'' make_prober of (p1, p) \<Rightarrow>
      case create_ping t2 ''b'' p of (p2, _) \<Rightarrow>
        rbind (probe_id_of p1) (\<lambda>id1. rbind (probe_id_of p2) (\<lambda>id2. check (id2 = id1 + 1))))"

definition test_create_pong_echoes_payload :: unit_test where
  "test_create_pong_echoes_payload = check (create_pong [1, 2, 3, 4] = [1, 2, 3, 4])"

definition test_handle_pong_updates_matrix :: "instant \<Rightarrow> instant \<Rightarrow> unit_test" where
  "test_handle_pong_updates_matrix t1 t2 =
     (case create_ping t1 ''remote'' make_prober of (ping, p) \<Rightarrow>
      let p = handle_pong t2 ''remote'' ping p
      in check_each [get_rtt (pr_matrix p) ''local'' ''remote'' \<noteq> None,
           get_rtt (pr_matrix p) ''remote'' ''local'' \<noteq> None])"

definition test_handle_pong_unknown_probe_id_ignored :: "instant \<Rightarrow> unit_test" where
  "test_handle_pong_unknown_probe_id_ignored now =
     (let p = handle_pong now ''remote'' (u32_to_le 999) make_prober
      in check (get_rtt (pr_matrix p) ''local'' ''remote'' = None))"

definition test_handle_pong_short_payload_ignored :: "instant \<Rightarrow> unit_test" where
  "test_handle_pong_short_payload_ignored now =
     (let p = handle_pong now ''remote'' [1, 2, 3] make_prober
      in check (get_rtt (pr_matrix p) ''local'' ''remote'' = None))"

definition test_pending_count_tracks_outstanding :: "instant \<Rightarrow> instant \<Rightarrow> instant \<Rightarrow> unit_test" where
  "test_pending_count_tracks_outstanding t1 t2 t3 =
     rbind (check (pending_count make_prober = 0)) (\<lambda>_.
     case create_ping t1 ''a'' make_prober of (ping1, p) \<Rightarrow>
     case create_ping t2 ''b'' p of (_, p) \<Rightarrow>
       rbind (check (pending_count p = 2)) (\<lambda>_.
       check (pending_count (handle_pong t3 ''a'' ping1 p) = 1)))"

definition probe_tests :: "(nat \<Rightarrow> instant) \<Rightarrow> unit_test list" where
  "probe_tests clock = [test_create_ping_returns_4_bytes (clock 0), test_ping_ids_increment (clock 0) (clock 1),
     test_create_pong_echoes_payload, test_handle_pong_updates_matrix (clock 0) (clock 1),
     test_handle_pong_unknown_probe_id_ignored (clock 0), test_handle_pong_short_payload_ignored (clock 0),
     test_pending_count_tracks_outstanding (clock 0) (clock 1) (clock 2)]"

lemma probe_id_of_le: "probe_id_of (u32_to_le w) = Inr w"
  using u32_from_le_prefix [of w "[]"] by (simp add: probe_id_of_def rget_def)

lemma first_ping: "create_ping now peer make_prober =
    (u32_to_le 1, \<lparr>pr_node = ''local'', pr_matrix = matrix_new, pr_pending = [(1, peer, now)], pr_next_id = 2\<rparr>)"
  by (simp add: create_ping_def next_probe_def fetch_add_def make_prober_def prober_new_def dm_insert_def
      dm_retain_def PROBE_MAX_AGE_def)

lemma matrix_update_defined: "(\<exists>r'. get_rtt (matrix_update now a b r m) c d = Some r') \<longleftrightarrow>
    (c, d) = (a, b) \<or> (\<exists>r'. get_rtt m c d = Some r')"
  by (auto simp: get_rtt_entry get_entry_update)

text \<open>The test of \<open>pending_count\<close> needs its two pings to be sent within ten seconds.\<close>

lemma pending_count_test:
  "test_pending_count_tracks_outstanding t1 t2 t3 = Inr () \<longleftrightarrow> t2 - t1 < PROBE_MAX_AGE"
proof -
  let ?p1 = "\<lparr>pr_node = ''local'', pr_matrix = matrix_new, pr_pending = [(1, ''a'', t1)], pr_next_id = 2\<rparr>"
  define p2 where "p2 = \<lparr>pr_node = ''local'', pr_matrix = matrix_new,
    pr_pending = (if t2 - t1 < PROBE_MAX_AGE then [(1, ''a'', t1), (2, ''b'', t2)] else [(2, ''b'', t2)]), pr_next_id = 3\<rparr>"
  have ping2: "create_ping t2 ''b'' ?p1 = (u32_to_le 2, p2)"
    by (simp add: p2_def create_ping_def next_probe_def fetch_add_def dm_insert_def dm_retain_def PROBE_MAX_AGE_def)
  have "pending_count (handle_pong t3 ''a'' (u32_to_le 1) p2) = 1" if "t2 - t1 < PROBE_MAX_AGE"
    using that handle_pong_hit [of p2 1 "''a''" t1 t3 "''a''" "[]"]
    by (simp add: p2_def pending_count_def dm_get_def dm_remove_def)
  moreover have "pending_count p2 = 2 \<longleftrightarrow> t2 - t1 < PROBE_MAX_AGE" "pending_count make_prober = 0"
    by (simp_all add: p2_def pending_count_def make_prober_def prober_new_def)
  ultimately show ?thesis
    by (auto simp: test_pending_count_tracks_outstanding_def first_ping ping2 test_simps rbind_eq_Inr_iff)
qed

lemma probe_tests_pass:
  assumes "clock 1 - clock 0 < PROBE_MAX_AGE"
  shows "list_all (\<lambda>t. t = Inr ()) (probe_tests clock)"
proof -
  have hit: "dm_get (pr_pending (snd (create_ping (clock 0) ''remote'' make_prober))) 1 = Some (''remote'', clock 0)"
    by (simp add: first_ping dm_get_def)
  have "test_handle_pong_updates_matrix (clock 0) (clock 1) = Inr ()"
    using handle_pong_hit [OF hit, of "clock 1" "''remote''" "[]"]
    by (simp add: test_handle_pong_updates_matrix_def first_ping test_simps Let_def matrix_update_defined)
  moreover have "test_handle_pong_unknown_probe_id_ignored (clock 0) = Inr ()"
    using handle_pong_miss [of make_prober 999 "clock 0" "''remote''" "[]"]
    by (simp add: test_handle_pong_unknown_probe_id_ignored_def make_prober_def test_simps Let_def
        get_rtt_def dm_get_def matrix_new_def)
  moreover have "test_create_ping_returns_4_bytes (clock 0) = Inr ()"
    by (simp add: test_create_ping_returns_4_bytes_def first_ping u32_to_le_def)
  moreover have "test_ping_ids_increment (clock 0) (clock 1) = Inr ()"
    by (simp add: test_ping_ids_increment_def first_ping create_ping_def next_probe_def fetch_add_def probe_id_of_le)
  ultimately show ?thesis
    using assms pending_count_test [of "clock 0" "clock 1" "clock 2"]
    by (simp add: probe_tests_def test_create_pong_echoes_payload_def
        test_handle_pong_short_payload_ignored_def create_pong_def handle_pong_def make_prober_def
        get_rtt_def dm_get_def matrix_new_def)
qed

section \<open>Router\<close>

type_synonym millis_edges = "(node_name \<times> node_name \<times> nat) list"

fun measured :: "(nat \<Rightarrow> instant) \<Rightarrow> nat \<Rightarrow> millis_edges \<Rightarrow> latency_matrix \<Rightarrow> latency_matrix" where
  \<comment> \<open>a sequence of \<open>matrix.update(from, to, Duration::from_millis(ms))\<close>\<close>
  "measured clock n [] m = m"
| "measured clock n ((a, b, ms) # es) m =
     measured clock (Suc n) es (matrix_update (clock n) a b (from_millis ms) m)"

definition router_on :: "(nat \<Rightarrow> instant) \<Rightarrow> node_name \<Rightarrow> millis_edges \<Rightarrow> mesh_router" where
  "router_on clock local es = \<lparr>rt_local = local, rt_matrix = measured clock 0 es matrix_new\<rparr>"

definition with_route :: "dijkstra_state heap_pop \<Rightarrow> mesh_router \<Rightarrow> node_name \<Rightarrow> (route_entry \<Rightarrow> unit_test) \<Rightarrow> unit_test option" where
  \<comment> \<open>\<open>let route = router.next_hop(dest).unwrap()\<close>, then the assertions; \<open>None\<close> if the search does not return\<close>
  "with_route pop router dest body =
     map_option (\<lambda>run. rbind run (\<lambda>r. rbind (unwrap r) body)) (next_hop pop router dest)"

definition without_route :: "dijkstra_state heap_pop \<Rightarrow> mesh_router \<Rightarrow> node_name \<Rightarrow> unit_test option" where
  \<comment> \<open>\<open>assert!(router.next_hop(dest).is_none())\<close>\<close>
  "without_route pop router dest = map_option (\<lambda>run. rbind run (\<lambda>r. check (r = None))) (next_hop pop router dest)"

definition test_direct_route :: "dijkstra_state heap_pop \<Rightarrow> (nat \<Rightarrow> instant) \<Rightarrow> unit_test option" where
  "test_direct_route pop clock =
     with_route pop (router_on clock ''syd'' [(''syd'', ''sgp'', 50), (''sgp'', ''syd'', 50)]) ''sgp'' (\<lambda>route.
       check_each [next_hop_node route = ''sgp'', route_path route = [''syd'', ''sgp'']])"

definition test_multi_hop_shortest_path :: "dijkstra_state heap_pop \<Rightarrow> (nat \<Rightarrow> instant) \<Rightarrow> unit_test option" where
  "test_multi_hop_shortest_path pop clock =
     with_route pop (router_on clock ''syd'' [(''syd'', ''sgp'', 50), (''sgp'', ''lon'', 80), (''syd'', ''lon'', 200)]) ''lon''
       (\<lambda>route. check_each [next_hop_node route = ''sgp'', route_path route = [''syd'', ''sgp'', ''lon'']])"

definition test_no_route :: "dijkstra_state heap_pop \<Rightarrow> (nat \<Rightarrow> instant) \<Rightarrow> unit_test option" where
  "test_no_route pop clock = without_route pop (router_on clock ''syd'' [(''syd'', ''sgp'', 50)]) ''lon''"

definition test_self_route_is_none :: "dijkstra_state heap_pop \<Rightarrow> (nat \<Rightarrow> instant) \<Rightarrow> unit_test option" where
  "test_self_route_is_none pop clock = without_route pop (router_on clock ''syd'' []) ''syd''"

definition test_top_paths_returns_all_candidates :: "dijkstra_state heap_pop \<Rightarrow> (nat \<Rightarrow> instant) \<Rightarrow> unit_test option" where
  "test_top_paths_returns_all_candidates pop clock =
     map_option (\<lambda>paths.
       rbind (check (2 \<le> length paths)) (\<lambda>_.
       rbind (rget paths 0) (\<lambda>best. check (next_hop_node best = ''sgp''))))
     (top_paths pop
       (router_on clock ''syd'' [(''syd'', ''sgp'', 50), (''sgp'', ''lon'', 80), (''syd'', ''lon'', 200)]) ''lon'' 5)"

definition test_route_rtt_is_sum_of_hops :: "dijkstra_state heap_pop \<Rightarrow> (nat \<Rightarrow> instant) \<Rightarrow> unit_test option" where
  "test_route_rtt_is_sum_of_hops pop clock =
     with_route pop (router_on clock ''a'' [(''a'', ''b'', 10), (''b'', ''c'', 20)]) ''c''
       (\<lambda>route. check (total_rtt route = from_millis 30))"

definition router_tests :: "dijkstra_state heap_pop \<Rightarrow> (nat \<Rightarrow> instant) \<Rightarrow> unit_test option list" where
  "router_tests pop clock = [test_direct_route pop clock, test_multi_hop_shortest_path pop clock, test_no_route pop clock,
     test_self_route_is_none pop clock, test_top_paths_returns_all_candidates pop clock, test_route_rtt_is_sum_of_hops pop clock]"

lemmas router_test_eval = router_on_def with_route_def without_route_def next_hop_def dijkstra_def path_cost_def
  DURATION_END_def matrix_new_def matrix_update_def from_millis_def test_simps search_eval

text \<open>No heap of these searches holds two entries of equal cost, so that every heap returns the same.\<close>

lemma pop_few:
  assumes pop: "max_heap pop"
  shows "pop [x] = Some (x, [])"
    and "cost_us x < cost_us y \<Longrightarrow> pop [x, y] = Some (x, [y])"
    and "cost_us x < cost_us y \<Longrightarrow> pop [y, x] = Some (x, [y])"
proof -
  obtain z h where z: "pop [x] = Some (z, h)" using max_heap.pop_some [OF pop, of "[x]"] by auto
  then have "mset [x] = add_mset z (mset h)" by (rule max_heap.pop_mset [OF pop])
  then show "pop [x] = Some (x, [])" using z by (simp add: single_is_union)
  have two: "z = x \<and> h = [y]" if less: "cost_us x < cost_us y" and r: "pop ys = Some (z, h)" "mset ys = {#x, y#}" for z h ys
  proof -
    have m: "{#x, y#} = add_mset z (mset h)" using max_heap.pop_mset [OF pop r(1)] r(2) by simp
    have zx: "z = x"
    proof (rule ccontr)
      assume ne: "z \<noteq> x"
      with m have "x \<in># mset h" by (metis insert_noteq_member)
      then have "x \<le> z" using max_heap.pop_max [OF pop r(1)] by simp
      moreover have "z \<in># add_mset z (mset h)" by simp
      then have "z = y" using ne unfolding m [symmetric] by simp
      ultimately show False using less by (simp add: state_le_iff)
    qed
    with m have "mset h = {#y#}" by simp
    with zx show ?thesis by simp
  qed
  show "pop [x, y] = Some (x, [y])" if "cost_us x < cost_us y"
    using max_heap.pop_some [OF pop, of "[x, y]"] two [OF that, of "[x, y]"] by auto
  show "pop [y, x] = Some (x, [y])" if "cost_us x < cost_us y"
    using max_heap.pop_some [OF pop, of "[y, x]"] two [OF that, of "[y, x]"] by auto
qed

lemma router_tests_pass:
  assumes "max_heap pop"
  shows "list_all (\<lambda>t. t = Some (Inr ())) (router_tests pop clock)"
proof -
  have empty: "pop [] = None" using assms by (rule max_heap.pop_empty)
  note router_test_eval = router_test_eval pop_few [OF assms] empty
  have "test_direct_route pop clock = Some (Inr ())"
    by (simp add: test_direct_route_def router_test_eval)
  moreover have "test_multi_hop_shortest_path pop clock = Some (Inr ())"
    by (simp add: test_multi_hop_shortest_path_def router_test_eval)
  moreover have "test_no_route pop clock = Some (Inr ())"
    by (simp add: test_no_route_def router_test_eval)
  moreover have "test_self_route_is_none pop clock = Some (Inr ())"
    by (simp add: test_self_route_is_none_def router_test_eval)
  moreover have "test_top_paths_returns_all_candidates pop clock = Some (Inr ())"
    by (simp add: test_top_paths_returns_all_candidates_def top_paths_def neighbors_def dijkstra_via_def
        sort_key_def rget_def router_test_eval)
  moreover have "test_route_rtt_is_sum_of_hops pop clock = Some (Inr ())"
    by (simp add: test_route_rtt_is_sum_of_hops_def router_test_eval)
  ultimately show ?thesis by (simp add: router_tests_def)
qed

end
