(* ===== verification/Node_Tests.thy ===== *)
theory Node_Tests
  imports Test_Asserts Admin
begin

text \<open>
  The unit tests of \<open>src/config.rs\<close> and \<open>src/admin.rs\<close>, translated statement by statement and proved to
  pass on the model.  The base64 codec and the reading of header values as text are parameters with
  their documented behaviour on the inputs of the tests.
\<close>

section \<open>Configuration\<close>

record base64_codec =
  b64_encode :: "bytes \<Rightarrow> string"
  b64_decode :: base64_lib

definition base64_lawful :: "base64_codec \<Rightarrow> bool" where
  \<comment> \<open>decoding inverts encoding, and text with a character outside the alphabet does not decode\<close>
  "base64_lawful b64 \<longleftrightarrow> (\<forall>bs. b64_decode b64 (b64_encode b64 bs) = Some bs) \<and>
     (\<forall>s. CHR ''!'' \<in> set s \<longrightarrow> b64_decode b64 s = None)"

definition valid_key_b64 :: "base64_codec \<Rightarrow> string" where
  "valid_key_b64 b64 = b64_encode b64 (replicate 32 0xAB)"

definition minimal_config :: "base64_codec \<Rightarrow> (config \<Rightarrow> config) \<Rightarrow> config" where
  "minimal_config b64 overrides = overrides
     \<lparr>cfg_node_id = ''test-01'', cfg_region = ''test'',
      cfg_listen = \<lparr>lc_relay_addr = (0x7F000001, 4433), lc_tcp_addr = (0x7F000001, 8443),
        lc_quic_addr = (0x7F000001, 4434), lc_admin_addr = (0x7F000001, 9090), lc_admin_token = None,
        lc_tls_cert_path = None, lc_tls_key_path = None\<rparr>,
      cfg_mesh = \<lparr>mc_probe_interval_ms = 1000\<rparr>,
      cfg_relay = \<lparr>rc_default_dest = ''peer-01'', rc_fec_data_shards = None, rc_fec_parity_shards = None\<rparr>,
      cfg_peers = [\<lparr>pc_node_id = ''peer-01'', pc_region = ''remote'', pc_addr = (0x01020304, 4433),
        pc_shared_key = valid_key_b64 b64\<rparr>]\<rparr>"

definition passes_validation :: "base64_codec \<Rightarrow> (config \<Rightarrow> config) \<Rightarrow> unit_test" where
  "passes_validation b64 overrides = check (is_ok (validate (b64_decode b64) (minimal_config b64 overrides)))"

definition fails_with :: "base64_codec \<Rightarrow> (config \<Rightarrow> config) \<Rightarrow> string \<Rightarrow> unit_test" where
  \<comment> \<open>\<open>unwrap_err\<close>, then \<open>err.to_string().contains(needle)\<close>\<close>
  "fails_with b64 overrides needle =
     rbind (unwrap_err (validate (b64_decode b64) (minimal_config b64 overrides))) (\<lambda>err.
     check (str_contains needle (show_config_error err)))"

definition set_peer_key :: "string \<Rightarrow> config \<Rightarrow> config" where
  \<comment> \<open>\<open>c.peers[0].shared_key = key\<close>\<close>
  "set_peer_key key c = c\<lparr>cfg_peers := (cfg_peers c)[0 := (cfg_peers c ! 0)\<lparr>pc_shared_key := key\<rparr>]\<rparr>"

definition set_tls_paths :: "string option \<Rightarrow> string option \<Rightarrow> config \<Rightarrow> config" where
  "set_tls_paths cert key c = c\<lparr>cfg_listen := (cfg_listen c)\<lparr>lc_tls_cert_path := cert, lc_tls_key_path := key\<rparr>\<rparr>"

definition test_valid_config_passes :: "base64_codec \<Rightarrow> unit_test" where
  "test_valid_config_passes b64 = passes_validation b64 (\<lambda>c. c)"

definition test_empty_node_id_fails :: "base64_codec \<Rightarrow> unit_test" where
  "test_empty_node_id_fails b64 = fails_with b64 (\<lambda>c. c\<lparr>cfg_node_id := []\<rparr>) ''node_id''"

definition test_no_peers_fails :: "base64_codec \<Rightarrow> unit_test" where
  "test_no_peers_fails b64 = fails_with b64 (\<lambda>c. c\<lparr>cfg_peers := []\<rparr>) ''peer''"

definition test_bad_base64_key_fails :: "base64_codec \<Rightarrow> unit_test" where
  "test_bad_base64_key_fails b64 = fails_with b64 (set_peer_key ''not-valid-base64!!!'') ''base64''"

definition test_wrong_key_length_fails :: "base64_codec \<Rightarrow> unit_test" where
  "test_wrong_key_length_fails b64 = fails_with b64 (set_peer_key (b64_encode b64 (replicate 16 0))) ''32 bytes''"

definition test_tls_cert_without_key_fails :: "base64_codec \<Rightarrow> unit_test" where
  "test_tls_cert_without_key_fails b64 =
     fails_with b64 (set_tls_paths (Some ''/tmp/cert.pem'') None) ''tls_cert_path''"

definition test_tls_key_without_cert_fails :: "base64_codec \<Rightarrow> unit_test" where
  "test_tls_key_without_cert_fails b64 =
     fails_with b64 (set_tls_paths None (Some ''/tmp/key.pem'')) ''tls_key_path''"

definition test_tls_both_present_passes :: "base64_codec \<Rightarrow> unit_test" where
  "test_tls_both_present_passes b64 =
     passes_validation b64 (set_tls_paths (Some ''/tmp/cert.pem'') (Some ''/tmp/key.pem''))"

definition test_decode_key_roundtrip :: "base64_codec \<Rightarrow> unit_test" where
  "test_decode_key_roundtrip b64 =
     (let peer = \<lparr>pc_node_id = ''n'', pc_region = ''r'', pc_addr = (0x01020304, 5), pc_shared_key = valid_key_b64 b64\<rparr>
      in rbind (unwrap_ok (decode_key (b64_decode b64) peer)) (\<lambda>key. check (key = replicate 32 0xAB)))"

definition config_tests :: "base64_codec \<Rightarrow> unit_test list" where
  "config_tests b64 = [test_valid_config_passes b64, test_empty_node_id_fails b64, test_no_peers_fails b64,
     test_bad_base64_key_fails b64, test_wrong_key_length_fails b64, test_tls_cert_without_key_fails b64,
     test_tls_key_without_cert_fails b64, test_tls_both_present_passes b64, test_decode_key_roundtrip b64]"

lemma config_tests_pass:
  assumes b64: "base64_lawful b64"
  shows "list_all (\<lambda>t. t = Inr ()) (config_tests b64)"
proof -
  have dec: "b64_decode b64 (b64_encode b64 bs) = Some bs" for bs using b64 by (simp add: base64_lawful_def)
  have bad: "b64_decode b64 ''not-valid-base64!!!'' = None" using b64 by (simp add: base64_lawful_def)
  have says: "str_contains ''node_id'' (show_config_error (Config_Validation ''node_id cannot be empty''))"
    "str_contains ''peer'' (show_config_error (Config_Validation ''at least one peer required''))"
    "str_contains ''tls_cert_path'' (show_config_error (Config_Validation ''tls_cert_path set without tls_key_path''))"
    "str_contains ''tls_key_path'' (show_config_error (Config_Validation ''tls_key_path set without tls_cert_path''))"
    using str_contains_append [of "''node_id''" "''config validation: ''" "'' cannot be empty''"]
      str_contains_append [of "''peer''" "''config validation: at least one ''" "'' required''"]
      str_contains_append [of "''tls_cert_path''" "''config validation: ''" "'' set without tls_key_path''"]
      str_contains_append [of "''tls_key_path''" "''config validation: ''" "'' set without tls_cert_path''"]
    by (simp_all add: show_config_error_def)
  have peer: "str_contains ''base64'' (show_config_error (bad_base64 p))"
    "str_contains ''32 bytes'' (show_config_error (bad_key_length p n))" for p n
    using str_contains_append [of "''base64''" "''config validation: invalid ''" "'' shared_key for peer '' @ pc_node_id p"]
      str_contains_append [of "''32 bytes''" "''config validation: shared_key for peer '' @ pc_node_id p @ '' must be ''"
        "'' (got '' @ show_nat n @ '')''"]
    by (simp_all add: show_config_error_def bad_base64_def bad_key_length_def)
  show ?thesis
    by (simp add: config_tests_def test_valid_config_passes_def test_empty_node_id_fails_def test_no_peers_fails_def
        test_bad_base64_key_fails_def test_wrong_key_length_fails_def test_tls_cert_without_key_fails_def
        test_tls_key_without_cert_fails_def test_tls_both_present_passes_def test_decode_key_roundtrip_def
        passes_validation_def fails_with_def set_peer_key_def set_tls_paths_def minimal_config_def valid_key_b64_def
        validate_def decode_key_def dec bad says peer)
qed

section \<open>Admin endpoints\<close>

text \<open>A request is answered by the router alone; the state is the one \<open>test_state\<close> builds.\<close>

definition test_state :: "string option \<Rightarrow> admin_state" where
  \<comment> \<open>the receiving end of the local channel is dropped when the function returns\<close>
  "test_state token =
     (let matrix = matrix_new;
          prober = prober_new ''test-01'' matrix;
          fwd = (forwarder_new ''test-01'' ''test-01'' prober (shards_cfg 10 4))\<lparr>fw_local_open := False\<rparr>
      in \<lparr>as_node_id = ''test-01'', as_region = ''test'', as_matrix = matrix, as_forwarder = fwd,
          as_tcp = tcp_splitter_new ''peer'', as_quic = quic_acceptor_new ''peer'', as_token = token\<rparr>)"

definition get_request :: "string \<Rightarrow> string option \<Rightarrow> http_request" where
  \<comment> \<open>\<open>Request::get(path)\<close>, with an \<open>authorization\<close> header if given\<close>
  "get_request path auth =
     \<lparr>rq_method = ''GET'', rq_path = path, rq_authorization = map_option str_bytes auth\<rparr>"

definition resp_status :: "http_response \<Rightarrow> nat" where
  "resp_status r = (case r of Health_Ok _ \<Rightarrow> 200 | Status_Doc _ \<Rightarrow> 200 | Unauthorized \<Rightarrow> 401 | Server_Answer n \<Rightarrow> n)"

definition resp_text :: "http_response \<Rightarrow> bytes option" where
  "resp_text r = (case r of Health_Ok s \<Rightarrow> Some (str_bytes s) | _ \<Rightarrow> None)"

definition resp_json :: "http_response \<Rightarrow> status_doc option" where
  "resp_json r = (case r of Status_Doc d \<Rightarrow> Some d | _ \<Rightarrow> None)"

type_synonym http_server = "(bytes \<Rightarrow> string option) \<times> (http_request \<Rightarrow> nat)"

definition oneshot :: "http_server \<Rightarrow> string option \<Rightarrow> http_request \<Rightarrow> http_response" where
  "oneshot srv token req = (case srv of (to_str, other) \<Rightarrow> admin_router to_str other (test_state token) req)"

definition test_health_returns_ok :: "http_server \<Rightarrow> unit_test" where
  "test_health_returns_ok srv =
     (let resp = oneshot srv None (get_request ''/health'' None)
      in rbind (check (resp_status resp = 200)) (\<lambda>_.
         rbind (unwrap (resp_text resp)) (\<lambda>body. check (body = str_bytes ''ok''))))"

definition test_status_without_token_is_public :: "http_server \<Rightarrow> unit_test" where
  "test_status_without_token_is_public srv =
     check (resp_status (oneshot srv None (get_request ''/status'' None)) = 200)"

definition test_status_rejects_missing_token :: "http_server \<Rightarrow> unit_test" where
  "test_status_rejects_missing_token srv =
     check (resp_status (oneshot srv (Some ''secret'') (get_request ''/status'' None)) = 401)"

definition test_status_rejects_wrong_token :: "http_server \<Rightarrow> unit_test" where
  "test_status_rejects_wrong_token srv =
     check (resp_status (oneshot srv (Some ''secret'') (get_request ''/status'' (Some ''Bearer wrong''))) = 401)"

definition test_status_accepts_correct_token :: "http_server \<Rightarrow> unit_test" where
  "test_status_accepts_correct_token srv =
     check (resp_status (oneshot srv (Some ''secret'') (get_request ''/status'' (Some ''Bearer secret''))) = 200)"

definition test_status_body_contains_node_id :: "http_server \<Rightarrow> unit_test" where
  "test_status_body_contains_node_id srv =
     rbind (unwrap (resp_json (oneshot srv None (get_request ''/status'' None)))) (\<lambda>json.
     check_each [st_node_id json = ''test-01'', st_region json = ''test'', st_peers json = 0])"

definition admin_tests :: "http_server \<Rightarrow> unit_test list" where
  "admin_tests srv = [test_health_returns_ok srv, test_status_without_token_is_public srv,
     test_status_rejects_missing_token srv, test_status_rejects_wrong_token srv,
     test_status_accepts_correct_token srv, test_status_body_contains_node_id srv]"

definition reads_ascii :: "(bytes \<Rightarrow> string option) \<Rightarrow> bool" where
  \<comment> \<open>\<open>HeaderValue::to_str\<close> on visible ASCII\<close>
  "reads_ascii to_str \<longleftrightarrow>
     (\<forall>s. list_all (\<lambda>c. 32 \<le> (of_char c :: nat) \<and> (of_char c :: nat) < 127) s \<longrightarrow> to_str (str_bytes s) = Some s)"

lemma admin_tests_pass:
  assumes "reads_ascii to_str"
  shows "list_all (\<lambda>t. t = Inr ()) (admin_tests (to_str, other))"
proof -
  have "to_str (str_bytes ''Bearer wrong'') = Some ''Bearer wrong''"
    "to_str (str_bytes ''Bearer secret'') = Some ''Bearer secret''"
    by (rule assms [unfolded reads_ascii_def, rule_format], simp)+
  then show ?thesis
    by (simp add: admin_tests_def test_health_returns_ok_def test_status_without_token_is_public_def
        test_status_rejects_missing_token_def test_status_rejects_wrong_token_def test_status_accepts_correct_token_def
        test_status_body_contains_node_id_def oneshot_def get_request_def test_state_def admin_router_def
        auth_middleware_def health_def status_def resp_status_def resp_text_def resp_json_def Let_def test_simps
        peer_count_def forwarder_new_def)
qed

end
