(* ===== verification/Demo_Code.thy ===== *)
theory Demo_Code
  imports Fec_Block
begin

text \<open>
  A concrete Reed-Solomon code with four data and two parity shards, which shows that the contract
  \<open>rs_lawful\<close> can hold with more than one parity shard.  A byte is read as two interleaved elements of
  the field with 16 elements; \<open>gf_x\<close> multiplies both by \<open>x\<close>, modulo \<open>x^4 + x + 1\<close>.  The first parity byte
  is the sum of the four data bytes, the second weighs them with \<open>1\<close>, \<open>x\<close>, \<open>x^2\<close> and \<open>x^3\<close>.
\<close>

definition gf_x :: "byte \<Rightarrow> byte" where
  "gf_x w = xor (push_bit 2 w) (xor (drop_bit 6 w) (push_bit 2 (drop_bit 6 w)))"

lemma gf_x_xor: "gf_x (xor a b) = xor (gf_x a) (gf_x b)"
  by (simp add: gf_x_def push_bit_xor drop_bit_xor ac_simps)

lemma gf_x_bits:
  "bit (gf_x w) 0 \<longleftrightarrow> bit w 6" "bit (gf_x w) 1 \<longleftrightarrow> bit w 7"
  "bit (gf_x w) 2 \<longleftrightarrow> bit w 0 \<noteq> bit w 6" "bit (gf_x w) 3 \<longleftrightarrow> bit w 1 \<noteq> bit w 7"
  "bit (gf_x w) 4 \<longleftrightarrow> bit w 2" "bit (gf_x w) 5 \<longleftrightarrow> bit w 3"
  "bit (gf_x w) 6 \<longleftrightarrow> bit w 4" "bit (gf_x w) 7 \<longleftrightarrow> bit w 5"
proof -
  have out: "\<not> bit w n" if "8 \<le> n" for n using bit_imp_le_length [of w n] that by auto
  show "bit (gf_x w) 0 \<longleftrightarrow> bit w 6" "bit (gf_x w) 1 \<longleftrightarrow> bit w 7"
    "bit (gf_x w) 2 \<longleftrightarrow> bit w 0 \<noteq> bit w 6" "bit (gf_x w) 3 \<longleftrightarrow> bit w 1 \<noteq> bit w 7"
    "bit (gf_x w) 4 \<longleftrightarrow> bit w 2" "bit (gf_x w) 5 \<longleftrightarrow> bit w 3"
    "bit (gf_x w) 6 \<longleftrightarrow> bit w 4" "bit (gf_x w) 7 \<longleftrightarrow> bit w 5"
    using out by (simp_all add: gf_x_def bit_xor_iff bit_push_bit_iff bit_drop_bit_eq)
qed

lemma byte_eq_iff_bits: "v = (w :: byte) \<longleftrightarrow> (bit v 0 \<longleftrightarrow> bit w 0) \<and> (bit v 1 \<longleftrightarrow> bit w 1) \<and> (bit v 2 \<longleftrightarrow> bit w 2) \<and>
    (bit v 3 \<longleftrightarrow> bit w 3) \<and> (bit v 4 \<longleftrightarrow> bit w 4) \<and> (bit v 5 \<longleftrightarrow> bit w 5) \<and> (bit v 6 \<longleftrightarrow> bit w 6) \<and> (bit v 7 \<longleftrightarrow> bit w 7)"
  (is "_ \<longleftrightarrow> ?bits")
proof
  show ?bits if "v = w" using that by simp
  show "v = w" if bits: ?bits
  proof (rule bit_word_eqI)
    fix n
    assume "n < LENGTH(8)"
    then have "n = 0 \<or> n = 1 \<or> n = 2 \<or> n = 3 \<or> n = 4 \<or> n = 5 \<or> n = 6 \<or> n = 7" by auto
    then show "bit v n \<longleftrightarrow> bit w n" using bits by (elim disjE) (simp_all only:)
  qed
qed

text \<open>Multiplication by \<open>x\<close>, \<open>x + 1\<close>, \<open>x^2 + 1\<close> and \<open>x^3 + 1\<close> is injective.\<close>

lemma gf_fixed:
  "gf_x w = 0 \<longleftrightarrow> w = 0" "gf_x w = w \<longleftrightarrow> w = 0" "gf_x (gf_x w) = w \<longleftrightarrow> w = 0"
  "gf_x (gf_x (gf_x w)) = w \<longleftrightarrow> w = 0"
  by (simp_all only: byte_eq_iff_bits gf_x_bits bit_0_eq) auto

lemma gf_x_inject: "gf_x v = gf_x w \<longleftrightarrow> v = w"
proof
  assume "gf_x v = gf_x w"
  then have "gf_x (xor v w) = 0" by (simp add: gf_x_xor)
  then have "xor v w = 0" by (simp add: gf_fixed)
  then have "xor (xor v w) w = w" by simp
  then show "v = w" by (simp add: xor.assoc)
qed simp

lemma xor_zero_iff: "xor v w = 0 \<longleftrightarrow> v = (w :: byte)"
proof
  assume "xor v w = 0"
  then have "xor (xor v w) w = w" by simp
  then show "v = w" by (simp add: xor.assoc)
qed simp

section \<open>The code\<close>

definition weighted :: "byte \<Rightarrow> byte \<Rightarrow> byte \<Rightarrow> byte \<Rightarrow> byte" where
  "weighted a b c d = xor a (xor (gf_x b) (xor (gf_x (gf_x c)) (gf_x (gf_x (gf_x d)))))"

definition column :: "byte \<Rightarrow> byte \<Rightarrow> byte \<Rightarrow> byte \<Rightarrow> byte list" where
  "column a b c d = [a, b, c, d, xor a (xor b (xor c d)), weighted a b c d]"

lemma weighted_xor:
  "xor (weighted a b c d) (weighted a' b' c' d') = weighted (xor a a') (xor b b') (xor c c') (xor d d')"
  by (simp add: weighted_def gf_x_xor ac_simps)

text \<open>Four of the six symbols determine a column.\<close>

lemma column_zero:
  assumes "4 \<le> of_bool e0 + of_bool e1 + of_bool e2 + of_bool e3 + of_bool e4 + (of_bool e5 :: nat)"
    and "e0 \<longrightarrow> a = 0" "e1 \<longrightarrow> b = 0" "e2 \<longrightarrow> c = 0" "e3 \<longrightarrow> d = 0"
    and "e4 \<longrightarrow> xor a (xor b (xor c d)) = 0" "e5 \<longrightarrow> weighted a b c d = 0"
  shows "a = 0 \<and> b = 0 \<and> c = 0 \<and> d = 0"
proof -
  have zero: "gf_x 0 = 0" by (simp add: gf_fixed)
  have fixed: "w = gf_x w \<longleftrightarrow> w = 0" "w = gf_x (gf_x w) \<longleftrightarrow> w = 0" "w = gf_x (gf_x (gf_x w)) \<longleftrightarrow> w = 0" for w
    using gf_fixed(2-4) [of w] by (simp_all only: eq_commute [of w "gf_x _"])
  show ?thesis
    using assms
    by (cases e0; cases e1; cases e2; cases e3; cases e4; cases e5)
      (auto simp: gf_fixed fixed gf_x_inject weighted_def xor_zero_iff zero)
qed

definition agree :: "'a option list \<Rightarrow> 'a list \<Rightarrow> bool" where
  \<comment> \<open>what is known of a column\<close>
  "agree ks ys = list_all2 (\<lambda>k y. k = None \<or> k = Some y) ks ys"

lemma column_unique:
  assumes "agree ks (column a b c d)" "agree ks (column a' b' c' d')" "4 \<le> present ks"
  shows "column a b c d = column a' b' c' d'"
proof -
  obtain k0 k1 k2 k3 k4 k5 where ks: "ks = [k0, k1, k2, k3, k4, k5]"
    using assms(1) by (auto simp: agree_def column_def list_all2_Cons2)
  have known: "k = None \<or> k = Some x \<Longrightarrow> k = None \<or> k = Some y \<Longrightarrow> k \<noteq> None \<longrightarrow> x = y" for k :: "byte option" and x y
    by auto
  have "k0 \<noteq> None \<longrightarrow> a = a'" "k1 \<noteq> None \<longrightarrow> b = b'" "k2 \<noteq> None \<longrightarrow> c = c'" "k3 \<noteq> None \<longrightarrow> d = d'"
    "k4 \<noteq> None \<longrightarrow> xor a (xor b (xor c d)) = xor a' (xor b' (xor c' d'))"
    "k5 \<noteq> None \<longrightarrow> weighted a b c d = weighted a' b' c' d'"
    using assms(1,2) by (rule_tac known; simp add: ks agree_def column_def)+
  then have z: "k0 \<noteq> None \<longrightarrow> xor a a' = 0" "k1 \<noteq> None \<longrightarrow> xor b b' = 0" "k2 \<noteq> None \<longrightarrow> xor c c' = 0"
    "k3 \<noteq> None \<longrightarrow> xor d d' = 0"
    "k4 \<noteq> None \<longrightarrow> xor (xor a a') (xor (xor b b') (xor (xor c c') (xor d d'))) = 0"
    "k5 \<noteq> None \<longrightarrow> weighted (xor a a') (xor b b') (xor c c') (xor d d') = 0"
    using xor_zero_iff [of "xor a (xor b (xor c d))" "xor a' (xor b' (xor c' d'))"]
      xor_zero_iff [of "weighted a b c d" "weighted a' b' c' d'"]
    by (simp_all only: xor_zero_iff [THEN iffD2] simp_thms weighted_xor) (simp_all add: ac_simps)
  have "present ks = of_bool (k0 \<noteq> None) + of_bool (k1 \<noteq> None) + of_bool (k2 \<noteq> None) + of_bool (k3 \<noteq> None) +
      of_bool (k4 \<noteq> None) + of_bool (k5 \<noteq> None)"
    by (simp add: ks present_def)
  with assms(3) have "4 \<le> of_bool (k0 \<noteq> None) + of_bool (k1 \<noteq> None) + of_bool (k2 \<noteq> None) + of_bool (k3 \<noteq> None) +
      of_bool (k4 \<noteq> None) + (of_bool (k5 \<noteq> None) :: nat)"
    by simp
  from column_zero [OF this z] show ?thesis by (simp add: xor_zero_iff)
qed

section \<open>Encoding and reconstruction\<close>

definition candidates :: "byte option list \<Rightarrow> byte list list" where
  "candidates ks =
     (let opts = (\<lambda>i. case ks ! i of None \<Rightarrow> map word_of_nat [0..<256] | Some x \<Rightarrow> [x])
      in concat (map (\<lambda>a. concat (map (\<lambda>b. concat (map (\<lambda>c. map (\<lambda>d. column a b c d) (opts 3)) (opts 2))) (opts 1))) (opts 0)))"

definition solve_column :: "byte option list \<Rightarrow> byte list option" where
  "solve_column ks = find (agree ks) (candidates ks)"

definition code_column :: "bytes list \<Rightarrow> nat \<Rightarrow> byte list" where
  "code_column xs j = column (xs ! 0 ! j) (xs ! 1 ! j) (xs ! 2 ! j) (xs ! 3 ! j)"

definition demo_encode :: "bytes list \<Rightarrow> bytes list" where
  "demo_encode xs = map (\<lambda>i. map (\<lambda>j. code_column xs j ! i) [0..<length (xs ! 0)]) [0..<6]"

definition demo_reconstruct :: "bytes option list \<Rightarrow> bytes option list option" where
  "demo_reconstruct os =
     (if present os < 4 then None
      else let n = (case filter (\<lambda>x. x \<noteq> None) os of Some s # _ \<Rightarrow> length s | _ \<Rightarrow> 0);
               columns = map (\<lambda>j. solve_column (map (map_option (\<lambda>s. s ! j)) os)) [0..<n]
           in Some (map (\<lambda>i. Some (map (\<lambda>c. case c of None \<Rightarrow> 0 | Some col \<Rightarrow> col ! i) columns)) [0..<6]))"

definition demo_rs :: rs_lib where
  "demo_rs = \<lparr>
     rs_new = (\<lambda>d p. 0 < d \<and> 0 < p \<and> d + p \<le> 256),
     rs_encode = (\<lambda>d p xs. if d = 4 \<and> p = 2 then Some (demo_encode xs) else None),
     rs_reconstruct = (\<lambda>d p os. if d = 4 \<and> p = 2 then demo_reconstruct os else None)\<rparr>"

lemma byte_listed: "(w :: byte) \<in> set (map word_of_nat [0..<256])"
proof -
  have "unat w < 256" by (rule order_less_le_trans [OF unsigned_less]) simp
  then have "word_of_nat (unat w) \<in> (word_of_nat ` set [0..<256] :: byte set)" by (intro imageI) simp
  then show ?thesis by simp
qed

lemma solve_column_unique:
  assumes "agree ks (column a b c d)" "4 \<le> present ks"
  shows "solve_column ks = Some (column a b c d)"
proof -
  have opts: "(ks ! i = None \<or> ks ! i = Some x) \<Longrightarrow> x \<in> set (case ks ! i of None \<Rightarrow> map word_of_nat [0..<256] | Some x \<Rightarrow> [x])"
    for i x using byte_listed [of x] by (auto simp del: set_map)
  have nth: "i < 6 \<Longrightarrow> ks ! i = None \<or> ks ! i = Some (column a b c d ! i)" for i
    using assms(1) by (auto simp: agree_def list_all2_conv_all_nth column_def)
  have "column a b c d \<in> set (candidates ks)"
    using opts [OF nth, of 0] opts [OF nth, of 1] opts [OF nth, of 2] opts [OF nth, of 3]
    unfolding candidates_def Let_def set_concat set_map UN_iff image_iff bex_simps
    by (simp add: column_def)
  then have "solve_column ks \<noteq> None" using assms(1) by (auto simp: solve_column_def find_None_iff)
  then obtain col where some: "solve_column ks = Some col" by blast
  then have "agree ks col" "col \<in> set (candidates ks)"
    by (auto simp: solve_column_def find_Some_iff)
  note col = some this
  from col(3) obtain a' b' c' d' where "col = column a' b' c' d'" by (auto simp: candidates_def Let_def)
  with column_unique [OF assms(1) _ assms(2)] col show ?thesis by simp
qed

lemma demo_encode_nth:
  "i < 6 \<Longrightarrow> demo_encode xs ! i = map (\<lambda>j. code_column xs j ! i) [0..<length (xs ! 0)]"
  by (simp add: demo_encode_def del: upt_Suc upt_rec_numeral)

lemma length_demo_encode [simp]: "length (demo_encode xs) = 6"
  by (simp add: demo_encode_def del: upt_Suc upt_rec_numeral)

lemma demo_encode_data:
  assumes "length xs = 6" "\<forall>x \<in> set xs. length x = n"
  shows "take 4 (demo_encode xs) = take 4 xs"
proof (rule nth_equalityI)
  fix i
  assume "i < length (take 4 (demo_encode xs))"
  then have i: "i < 4" by simp
  have col: "code_column xs j ! i = xs ! i ! j" for j
  proof -
    have "i = 0 \<or> i = 1 \<or> i = 2 \<or> i = 3" using i by auto
    then show ?thesis by (elim disjE) (simp_all add: code_column_def column_def)
  qed
  have "length (xs ! i) = n" "length (xs ! 0) = n" using assms i by simp_all
  then have "map (\<lambda>j. xs ! i ! j) [0..<length (xs ! 0)] = xs ! i" by (metis map_nth)
  then show "take 4 (demo_encode xs) ! i = take 4 xs ! i"
    using i by (simp add: demo_encode_nth col)
qed (simp add: assms)

lemma demo_reconstruct_ok:
  assumes er: "erasure_of os (demo_encode xs)" and enough: "4 \<le> present os" and n: "length (xs ! 0) = n"
  shows "demo_reconstruct os = Some (map Some (demo_encode xs))"
proof -
  have len: "length os = 6" and E: "\<And>i. i < 6 \<Longrightarrow> os ! i = None \<or> os ! i = Some (demo_encode xs ! i)"
    using er by (simp_all add: erasure_of_def)
  have row: "length (demo_encode xs ! i) = n" if "i < 6" for i using that n by (simp add: demo_encode_nth)
  have solved: "solve_column (map (map_option (\<lambda>s. s ! j)) os) = Some (code_column xs j)" if j: "j < n" for j
  proof -
    have "agree (map (map_option (\<lambda>s. s ! j)) os) (code_column xs j)"
      unfolding agree_def list_all2_conv_all_nth
    proof (intro conjI allI impI)
      show "length (map (map_option (\<lambda>s. s ! j)) os) = length (code_column xs j)"
        by (simp add: len code_column_def column_def)
      show "map (map_option (\<lambda>s. s ! j)) os ! i = None \<or> map (map_option (\<lambda>s. s ! j)) os ! i = Some (code_column xs j ! i)"
        if "i < length (map (map_option (\<lambda>s. s ! j)) os)" for i
        using that E [of i] j n by (auto simp: len demo_encode_nth)
    qed
    moreover have "present (map (map_option (\<lambda>s. s ! j)) os) = present os"
      by (simp add: present_def filter_map comp_def)
    ultimately show ?thesis
      unfolding code_column_def using enough by (intro solve_column_unique) simp_all
  qed
  have width: "(case filter (\<lambda>x. x \<noteq> None) os of Some s # _ \<Rightarrow> length s | _ \<Rightarrow> 0) = n"
  proof (cases "filter (\<lambda>x. x \<noteq> None) os")
    case Nil
    with enough show ?thesis by (simp add: present_def)
  next
    case (Cons o1 rest)
    then have "o1 \<in> set (filter (\<lambda>x. x \<noteq> None) os)" by simp
    then obtain i where "i < 6" "os ! i = o1" "o1 \<noteq> None" by (auto simp: in_set_conv_nth len)
    with E [of i] row [of i] have "\<exists>s. o1 = Some s \<and> length s = n" by auto
    then show ?thesis unfolding Cons by auto
  qed
  have rows: "map (\<lambda>i. Some (map (\<lambda>j. code_column xs j ! i) [0..<n])) [0..<6] = map Some (demo_encode xs)"
    by (rule nth_equalityI) (simp_all add: demo_encode_nth n del: upt_Suc upt_rec_numeral)
  have cols: "map (\<lambda>j. solve_column (map (map_option (\<lambda>s. s ! j)) os)) [0..<n] = map (\<lambda>j. Some (code_column xs j)) [0..<n]"
    using solved by simp
  have "demo_reconstruct os =
      Some (map (\<lambda>i. Some (map (\<lambda>c. case c of None \<Rightarrow> 0 | Some col \<Rightarrow> col ! i) (map (\<lambda>j. Some (code_column xs j)) [0..<n]))) [0..<6])"
    using enough by (simp only: demo_reconstruct_def Let_def width cols not_le [symmetric] simp_thms if_False)
  then show ?thesis by (simp only: map_map comp_def option.case rows)
qed

lemma rs_lawful_demo: "rs_lawful demo_rs 4 2"
proof -
  have enc: "\<exists>ys. rs_encode demo_rs 4 2 xs = Some ys \<and> length ys = 4 + 2 \<and> take 4 ys = take 4 xs \<and>
      (\<forall>y \<in> set ys. length y = n) \<and>
      (\<forall>os. erasure_of os ys \<longrightarrow> 4 \<le> present os \<longrightarrow> rs_reconstruct demo_rs 4 2 os = Some (map Some ys))"
    if xs: "length xs = 4 + 2" "\<forall>x \<in> set xs. length x = n" for n and xs :: "bytes list"
  proof -
    have xs6: "length xs = 6" using xs by simp
    have n: "length (xs ! 0) = n" using xs by simp
    have "\<forall>y \<in> set (demo_encode xs). length y = n"
      by (auto simp: in_set_conv_nth demo_encode_nth n)
    then show ?thesis
      using demo_encode_data [OF xs6 xs(2)] demo_reconstruct_ok [OF _ _ n]
      by (intro exI [of _ "demo_encode xs"]) (simp add: demo_rs_def)
  qed
  have "rs_reconstruct demo_rs 4 2 os = None" if "present os < 4" for os
    using that by (simp add: demo_rs_def demo_reconstruct_def)
  moreover have "rs_new demo_rs 4 2" by (simp add: demo_rs_def)
  ultimately show ?thesis using enc unfolding rs_lawful_def by simp
qed

lemma rs_valid_demo: "rs_valid demo_rs"
  by (simp add: rs_valid_def demo_rs_def)

end
