(* ===== verification/Unit_Tests.thy ===== *)
theory Unit_Tests
  imports Relay_Tests Fec_Tests Mesh_Tests Node_Tests Demo_Code
begin

text \<open>
  The unit tests of the repository together, and concrete libraries that fulfil every contract the
  tests rely on.
\<close>

definition hex_digit :: "nat \<Rightarrow> char" where
  "hex_digit n = char_of (65 + n)"

fun demo_b64_text :: "bytes \<Rightarrow> string" where
  "demo_b64_text [] = []"
| "demo_b64_text (b # bs) = hex_digit (unat b div 16) # hex_digit (unat b mod 16) # demo_b64_text bs"

fun demo_b64_bytes :: "string \<Rightarrow> bytes" where
  "demo_b64_bytes (c # d # s) = word_of_nat ((of_char c - 65) * 16 + (of_char d - 65)) # demo_b64_bytes s"
| "demo_b64_bytes _ = []"

definition demo_codec :: base64_codec where
  \<comment> \<open>two letters per byte; no base64, but a codec with its laws\<close>
  "demo_codec = \<lparr>b64_encode = demo_b64_text,
     b64_decode = (\<lambda>s. if CHR ''!'' \<in> set s then None else Some (demo_b64_bytes s))\<rparr>"

lemma of_char_hex_digit: "n < 16 \<Longrightarrow> (of_char (hex_digit n) :: nat) = 65 + n"
  by (simp add: hex_digit_def of_char_of)

lemma bang_no_digit: "n < 16 \<Longrightarrow> CHR ''!'' \<noteq> hex_digit n"
proof
  assume "n < 16" "CHR ''!'' = hex_digit n"
  then have "(of_char (CHR ''!'') :: nat) = 65 + n" by (simp only: of_char_hex_digit)
  then show False by simp
qed

lemma demo_codec_lawful: "base64_lawful demo_codec"
proof -
  have "unat b div 16 < 16" for b :: byte
  proof -
    have "unat b < 256" by (rule order_less_le_trans [OF unsigned_less]) simp
    then show ?thesis by simp
  qed
  note digits = of_char_hex_digit [OF this] bang_no_digit [OF this]
  have "demo_b64_bytes (demo_b64_text bs) = bs \<and> CHR ''!'' \<notin> set (demo_b64_text bs)" for bs
    using digits by (induction bs) (simp_all add: of_char_hex_digit bang_no_digit)
  then show ?thesis by (simp add: base64_lawful_def demo_codec_def)
qed

section \<open>Property\<close>

text \<open>C32. The repository's unit tests on the model. Those of the wire protocol, the relay header, the shard configurations and
  the loss tracker pass outright; those of the block codec for every Reed-Solomon library lawful for 4 data and 2 parity
  shards; those of the configuration and the admin endpoints for every lawful base64 codec and header reader; those of the
  router for every heap; those of the latency matrix and the prober whatever the clock shows, as long as the two pings of
  one test are sent within ten seconds. Of the eight tests of the encryption, two pass for every lawful AEAD and every key
  drawn; the other six assert that two values differ or that a ciphertext is rejected, which no contract promises, and
  each passes exactly when its collision does not occur (the ciphertext begins with its message; it is one under the other
  key, the other number or after the change; it repeats under the next number; one key is drawn twice).\<close>

theorem unit_tests_pass:
  assumes "rs_lawful rs 4 2" "aead_lawful lib" "draws fill key" "draws fill2 key2" "base64_lawful b64" "reads_ascii to_str"
    and "max_heap pop" "clock 1 - clock 0 < PROBE_MAX_AGE"
  shows "list_all (\<lambda>t. t = Inr ()) (wire_tests @ relay_header_tests @ fec_config_tests @ fec_shard_tests rs clock @
      [test_empty_payload lib fill, test_large_payload lib fill] @ matrix_tests clock @ probe_tests clock @
      config_tests b64 @ admin_tests (to_str, other)) \<and>
    list_all (\<lambda>t. t = Some (Inr ())) (router_tests pop clock) \<and>
    (test_encrypt_decrypt_roundtrip lib fill = Inr () \<longleftrightarrow>
       (\<exists>ct. encrypt lib (crypto_new key) 42 (str_bytes ''hello entrouter-line'') = Inr ct \<and>
         take 20 ct \<noteq> str_bytes ''hello entrouter-line'')) \<and>
    (test_wrong_key_fails lib fill fill2 = Inr () \<longleftrightarrow>
       (\<forall>p. encrypt lib (crypto_new key2) 1 p \<noteq> encrypt lib (crypto_new key) 1 (str_bytes ''secret''))) \<and>
    (test_wrong_seq_fails lib fill = Inr () \<longleftrightarrow>
       (\<forall>p. encrypt lib (crypto_new key) 2 p \<noteq> encrypt lib (crypto_new key) 1 (str_bytes ''secret''))) \<and>
    (test_sequential_nonces lib fill = Inr () \<longleftrightarrow>
       encrypt lib (crypto_new key) 0 (str_bytes ''test'') \<noteq> encrypt lib (crypto_new key) 1 (str_bytes ''test'')) \<and>
    (test_tampered_ciphertext_fails lib fill = Inr () \<longleftrightarrow>
       (\<exists>b ct. encrypt lib (crypto_new key) 1 (str_bytes ''data'') = Inr (b # ct) \<and>
         (\<forall>p. encrypt lib (crypto_new key) 1 p \<noteq> Inr (xor b 0xFF # ct)))) \<and>
    (test_generate_key_is_random fill fill2 = Inr () \<longleftrightarrow> key \<noteq> key2)"
proof (intro conjI crypto_collision_tests [OF assms(2-4)])
  show "list_all (\<lambda>t. t = Inr ()) (wire_tests @ relay_header_tests @ fec_config_tests @ fec_shard_tests rs clock @
      [test_empty_payload lib fill, test_large_payload lib fill] @ matrix_tests clock @ probe_tests clock @
      config_tests b64 @ admin_tests (to_str, other))"
    using assms
    by (simp add: wire_tests_pass relay_header_tests_pass fec_config_tests_pass fec_shard_tests_pass
        crypto_roundtrip_tests_pass matrix_tests_pass probe_tests_pass config_tests_pass admin_tests_pass)
  show "list_all (\<lambda>t. t = Some (Inr ())) (router_tests pop clock)" by (rule router_tests_pass [OF assms(7)])
qed

theorem unit_tests_pass_witness:
  "test_encode_decode_with_loss demo_rs (\<lambda>n. 40 * n) = Inr () \<and>
   test_large_payload demo_aead (\<lambda>_. Some (replicate 32 7)) = Inr () \<and>
   test_pending_count_tracks_outstanding 0 40 80 = Inr () \<and> test_bad_base64_key_fails demo_codec = Inr () \<and>
   test_multi_hop_shortest_path pop_cheapest (\<lambda>n. 40 * n) = Some (Inr ()) \<and>
   test_generate_key_is_random (\<lambda>_. Some (replicate 32 7)) (\<lambda>_. Some (replicate 32 8)) = Inr ()"
  using unit_tests_pass [of demo_rs demo_aead "\<lambda>_. Some (replicate 32 7)" "replicate 32 7" "\<lambda>_. Some (replicate 32 8)"
      "replicate 32 8" demo_codec "\<lambda>bs. Some (bytes_str bs)" pop_cheapest "\<lambda>n. 40 * n"]
  by (simp add: rs_lawful_demo demo_aead_lawful draws_def demo_codec_lawful reads_ascii_def PROBE_MAX_AGE_def
      fec_shard_tests_def probe_tests_def config_tests_def router_tests_def cheapest.max_heap_axioms)

end
