(* ===== verification/Spec2Isabelle.thy ===== *)
theory Spec2Isabelle
  imports Fec_Stream Tunnel_Correct Router_Correct Forwarder_Safe Mesh_Bootstrap Startup Edge_Listen Harness_Report Benches Unit_Tests
begin

text \<open>
  Verification of entrouter-line, a relay between points of presence: each node accepts TCP and QUIC
  clients at its edge, packs their bytes into relay payloads, protects blocks of payloads with
  Reed-Solomon parity, encrypts the shards into UDP tunnels to its peers, and routes by measured
  round-trip times.  This theory imports every other one; all files are under \<open>src/\<close> of the
  repository, in its crate directory \<open>src/\<close>.

  Parts, from the bytes up, and how they interact

  \<^item> \<open>Prelude\<close>: machine integers as words, panics as the left summand of \<open>outcome\<close>, slices,
    little-endian integers, \<open>DashMap\<close> and \<open>HashMap\<close> as association lists with a fixed but arbitrary
    order, and the shared interfaces.
  \<^item> \<open>Wire\<close> (\<open>relay/wire.rs\<close>), \<open>Crypto\<close> (\<open>relay/crypto.rs\<close>), \<open>Float64\<close> and \<open>Fec\<close> (\<open>relay/fec.rs\<close>): the
    11-byte header, the AEAD with its nonces, the shard configurations, the encoder and the loss tracker.
  \<^item> \<open>Fec_Codec\<close>, \<open>Fec_Block\<close>, \<open>Fec_Stream\<close> (\<open>relay/fec_codec.rs\<close>): the sender that collects payloads into
    blocks, the receiver that rebuilds blocks, what one block and what a stream of blocks delivers.
  \<^item> \<open>Tunnel\<close>, \<open>Tunnel_Correct\<close> (\<open>relay/tunnel.rs\<close>): sending, sending with parity, and the two receive loops.
  \<^item> \<open>Latency_Matrix\<close> (\<open>mesh/latency_matrix.rs\<close>), \<open>Router\<close>, \<open>Router_Correct\<close> (\<open>mesh/router.rs\<close>), \<open>Probe\<close>
    (\<open>mesh/probe.rs\<close>): measured times, shortest routes over them, and the probes that measure.
  \<^item> \<open>Relay_Header\<close>, \<open>Forwarder\<close>, \<open>Forwarder_Safe\<close> (\<open>relay/forwarder.rs\<close>): the hub that joins all of these. Its
    state holds the tunnels (an arena, as they are shared by \<open>Arc\<close>), one FEC sender and receiver per
    peer, the prober with the matrix, the queue of local deliveries and the spawned send tasks.
  \<^item> \<open>Edge\<close>, \<open>Edge_Correct\<close>, \<open>Edge_Flows\<close>, \<open>Edge_Listen\<close> (\<open>edge/tcp_split.rs\<close>, \<open>edge/quic_acceptor.rs\<close>): flow
    numbers, the handler of a client with its read and write tasks, deliveries into bounded channels,
    and the accept loops.
  \<^item> \<open>Config\<close> (\<open>config.rs\<close>), \<open>Node\<close>, \<open>Node_Safe\<close>, \<open>Node_Props\<close> (\<open>main.rs\<close>), \<open>Admin\<close> (\<open>admin.rs\<close>): the checked
    configuration, the node it builds, a step for every turn of every task, and what the node reports.
  \<^item> \<open>Startup\<close> (\<open>main.rs\<close>, and the certificates of \<open>edge/quic_acceptor.rs\<close>): \<open>run\<close> with its calls to the system in
    order, its errors, and \<open>main\<close>.
  \<^item> \<open>End_To_End\<close>, \<open>Timer_Delivery\<close>, \<open>Node_Schedules\<close>, \<open>Client_To_Client\<close>: two nodes; a client's bytes on the way to
    the other node's local deliveries, in full blocks and in partial ones that the timer flushes, and on
    to the other client under any schedule of the receiving node's tasks.  \<open>Node_Noninterference\<close>: a node
    under datagrams of strangers.  \<open>Mesh_Bootstrap\<close>: from two configurations, over the first probe, to
    the first client.
  \<^item> \<open>Lossy_Proxy\<close> (\<open>bin/lossy_proxy.rs\<close>), \<open>Test_Harness\<close>, \<open>Harness_Correct\<close>, \<open>Harness_Report\<close>
    (\<open>bin/test_harness.rs\<close>): the programs that measure loss recovery, the verdict and the statistics.
  \<^item> \<open>Test_Asserts\<close>, \<open>Relay_Tests\<close>, \<open>Fec_Tests\<close>, \<open>Mesh_Tests\<close>, \<open>Node_Tests\<close>, \<open>Unit_Tests\<close>: the unit tests of every
    module (its \<open>mod tests\<close>), as programs that return or panic; \<open>Demo_Code\<close>: a concrete Reed-Solomon code.  \<open>Benches\<close>
    (\<open>benches/relay_bench.rs\<close>): the closures that are measured; none of them fails.

  Interfaces.  \<open>frame_codec\<close>: a header in front of a payload (wire, shard and relay header).
  \<open>sweep_store\<close>, which extends \<open>keyed_store\<close>: a map with a sweep (the pending blocks and probes, the
  tables).  \<open>ticket_counter\<close>: an atomic counter read by \<open>fetch_add\<close> (sequence numbers, probe and flow
  identifiers).  \<open>max_heap\<close>: what the router asks of \<open>BinaryHeap\<close>.  \<open>flow_edge\<close>: what the delivery
  loop asks of an edge.  Each is interpreted on the model's definitions.

  What is shown

  \<^item> Delivery: what a client sends at one node in small chunks is written to the client of the same flow at the
    other, in order, under any schedule that runs the tasks of the receiving node (C1), and two nodes that
    know each other by their configurations come to that point by themselves: the first probe opens the
    route (C2). It rests on the codec, which gives a stream of payloads out block by block as long as each
    block keeps \<open>d\<close> of its frames (C3, C20), on routing, tunnel and network for a full block (C4, C9) and
    for a partial one after a tick of the timer (C5), and on the edges, which deliver in order (C10).
  \<^item> Safety: a started node never panics and every turn of its tasks completes (C6), with what is asked
    for made explicit; datagrams that no peer sealed have no effect on a run, the bytes of one
    buffer apart (C7, C23); the edges keep their channels bounded (C11); shards that name a sane code
    never make the receiver panic (C24); only the token opens the status document (C18), which tells
    the truth (C19, C31).
  \<^item> Start-up: exactly the valid configurations load (C13), the first failing call decides the error (C14),
    and a program that starts is the node of its configuration (C15), which satisfies the invariant of C6
    when the shard counts are a valid code and the probe interval is not zero.
  \<^item> Routing: the route is a shortest path (C8), within a microsecond per hop of the best measured time
    (C27), alternatives are the best ones (C25, C26), all searches end (C12); a measured time settles
    where its samples do (C29).  A probe answered in time is measured (\<open>probe_measures_rtt\<close>).
  \<^item> Equivalences and refinements: the receive loop is a map over datagrams although its
    buffer is never cleared (C22); floating-point loss tiers and averages equal exact integer
    arithmetic (C21, C28); the verdict of the end-to-end test is the truth (C16), and what it prints beside
    it is counted exactly, with a window that flatters short tests (C17); the two proxies are one
    (\<open>harness_proxy_is_lossy_proxy\<close>).
  \<^item> Validation: the authors' unit tests on the model (C32): all pass, but for six tests of the
    encryption that assert that two values differ or that a ciphertext is rejected; those pass exactly when no
    collision occurs.
  \<^item> Limits of the code, proved as such: C33 to C40, listed among the findings of the
    manifest: half-closed clients lose replies, full TCP chunks never arrive, TCP flow numbers run into
    those of QUIC, nodes share flow numbers, unchecked shard counts panic (at the start or at the first data), the parity never adapts,
    nonces repeat between the two ends of a link, replays are accepted; and a probe interval of zero panics
    (\<open>zero_probe_interval_panics\<close>).  Routes are always direct (C30), since a node learns of its own links
    only.

  Parameters and what is asked of them.  ChaCha20-Poly1305 (\<open>aead_lawful\<close>), the Reed-Solomon
  crate (\<open>rs_lawful\<close> for one configuration, \<open>rs_valid\<close>), the order in which a heap yields entries of
  equal cost (\<open>max_heap\<close>), the outcome of \<open>send_to\<close>, the clock, file reading, TOML, base64, HTTP header text,
  \<open>getrandom\<close>, the random draws of the proxies, and for start-up the results of binding sockets, of the PEM
  parser, \<open>rcgen\<close> and \<open>rustls\<close>.  Each hypothesis has an instance: \<open>demo_aead\<close>, \<open>xor_rs\<close>, \<open>demo_rs\<close>,
  \<open>pop_cheapest\<close>, \<open>demo_codec\<close>, \<open>demo_draw\<close>.

  Bounds and loops.  Sequence numbers, identifiers and counters have their width and wrap; the shard
  counts of the configuration are 64-bit.  In the delivery properties (C1, C2, C4, C5) a message and the name of its
  destination have at most 1386 bytes together, so that the frame of a shard fits the 1427 bytes of a receive
  buffer; C34 shows what happens above.  The invariants bound a relay payload by 20000 bytes, more than
  the 16384-byte read buffer of the edges plus header; the ciphers take messages below 4 GiB.
  Vectors of more than \<open>isize::MAX\<close> bytes panic where the code allocates for a configured count (the
  senders); that the memory of smaller ones can be had is taken for granted.  There is no fuel: the two loops of the router are partial
  functions with values in \<open>option\<close> that are proved to return, all other loops are structural or have a
  measure.  The concurrent tasks are steps between their await points, in any order.  The queue of local
  deliveries has no bound in the model: the program's channel of 4096 makes the forwarder wait for
  the dispatcher, which another order of steps expresses.

  Panics.  The release profile aborts on a panic, so a panic of any task ends the node; the model does
  not continue after one.

  Not modelled: the bytes inside TLS and QUIC and their handshakes (their outcome is an event), socket
  options, the texts of \<open>clap\<close>, logging and printed text (the numbers printed by the test program are
  modelled), the wait for \<open>ctrl_c\<close>, the measuring of the benchmarks, and the module declarations.
\<close>

end
